(* ===== verification/Prelude.thy ===== *)
theory Prelude
  imports Main "HOL-Library.Word" "HOL-Library.Monad_Syntax"
begin

text \<open>
  What every component of the development shares: the machine types of the Go sources, time as
  Go's \<open>time\<close> package computes with it, checked access to byte slices (\<open>None\<close> is the run-time
  panic of an index or slice expression that is out of range), big- and little-endian reads and
  writes, and the loops \<open>for k, v := range m { ... delete(m, k) }\<close> that three components run over
  a map in an order the language leaves open. The collections \<open>go_mem\<close> and \<open>go_time\<close> gather the
  rewrite rules of these parts, for \<open>simp add:\<close> in the component proofs.
\<close>

unbundle bit_operations_syntax

named_theorems go_mem \<open>checked slice and index expressions that stay in range\<close>
named_theorems go_time \<open>comparisons of time differences\<close>

section \<open>Machine types\<close>

type_synonym byte = "8 word"
type_synonym u16 = "16 word"
type_synonym u32 = "32 word"

section \<open>Time\<close>

text \<open>
  A \<open>time.Time\<close> is a number of nanoseconds, counted from the zero value of the type. A
  \<open>time.Duration\<close> is an \<open>int64\<close> of nanoseconds: \<open>Sub\<close> saturates at the ends of its range and a
  product of durations wraps around.
\<close>

type_synonym time = int

abbreviation "max_dur \<equiv> (9223372036854775807::int)"
abbreviation "min_dur \<equiv> (- 9223372036854775808::int)"
abbreviation "second \<equiv> (1000000000::int)"
abbreviation "millisecond \<equiv> (1000000::int)"
abbreviation "minute \<equiv> 60 * second"

definition wrap64 :: "int \<Rightarrow> int" where
  "wrap64 x = (x + 2 ^ 63) mod 2 ^ 64 - 2 ^ 63"

definition time_sub :: "time \<Rightarrow> time \<Rightarrow> int" where
  "time_sub t u = max min_dur (min max_dur (t - u))"

definition seconds :: "int \<Rightarrow> int" where
  "seconds n = wrap64 (n * second)"

lemma wrap64_id [simp]: "min_dur \<le> x \<Longrightarrow> x \<le> max_dur \<Longrightarrow> wrap64 x = x"
  by (simp add: wrap64_def)

lemma seconds_small [go_time]: "0 \<le> n \<Longrightarrow> n \<le> 9223372036 \<Longrightarrow> seconds n = n * second"
  by (simp add: seconds_def)

lemma time_sub_less [go_time]: "min_dur < d \<Longrightarrow> d \<le> max_dur \<Longrightarrow> time_sub t u < d \<longleftrightarrow> t - u < d"
  by (auto simp: time_sub_def)

lemma time_sub_greater [go_time]: "min_dur \<le> d \<Longrightarrow> d < max_dur \<Longrightarrow> d < time_sub t u \<longleftrightarrow> d < t - u"
  by (auto simp: time_sub_def)

lemma time_sub_self [simp]: "time_sub t t = 0"
  by (simp add: time_sub_def)

section \<open>Checked slices and indices\<close>

text \<open>\<open>xs[i]\<close> and \<open>xs[a:b]\<close> of Go, with \<open>None\<close> for the panic.\<close>

definition idx :: "'a list \<Rightarrow> nat \<Rightarrow> 'a option" where
  "idx xs i = (if i < length xs then Some (xs ! i) else None)"

definition subslice :: "'a list \<Rightarrow> nat \<Rightarrow> nat \<Rightarrow> 'a list option" where
  "subslice xs a b = (if a \<le> b \<and> b \<le> length xs then Some (take (b - a) (drop a xs)) else None)"

lemma idx_Some [go_mem]: "i < length xs \<Longrightarrow> idx xs i = Some (xs ! i)"
  by (simp add: idx_def)

lemma idx_eq_Some: "idx xs i = Some x \<longleftrightarrow> i < length xs \<and> xs ! i = x"
  by (simp add: idx_def)

lemma slice_Some [go_mem]:
  "a \<le> b \<Longrightarrow> b \<le> length xs \<Longrightarrow> subslice xs a b = Some (take (b - a) (drop a xs))"
  by (simp add: subslice_def)

lemma slice_eq_Some:
  "subslice xs a b = Some ys \<longleftrightarrow> a \<le> b \<and> b \<le> length xs \<and> ys = take (b - a) (drop a xs)"
  by (auto simp: subslice_def)

lemma slice_ex: "a \<le> b \<Longrightarrow> b \<le> length xs \<Longrightarrow> \<exists>ys. subslice xs a b = Some ys \<and> length ys = b - a"
  by (simp add: subslice_def)

lemma length_slice: "subslice xs a b = Some ys \<Longrightarrow> length ys = b - a"
  by (auto simp: subslice_def split: if_splits)

section \<open>Byte order\<close>

definition word16 :: "byte \<Rightarrow> byte \<Rightarrow> u16" where
  "word16 hi lo = push_bit 8 (ucast hi) OR ucast lo"

text \<open>\<open>binary.BigEndian.Uint16(b)\<close> reads \<open>b[1]\<close> first, so it panics on fewer than two bytes.\<close>

definition be16 :: "byte list \<Rightarrow> u16 option" where
  "be16 b = do { lo \<leftarrow> idx b 1; hi \<leftarrow> idx b 0; Some (word16 hi lo) }"

text \<open>\<open>binary.BigEndian.Uint16(xs[i:i+2])\<close>.\<close>

definition be16_at :: "byte list \<Rightarrow> nat \<Rightarrow> u16 option" where
  "be16_at xs i = do { b \<leftarrow> subslice xs i (i + 2); be16 b }"

definition hi8 :: "u16 \<Rightarrow> byte" where "hi8 w = ucast (drop_bit 8 w)"
definition lo8 :: "u16 \<Rightarrow> byte" where "lo8 w = ucast w"

definition word32 :: "byte \<Rightarrow> byte \<Rightarrow> byte \<Rightarrow> byte \<Rightarrow> u32" where
  "word32 b3 b2 b1 b0 =
     push_bit 24 (ucast b3) OR push_bit 16 (ucast b2) OR push_bit 8 (ucast b1) OR ucast b0"

text \<open>\<open>binary.LittleEndian.Uint32(xs[i:i+4])\<close>.\<close>

definition le32_at :: "byte list \<Rightarrow> nat \<Rightarrow> u32 option" where
  "le32_at xs i = do { b \<leftarrow> subslice xs i (i + 4);
     b3 \<leftarrow> idx b 3; b2 \<leftarrow> idx b 2; b1 \<leftarrow> idx b 1; b0 \<leftarrow> idx b 0; Some (word32 b3 b2 b1 b0) }"

text \<open>\<open>copy(xs[a:b], src)\<close>: as many bytes as both sides have.\<close>

definition copy_to :: "'a list \<Rightarrow> nat \<Rightarrow> nat \<Rightarrow> 'a list \<Rightarrow> 'a list option" where
  "copy_to xs a b src = (if a \<le> b \<and> b \<le> length xs
     then let n = min (b - a) (length src) in Some (take a xs @ take n src @ drop (a + n) xs)
     else None)"

text \<open>\<open>binary.BigEndian.PutUint16(xs[i:i+2], v)\<close>.\<close>

definition put16 :: "byte list \<Rightarrow> nat \<Rightarrow> u16 \<Rightarrow> byte list option" where
  "put16 xs i v = copy_to xs i (i + 2) [hi8 v, lo8 v]"

lemma nth_upt_slice [go_mem]: "i < n \<Longrightarrow> take n (drop a xs) ! i = drop a xs ! i"
  by simp

lemma be16_at_Some [go_mem]:
  "i + 2 \<le> length xs \<Longrightarrow> be16_at xs i = Some (word16 (xs ! i) (xs ! Suc i))"
  by (simp add: be16_at_def be16_def subslice_def idx_def)

lemma le32_at_Some [go_mem]:
  "i + 4 \<le> length xs \<Longrightarrow>
   le32_at xs i = Some (word32 (xs ! (i + 3)) (xs ! (i + 2)) (xs ! (i + 1)) (xs ! i))"
  by (simp add: le32_at_def subslice_def idx_def)

lemma copy_to_Some [go_mem]:
  "a \<le> b \<Longrightarrow> b \<le> length xs \<Longrightarrow> length src = b - a \<Longrightarrow>
   copy_to xs a b src = Some (take a xs @ src @ drop b xs)"
  by (simp add: copy_to_def Let_def)

lemma length_copy_to: "copy_to xs a b src = Some ys \<Longrightarrow> length ys = length xs"
  by (auto simp: copy_to_def Let_def split: if_splits)

lemma put16_Some [go_mem]:
  "i + 2 \<le> length xs \<Longrightarrow> put16 xs i v = Some (take i xs @ [hi8 v, lo8 v] @ drop (i + 2) xs)"
  by (simp add: put16_def copy_to_def)

lemma length_put16: "put16 xs i v = Some ys \<Longrightarrow> length ys = length xs"
  by (simp add: put16_def length_copy_to)

lemma word16_hi_lo [simp]: "word16 (hi8 w) (lo8 w) = w"
  by (rule bit_word_eqI)
    (auto simp: word16_def hi8_def lo8_def bit_simps)

lemma not_bit_byte [simp]: "8 \<le> n \<Longrightarrow> \<not> bit (b :: byte) n"
  using bit_imp_le_length [of b n] by auto

lemma hi8_word16 [simp]: "hi8 (word16 a b) = a"
  by (rule bit_word_eqI) (auto simp: word16_def hi8_def bit_simps)

lemma lo8_word16 [simp]: "lo8 (word16 a b) = b"
  by (rule bit_word_eqI) (auto simp: word16_def lo8_def bit_simps)

lemma word16_inject [simp]: "word16 a b = word16 c d \<longleftrightarrow> a = c \<and> b = d"
  by (metis hi8_word16 lo8_word16)

lemma unat_word16: "unat (word16 a b) = 256 * unat a + unat b"
proof -
  have "push_bit 8 (ucast a) AND (ucast b :: u16) = 0"
    by (rule bit_word_eqI) (auto simp: bit_simps)
  then have sum: "word16 a b = push_bit 8 (ucast a) + ucast b"
    by (simp add: word16_def disjunctive_add_eq_or)
  have "unat a < 256" "unat b < 256"
    using unsigned_less [of a] unsigned_less [of b] by simp_all
  moreover have "unat (push_bit 8 (ucast a) :: u16) = take_bit 16 (push_bit 8 (unat (ucast a :: u16)))"
    by (subst unsigned_push_bit_eq) simp_all
  moreover have ucasts: "unat (ucast a :: u16) = unat a" "unat (ucast b :: u16) = unat b"
    using \<open>unat a < 256\<close> \<open>unat b < 256\<close> by (simp_all add: unsigned_ucast_eq take_bit_nat_eq_self)
  ultimately have "unat (push_bit 8 (ucast a) :: u16) = 256 * unat a"
    by (simp add: push_bit_eq_mult take_bit_nat_eq_self)
  with ucasts \<open>unat a < 256\<close> \<open>unat b < 256\<close> show ?thesis
    by (simp only: sum unat_word_ariths) simp
qed

text \<open>The bytes of a 32-bit word, least significant first.\<close>

definition byte_of :: "nat \<Rightarrow> u32 \<Rightarrow> byte" where
  "byte_of i w = ucast (drop_bit (8 * i) w)"

lemma byte_of_word32 [simp]:
  "byte_of 0 (word32 b3 b2 b1 b0) = b0"
  "byte_of (Suc 0) (word32 b3 b2 b1 b0) = b1"
  "byte_of 2 (word32 b3 b2 b1 b0) = b2"
  "byte_of 3 (word32 b3 b2 b1 b0) = b3"
  by (rule bit_word_eqI; auto simp: byte_of_def word32_def bit_simps)+

lemma word32_inject [simp]:
  "word32 a b c d = word32 a' b' c' d' \<longleftrightarrow> a = a' \<and> b = b' \<and> c = c' \<and> d = d'"
  by (metis byte_of_word32)

lemma word32_byte_of [simp]:
  "word32 (byte_of 3 w) (byte_of 2 w) (byte_of (Suc 0) w) (byte_of 0 w) = w"
proof (rule bit_word_eqI)
  fix n assume "n < LENGTH(32)"
  then consider "n < 8" | "8 \<le> n" "n < 16" | "16 \<le> n" "n < 24" | "24 \<le> n" "n < 32"
    by fastforce
  then show "bit (word32 (byte_of 3 w) (byte_of 2 w) (byte_of (Suc 0) w) (byte_of 0 w)) n = bit w n"
    by cases (auto simp: byte_of_def word32_def bit_simps)
qed

definition le32 :: "u32 \<Rightarrow> byte list" where
  "le32 w = [byte_of 0 w, byte_of (Suc 0) w, byte_of 2 w, byte_of 3 w]"

lemma length_le32 [simp]: "length (le32 w) = 4"
  by (simp add: le32_def)

lemma le32_at_le32 [go_mem]:
  assumes "xs = pre @ le32 w @ post" "length pre = i"
  shows "le32_at xs i = Some w"
proof -
  have "xs ! i = byte_of 0 w" "xs ! (i + 1) = byte_of (Suc 0) w" "xs ! (i + 2) = byte_of 2 w"
    "xs ! (i + 3) = byte_of 3 w" "i + 4 \<le> length xs"
    using assms by (simp_all add: le32_def nth_append numeral_2_eq_2 numeral_3_eq_3)
  then show ?thesis by (simp only: le32_at_Some) simp
qed

section \<open>Code that does not panic\<close>

text \<open>\<open>runs P m\<close>: \<open>m\<close> does not panic and its result satisfies \<open>P\<close>; one rule per construct.\<close>

definition runs :: "('a \<Rightarrow> bool) \<Rightarrow> 'a option \<Rightarrow> bool" where
  "runs P m \<longleftrightarrow> (\<exists>r. m = Some r \<and> P r)"

named_theorems go_runs \<open>introduction rules for \<open>runs\<close>\<close>

lemma runs_Some [go_runs]: "P r \<Longrightarrow> runs P (Some r)"
  by (simp add: runs_def)

lemma runs_if [go_runs]: "(c \<Longrightarrow> runs P x) \<Longrightarrow> (\<not> c \<Longrightarrow> runs P y) \<Longrightarrow> runs P (if c then x else y)"
  by simp

lemma runs_let [go_runs]: "(\<And>v. v = x \<Longrightarrow> runs P (f v)) \<Longrightarrow> runs P (let v = x in f v)"
  by simp

lemma runs_idx [go_runs]:
  "i < length xs \<Longrightarrow> (\<And>v. idx xs i = Some v \<Longrightarrow> runs P (f v)) \<Longrightarrow> runs P (Option.bind (idx xs i) f)"
  by (simp add: idx_def)

lemma runs_be16_at [go_runs]:
  "i + 2 \<le> length xs \<Longrightarrow> (\<And>w. be16_at xs i = Some w \<Longrightarrow> runs P (f w)) \<Longrightarrow> runs P (Option.bind (be16_at xs i) f)"
  by (simp add: be16_at_Some)

lemma runs_le32_at [go_runs]:
  "i + 4 \<le> length xs \<Longrightarrow> (\<And>w. le32_at xs i = Some w \<Longrightarrow> runs P (f w)) \<Longrightarrow> runs P (Option.bind (le32_at xs i) f)"
  by (simp add: le32_at_Some)

lemma runs_slice [go_runs]:
  "a \<le> b \<Longrightarrow> b \<le> length xs \<Longrightarrow> (\<And>ys. subslice xs a b = Some ys \<Longrightarrow> length ys = b - a \<Longrightarrow> runs P (f ys)) \<Longrightarrow>
   runs P (Option.bind (subslice xs a b) f)"
  by (simp add: subslice_def)

lemma runs_bind: "runs Q m \<Longrightarrow> (\<And>x. m = Some x \<Longrightarrow> Q x \<Longrightarrow> runs P (f x)) \<Longrightarrow> runs P (Option.bind m f)"
  by (auto simp: runs_def)

lemma runs_weaken: "runs P m \<Longrightarrow> (\<And>r. P r \<Longrightarrow> Q r) \<Longrightarrow> runs Q m"
  by (auto simp: runs_def)

section \<open>Deleting while ranging over a map\<close>

text \<open>
  \<open>for k, v := range m { if !keep(k, v) { delete(m, k) } }\<close>: the order of the keys is not
  specified, each key of the map is visited once. \<open>range_delete keep ks m\<close> runs the loop along the
  order \<open>ks\<close>, \<open>map_keep keep m\<close> is what it computes.
\<close>

definition map_keep :: "('k \<Rightarrow> 'v \<Rightarrow> bool) \<Rightarrow> ('k \<rightharpoonup> 'v) \<Rightarrow> ('k \<rightharpoonup> 'v)" where
  "map_keep keep m = (\<lambda>k. case m k of None \<Rightarrow> None | Some v \<Rightarrow> if keep k v then Some v else None)"

primrec range_delete :: "('k \<Rightarrow> 'v \<Rightarrow> bool) \<Rightarrow> 'k list \<Rightarrow> ('k \<rightharpoonup> 'v) \<Rightarrow> ('k \<rightharpoonup> 'v)" where
  "range_delete keep [] m = m"
| "range_delete keep (k # ks) m = range_delete keep ks
     (case m k of None \<Rightarrow> m | Some v \<Rightarrow> if keep k v then m else m(k := None))"

lemma map_keep_eq_Some [simp]: "map_keep keep m k = Some v \<longleftrightarrow> m k = Some v \<and> keep k v"
  by (auto simp: map_keep_def split: option.splits)

lemma map_keep_eq_None: "map_keep keep m k = None \<longleftrightarrow> (\<forall>v. m k = Some v \<longrightarrow> \<not> keep k v)"
  by (auto simp: map_keep_def split: option.splits)

lemma dom_map_keep: "dom (map_keep keep m) \<subseteq> dom m"
  by (auto simp: dom_def)

lemma range_delete_apply:
  "range_delete keep ks m k = (if k \<in> set ks then map_keep keep m k else m k)"
proof (induction ks arbitrary: m)
  case (Cons x ks)
  show ?case
    by (auto simp: Cons.IH map_keep_def split: option.splits)
qed simp

lemma range_delete_any_order: "dom m \<subseteq> set ks \<Longrightarrow> range_delete keep ks m = map_keep keep m"
  by (rule ext) (auto simp: range_delete_apply map_keep_def dom_def split: option.splits)

text \<open>
  The contract of a sweep, whatever else it tidies: the entries that are left are those the
  component wants to keep, unchanged.
\<close>

locale sweeping =
  fixes lookup :: "'s \<Rightarrow> 'k \<Rightarrow> 'v option"
    and keep :: "'c \<Rightarrow> 's \<Rightarrow> 'k \<Rightarrow> 'v \<Rightarrow> bool"
    and sweep :: "'c \<Rightarrow> 's \<Rightarrow> 's"
  assumes lookup_sweep: "lookup (sweep c s) k = Some v \<longleftrightarrow> lookup s k = Some v \<and> keep c s k v"
begin

lemma sweep_dom: "dom (lookup (sweep c s)) \<subseteq> dom (lookup s)"
  by (auto simp: lookup_sweep)

lemma sweep_dropped: "lookup s k = Some v \<Longrightarrow> \<not> keep c s k v \<Longrightarrow> lookup (sweep c s) k = None"
  by (metis lookup_sweep not_Some_eq option.sel)

lemma sweep_kept: "lookup s k = Some v \<Longrightarrow> keep c s k v \<Longrightarrow> lookup (sweep c s) k = Some v"
  by (simp add: lookup_sweep)

lemma sweep_absent: "lookup s k = None \<Longrightarrow> lookup (sweep c s) k = None"
  by (metis lookup_sweep not_Some_eq)

lemma sweep_never_grows:
  assumes "finite (dom (lookup s))"
  shows "card (dom (lookup (sweep c s))) \<le> card (dom (lookup s))"
  using assms sweep_dom by (rule card_mono)

end

section \<open>Background loops\<close>

text \<open>
  A goroutine that waits for its ticker or for the closing of its stop channel. The events are those
  that it sees and, between them, what other goroutines do to the state; the second result says whether it
  has returned.
\<close>

datatype ('t, 's) loop_event = Stopped | Ticked 't | Meanwhile "'s \<Rightarrow> 's"

primrec ticker_loop :: "('t \<Rightarrow> 's \<Rightarrow> 's) \<Rightarrow> ('t, 's) loop_event list \<Rightarrow> 's \<Rightarrow> 's \<times> bool" where
  "ticker_loop tick [] s = (s, False)"
| "ticker_loop tick (e # es) s = (case e of
       Stopped \<Rightarrow> (s, True)
     | Ticked t \<Rightarrow> ticker_loop tick es (tick t s)
     | Meanwhile f \<Rightarrow> ticker_loop tick es (f s))"

lemma ticker_loop_returns: "snd (ticker_loop tick es s) \<longleftrightarrow> Stopped \<in> set es"
  by (induction es arbitrary: s) (auto split: loop_event.splits)

lemma ticker_loop_invariant:
  assumes "P s" "\<And>t s. Ticked t \<in> set es \<Longrightarrow> P s \<Longrightarrow> P (tick t s)" "\<And>f s. Meanwhile f \<in> set es \<Longrightarrow> P s \<Longrightarrow> P (f s)"
  shows "P (fst (ticker_loop tick es s))"
  using assms by (induction es arbitrary: s) (auto split: loop_event.split)

end
