(* ===== verification/GoNet.thy ===== *)
theory GoNet
  imports GoStd
begin

text \<open>
  Parsing of addresses in Go's \<open>net\<close> and \<open>net/netip\<close>: \<open>net.ParseIP\<close> (dotted decimal, and the
  hexadecimal groups of IPv6 with an ellipsis or a trailing dotted quad), \<open>net.SplitHostPort\<close> and
  \<open>net.JoinHostPort\<close>, with their round trips: an address that was printed parses to itself, so
  printed addresses can serve as map keys.
\<close>

section \<open>Dotted decimal\<close>

text \<open>
  The loop of \<open>parseIPv4Fields\<close>: the value and the number of digits of the field in progress, the
  finished fields, and whether the previous byte was a dot (or there was none).
\<close>

fun v4_loop :: "string \<Rightarrow> nat \<Rightarrow> nat \<Rightarrow> byte list \<Rightarrow> bool \<Rightarrow> byte list option" where
  "v4_loop [] v len fields dot =
     (if length fields < 3 then None else Some (fields @ [of_nat v]))"
| "v4_loop (c # cs) v len fields dot =
     (if is_digit c then
        if len = 1 \<and> v = 0 then None
        else let v' = v * 10 + digit_val c in
             if 255 < v' then None else v4_loop cs v' (len + 1) fields False
      else if c = CHR ''.'' then
        if dot \<or> cs = [] then None
        else if length fields = 3 then None
        else v4_loop cs 0 0 (fields @ [of_nat v]) True
      else None)"

definition v4_fields :: "string \<Rightarrow> byte list option" where
  "v4_fields s = v4_loop s 0 0 [] True"

lemma nat_dec_small:
  "n < 10 \<Longrightarrow> nat_dec n = [digit_char n]"
  "10 \<le> n \<Longrightarrow> n < 100 \<Longrightarrow> nat_dec n = [digit_char (n div 10), digit_char (n mod 10)]"
  "100 \<le> n \<Longrightarrow> n < 1000 \<Longrightarrow>
     nat_dec n = [digit_char (n div 100), digit_char (n div 10 mod 10), digit_char (n mod 10)]"
proof -
  show "n < 10 \<Longrightarrow> nat_dec n = [digit_char n]"
    by (simp add: nat_dec.simps [of n])
  show "10 \<le> n \<Longrightarrow> n < 100 \<Longrightarrow> nat_dec n = [digit_char (n div 10), digit_char (n mod 10)]"
    by (simp add: nat_dec.simps [of n] nat_dec.simps [of "n div 10"])
  assume n: "100 \<le> n" "n < 1000"
  have "n div 10 div 10 = n div 100"
    by (simp flip: div_mult2_eq)
  moreover have "n div 100 < 10" "\<not> n div 10 < 10"
    using n by auto
  ultimately show "nat_dec n = [digit_char (n div 100), digit_char (n div 10 mod 10), digit_char (n mod 10)]"
    using n by (simp add: nat_dec.simps [of n] nat_dec.simps [of "n div 10"] nat_dec.simps [of "n div 100"])
qed

lemma v4_loop_byte:
  "\<exists>len. v4_loop (byte_dec b @ rest) 0 0 fields True = v4_loop rest (unat b) len fields False"
proof -
  let ?n = "unat b"
  have n: "?n \<le> 255"
    using unsigned_less [of b, where ?'a = nat] by simp
  consider "?n < 10" | "10 \<le> ?n" "?n < 100" | "100 \<le> ?n" by linarith
  then show ?thesis
  proof cases
    case 1
    then show ?thesis by (simp add: byte_dec_def nat_dec_small) blast
  next
    case 2
    then have "?n div 10 < 10" "?n div 10 \<noteq> 0" by auto
    with 2 n show ?thesis by (simp add: byte_dec_def nat_dec_small) blast
  next
    case 3
    have "?n div 100 = ?n div 10 div 10"
      by (simp flip: div_mult2_eq)
    then have "?n div 100 * 10 + ?n div 10 mod 10 = ?n div 10"
      by simp
    moreover have "?n div 100 < 10" "?n div 100 \<noteq> 0" "\<not> 255 < ?n div 10"
      using 3 n by auto
    ultimately
    show ?thesis using 3 n by (simp add: byte_dec_def nat_dec_small Let_def) blast
  qed
qed

lemma v4_fields_dotted [simp]: "v4_fields (dotted [a, b, c, d]) = Some [a, b, c, d]"
proof -
  have d: "dotted [a, b, c, d] =
      byte_dec a @ CHR ''.'' # byte_dec b @ CHR ''.'' # byte_dec c @ CHR ''.'' # byte_dec d @ []"
    by (simp add: dotted_def)
  have ne: "byte_dec x \<noteq> []" for x
    by (simp add: byte_dec_def)
  obtain l1 l2 l3 l4 where
    "v4_loop (dotted [a, b, c, d]) 0 0 [] True = v4_loop (CHR ''.'' # byte_dec b @ CHR ''.'' # byte_dec c @ CHR ''.'' # byte_dec d @ []) (unat a) l1 [] False"
    "v4_loop (byte_dec b @ CHR ''.'' # byte_dec c @ CHR ''.'' # byte_dec d @ []) 0 0 [a] True =
       v4_loop (CHR ''.'' # byte_dec c @ CHR ''.'' # byte_dec d @ []) (unat b) l2 [a] False"
    "v4_loop (byte_dec c @ CHR ''.'' # byte_dec d @ []) 0 0 [a, b] True =
       v4_loop (CHR ''.'' # byte_dec d @ []) (unat c) l3 [a, b] False"
    "v4_loop (byte_dec d @ []) 0 0 [a, b, c] True = v4_loop [] (unat d) l4 [a, b, c] False"
    unfolding d by (metis v4_loop_byte)
  then show ?thesis
    by (simp add: v4_fields_def ne)
qed

section \<open>IPv6\<close>

definition hex_val :: "char \<Rightarrow> nat option" where
  "hex_val c = (let n = of_char c in
     if 48 \<le> n \<and> n \<le> 57 then Some (n - 48)
     else if 97 \<le> n \<and> n \<le> 102 then Some (n - 87)
     else if 65 \<le> n \<and> n \<le> 70 then Some (n - 55) else None)"

text \<open>One group of at most four hexadecimal digits: its value, its length and what follows.\<close>

fun hex_group :: "string \<Rightarrow> nat \<Rightarrow> nat \<Rightarrow> (nat \<times> nat \<times> string) option" where
  "hex_group [] acc off = Some (acc, off, [])"
| "hex_group (c # cs) acc off = (case hex_val c of
       None \<Rightarrow> Some (acc, off, c # cs)
     | Some h \<Rightarrow> if 3 < off then None
         else if 65535 < acc * 16 + h then None else hex_group cs (acc * 16 + h) (off + 1))"

text \<open>
  The loop of \<open>parseIPv6\<close> over the groups. Its guard is \<open>i < 16\<close> and a round stores two bytes, so it
  runs at most eight times; \<open>n\<close> counts the rounds left.
\<close>

fun v6_loop :: "nat \<Rightarrow> byte list \<Rightarrow> nat option \<Rightarrow> string \<Rightarrow> (byte list \<times> nat option \<times> string) option" where
  "v6_loop 0 ip ell s = Some (ip, ell, s)"
| "v6_loop (Suc n) ip ell s = (case hex_group s 0 0 of None \<Rightarrow> None
     | Some (acc, off, s') \<Rightarrow>
         if off = 0 then None
         else if s' \<noteq> [] \<and> hd s' = CHR ''.'' then
           if ell = None \<and> length ip \<noteq> 12 then None
           else if 16 < length ip + 4 then None
           else (case v4_fields s of None \<Rightarrow> None | Some v \<Rightarrow> Some (ip @ v, ell, []))
         else let ip' = ip @ [hi8 (of_nat acc), lo8 (of_nat acc)] in
           (case s' of [] \<Rightarrow> Some (ip', ell, [])
            | c # t \<Rightarrow> if c \<noteq> CHR '':'' then None
                else (case t of [] \<Rightarrow> None
                  | c2 # u \<Rightarrow> if c2 = CHR '':'' then
                        if ell \<noteq> None then None
                        else if u = [] then Some (ip', Some (length ip'), [])
                        else v6_loop n ip' (Some (length ip')) u
                      else v6_loop n ip' ell t)))"

definition v6_parse :: "string \<Rightarrow> byte list option" where
  "v6_parse s = (if s = ''::'' then Some (replicate 16 0)
     else let lead = (take 2 s = ''::'') in
       case v6_loop 8 [] (if lead then Some 0 else None) (if lead then drop 2 s else s) of
         None \<Rightarrow> None
       | Some (ip, ell, rest) \<Rightarrow>
           if rest \<noteq> [] then None
           else if length ip < 16 then
             (case ell of None \<Rightarrow> None
              | Some e \<Rightarrow> Some (take e ip @ replicate (16 - length ip) 0 @ drop e ip))
           else if ell \<noteq> None then None else Some ip)"

text \<open>
  \<open>net.ParseIP\<close>: the first dot, colon or percent sign decides the syntax; an address with a zone
  (a percent sign) is not accepted. The result has the 16-byte form.
\<close>

definition ParseIP :: "string \<Rightarrow> IP option" where
  "ParseIP s = (case find (\<lambda>c. c \<in> set ''.:%'') s of
       None \<Rightarrow> None
     | Some c \<Rightarrow> if c = CHR ''.'' then map_option (\<lambda>v. v4_prefix @ v) (v4_fields s)
         else if c = CHR '':'' \<and> CHR ''%'' \<notin> set s then v6_parse s else None)"

lemma find_append: "find P (xs @ ys) = (case find P xs of None \<Rightarrow> find P ys | Some x \<Rightarrow> Some x)"
  by (induction xs) auto

lemma find_byte_dec [simp]: "find (\<lambda>c. c = CHR ''.'' \<or> c = CHR '':'' \<or> c = CHR ''%'') (byte_dec b) = None"
  using digit_not_mem [of "CHR ''.''"] digit_not_mem [of "CHR '':''"] digit_not_mem [of "CHR ''%''"]
  by (auto simp: find_None_iff byte_dec_def)

lemma ParseIP_dotted [simp]: "ParseIP (dotted [a, b, c, d]) = Some (IPv4 a b c d)"
proof -
  have "find (\<lambda>c. c \<in> set ''.:%'') (dotted [a, b, c, d]) = Some CHR ''.''"
    by (simp add: dotted_def find_append)
  then show ?thesis by (simp add: ParseIP_def IPv4_def)
qed

lemma dotted_inject [simp]:
  "dotted [a, b, c, d] = dotted [a', b', c', d'] \<longleftrightarrow> a = a' \<and> b = b' \<and> c = c' \<and> d = d'"
  by (metis ParseIP_dotted IPv4_inject option.inject)

lemma length_v4_loop: "v4_loop s v len fields dot = Some r \<Longrightarrow> length fields \<le> 3 \<Longrightarrow> length r = 4"
  by (induction s v len fields dot rule: v4_loop.induct) (auto simp: Let_def split: if_splits)

lemma length_ParseIP_v4: "v4_fields s = Some v \<Longrightarrow> length v = 4"
  unfolding v4_fields_def by (drule length_v4_loop) auto

section \<open>Host and port\<close>

fun index_of :: "char \<Rightarrow> string \<Rightarrow> nat option" where
  "index_of c [] = None"
| "index_of c (x # xs) = (if x = c then Some 0 else map_option Suc (index_of c xs))"

definition last_index_of :: "char \<Rightarrow> string \<Rightarrow> nat option" where
  "last_index_of c s = map_option (\<lambda>i. length s - 1 - i) (index_of c (rev s))"

text \<open>\<open>net.SplitHostPort\<close>; \<open>None\<close> stands for its errors.\<close>

definition SplitHostPort :: "string \<Rightarrow> (string \<times> string) option" where
  "SplitHostPort s = (case last_index_of CHR '':'' s of None \<Rightarrow> None
     | Some i \<Rightarrow>
         (let rest = (\<lambda>host j k.
            if CHR ''['' \<in> set (drop j s) \<or> CHR '']'' \<in> set (drop k s) then None
            else Some (host, drop (i + 1) s)) in
          if hd s = CHR ''['' then
            (case index_of CHR '']'' s of None \<Rightarrow> None
             | Some e \<Rightarrow> if e + 1 = i then rest (take (e - 1) (drop 1 s)) 1 (e + 1) else None)
          else if CHR '':'' \<in> set (take i s) then None
          else rest (take i s) 0 0))"

definition JoinHostPort :: "string \<Rightarrow> string \<Rightarrow> string" where
  "JoinHostPort host port =
     (if CHR '':'' \<in> set host then CHR ''['' # host @ '']:'' @ port else host @ CHR '':'' # port)"

lemma index_of_append: "c \<notin> set xs \<Longrightarrow> index_of c (xs @ c # ys) = Some (length xs)"
  by (induction xs) auto

lemma index_of_eq_None: "index_of c xs = None \<longleftrightarrow> c \<notin> set xs"
  by (induction xs) auto

lemma last_index_of_append [simp]:
  assumes "c \<notin> set ys"
  shows "last_index_of c (xs @ c # ys) = Some (length xs)"
proof -
  have "rev (xs @ c # ys) = rev ys @ c # rev xs" by simp
  with assms show ?thesis
    by (simp add: last_index_of_def index_of_append del: rev_append rev.simps)
qed

definition host_like :: "string \<Rightarrow> bool" where
  "host_like h \<longleftrightarrow> CHR ''['' \<notin> set h \<and> CHR '']'' \<notin> set h"

definition port_like :: "string \<Rightarrow> bool" where
  "port_like p \<longleftrightarrow> host_like p \<and> CHR '':'' \<notin> set p"

lemma Split_plain:
  assumes "host_like h" "CHR '':'' \<notin> set h" "port_like p"
  shows "SplitHostPort (h @ CHR '':'' # p) = Some (h, p)"
proof -
  have "hd (h @ CHR '':'' # p) \<noteq> CHR ''[''"
    using assms by (cases h) (auto simp: host_like_def)
  with assms show ?thesis
    by (simp add: SplitHostPort_def host_like_def port_like_def Let_def)
qed

lemma Split_bracketed:
  assumes "host_like h" "port_like p"
  shows "SplitHostPort (CHR ''['' # h @ '']:'' @ p) = Some (h, p)"
proof -
  have "last_index_of CHR '':'' ((CHR ''['' # h @ '']'') @ CHR '':'' # p) = Some (length h + 2)"
    using assms by (subst last_index_of_append) (simp_all add: port_like_def)
  moreover have "index_of CHR '']'' ((CHR ''['' # h) @ CHR '']'' # CHR '':'' # p) = Some (length h + 1)"
    using assms by (subst index_of_append) (simp_all add: host_like_def)
  ultimately show ?thesis
    using assms by (simp add: SplitHostPort_def host_like_def port_like_def Let_def)
qed

lemma Split_Join:
  assumes "host_like h" "port_like p"
  shows "SplitHostPort (JoinHostPort h p) = Some (h, p)"
  using assms Split_bracketed [OF assms] by (simp add: JoinHostPort_def Split_plain)

text \<open>A host with a colon that is not in brackets has too many colons.\<close>

lemma Split_too_many_colons:
  assumes "CHR '':'' \<in> set h" "hd h \<noteq> CHR ''[''" "CHR '':'' \<notin> set p"
  shows "SplitHostPort (h @ CHR '':'' # p) = None"
proof -
  have "hd (h @ CHR '':'' # p) \<noteq> CHR ''[''" "h \<noteq> []"
    using assms by (cases h; auto)+
  with assms show ?thesis
    by (simp add: SplitHostPort_def Let_def)
qed

lemma port_like_nat_dec [simp]: "port_like (nat_dec n)"
  using digit_not_mem [of _ n] by (simp add: port_like_def host_like_def)

section \<open>Addresses that print alike\<close>

lemma dotted_chars: "x \<in> set (dotted [a, b, c, d]) \<Longrightarrow> is_digit x \<or> x = CHR ''.''"
  using digit_not_mem [of x] by (auto simp: dotted_def byte_dec_def)

lemma colons_mem: "2 \<le> length xs \<Longrightarrow> CHR '':'' \<in> set (colons xs)"
  by (cases xs) (auto simp: Suc_le_eq)

lemma v6_string_colon: "CHR '':'' \<in> set (v6_string ip)"
  by (auto simp: v6_string_def Let_def v6_groups_def intro: colons_mem split: option.split)

lemma To4_of_dotted:
  assumes "IP_String ip = dotted [a, b, c, d]"
  shows "To4 ip = Some [a, b, c, d]"
proof -
  have no: "x \<notin> set (IP_String ip)" if "\<not> is_digit x" "x \<noteq> CHR ''.''" for x
    using dotted_chars [of x a b c d] that assms by auto
  have marks: "\<not> is_digit CHR ''<''" "\<not> is_digit CHR ''?''" "\<not> is_digit CHR '':''"
    by (simp_all add: is_digit_def)
  show ?thesis
  proof (cases "To4 ip")
    case None
    then show ?thesis
      using no [OF marks(1)] no [OF marks(2)] no [OF marks(3)] v6_string_colon [of ip]
      by (simp add: IP_String_def split: if_splits)
  next
    case (Some v)
    then obtain a' b' c' d' where v: "v = [a', b', c', d']"
      using length_To4 [OF Some] by (auto simp: length_Suc_conv numeral_eq_Suc)
    have "IP_String ip = dotted v"
      using Some by (auto simp: IP_String_def To4_def split: if_splits)
    with assms Some v show ?thesis by simp
  qed
qed

end
