(* ===== verification/Interfaces.thy ===== *)
theory Interfaces
  imports Prelude
begin

text \<open>
  The contracts between components, as locales: the operations a client calls, the laws it relies
  on, and what follows for the client from the laws alone. Each is interpreted on the model of the
  component that provides it.
\<close>

section \<open>Leasing ports to flows\<close>

text \<open>
  The packet path and the TProxy share the connection tracker: one reserves a port for a flow,
  the other looks the flow up under the port and releases it. \<open>flow\<close> is the identity of a flow
  within the larger description \<open>'f\<close> that is stored.
\<close>

datatype ('f, 'p) lease_op = Reserve 'f | Release 'p

primrec lease_run :: "('f \<Rightarrow> 's \<Rightarrow> 's \<times> 'p option) \<Rightarrow> ('p \<Rightarrow> 's \<Rightarrow> 's) \<Rightarrow> ('f, 'p) lease_op list \<Rightarrow> 's \<Rightarrow> 's" where
  "lease_run reserve release [] s = s"
| "lease_run reserve release (x # xs) s = lease_run reserve release xs
     (case x of Reserve f \<Rightarrow> fst (reserve f s) | Release p \<Rightarrow> release p s)"

locale port_lease =
  fixes inv :: "'s \<Rightarrow> bool"
    and reserve :: "'f \<Rightarrow> 's \<Rightarrow> 's \<times> 'p option"
    and lookup :: "'s \<Rightarrow> 'p \<Rightarrow> 'f option"
    and release :: "'p \<Rightarrow> 's \<Rightarrow> 's"
    and flow :: "'f \<Rightarrow> 'k"
  assumes inv_reserve: "inv s \<Longrightarrow> reserve f s = (s', r) \<Longrightarrow> inv s'"
    and inv_release: "inv s \<Longrightarrow> inv (release p s)"
    and reserve_known: "inv s \<Longrightarrow> lookup s p = Some g \<Longrightarrow> flow g = flow f \<Longrightarrow> reserve f s = (s, Some p)"
    and reserve_new: "inv s \<Longrightarrow> \<forall>q g. lookup s q = Some g \<longrightarrow> flow g \<noteq> flow f \<Longrightarrow>
      reserve f s = (s', Some p) \<Longrightarrow> lookup s p = None \<and> lookup s' = (lookup s)(p \<mapsto> f)"
    and reserve_none: "inv s \<Longrightarrow> reserve f s = (s', None) \<Longrightarrow> lookup s' = lookup s"
    and lookup_release: "inv s \<Longrightarrow> lookup (release p s) = (lookup s)(p := None)"
    and one_port: "inv s \<Longrightarrow> lookup s p = Some f \<Longrightarrow> lookup s q = Some g \<Longrightarrow> flow f = flow g \<Longrightarrow> p = q"
begin

lemma reserve_cases:
  assumes "inv s" "reserve f s = (s', Some p)"
  obtains (known) g where "lookup s p = Some g" "flow g = flow f" "s' = s"
    | (new) "lookup s p = None" "lookup s' = (lookup s)(p \<mapsto> f)"
proof (cases "\<exists>q g. lookup s q = Some g \<and> flow g = flow f")
  case True
  then obtain q g where g: "lookup s q = Some g" "flow g = flow f" by blast
  have "reserve f s = (s, Some q)"
    using assms(1) g by (rule reserve_known)
  with assms(2) have "q = p" "s' = s" by simp_all
  with g show ?thesis by (auto intro: known)
next
  case False
  then have "lookup s p = None \<and> lookup s' = (lookup s)(p \<mapsto> f)"
    using reserve_new [OF assms(1) _ assms(2)] by blast
  then show ?thesis by (intro new) auto
qed

lemma reserve_leases:
  "inv s \<Longrightarrow> reserve f s = (s', Some p) \<Longrightarrow> \<exists>g. lookup s' p = Some g \<and> flow g = flow f"
  by (erule reserve_cases) auto

lemma reserve_frame:
  assumes "inv s" "reserve f s = (s', r)" "lookup s q = Some g"
  shows "lookup s' q = Some g"
proof (cases r)
  case None
  with assms show ?thesis by (simp add: reserve_none)
next
  case (Some p)
  with assms(2) have "reserve f s = (s', Some p)" by simp
  with assms(1) show ?thesis
    by (rule reserve_cases) (use assms(3) in auto)
qed

text \<open>All packets of one flow get the same port, and nothing changes after the first.\<close>

lemma reserve_again:
  assumes "inv s" "reserve f s = (s', Some p)" "flow g = flow f"
  shows "reserve g s' = (s', Some p)"
proof -
  from reserve_leases [OF assms(1,2)] obtain h where "lookup s' p = Some h" "flow h = flow f" by blast
  with assms show ?thesis
    by (metis inv_reserve reserve_known)
qed

lemma distinct_flows_distinct_ports:
  assumes "inv s" "reserve f s = (s1, Some p)" "reserve g s1 = (s2, Some q)" "flow f \<noteq> flow g"
  shows "p \<noteq> q"
proof
  assume "p = q"
  have i1: "inv s1" using assms inv_reserve by blast
  obtain a where a: "lookup s1 p = Some a" "flow a = flow f"
    using reserve_leases [OF assms(1,2)] by blast
  obtain b where b: "lookup s2 q = Some b" "flow b = flow g"
    using reserve_leases [OF i1 assms(3)] by blast
  have "lookup s2 p = Some a"
    using reserve_frame [OF i1 assms(3) a(1)] .
  with a b \<open>p = q\<close> assms(4) show False by simp
qed

lemma inv_run: "inv s \<Longrightarrow> inv (lease_run reserve release ops s)"
proof (induction ops arbitrary: s)
  case (Cons x ops)
  have "inv (fst (reserve f s))" for f
    using Cons.prems by (rule inv_reserve) (rule prod.collapse [symmetric])
  with Cons show ?case
    by (cases x) (auto simp: inv_release)
qed simp

text \<open>A lease stands until it is released, whatever happens to other flows.\<close>

lemma lease_stands:
  "inv s \<Longrightarrow> lookup s p = Some f \<Longrightarrow> Release p \<notin> set ops \<Longrightarrow>
   lookup (lease_run reserve release ops s) p = Some f"
proof (induction ops arbitrary: s)
  case (Cons x ops)
  then show ?case
  proof (cases x)
    case (Reserve g)
    have i: "inv (fst (reserve g s))"
      using Cons.prems(1) inv_reserve [of s g "fst (reserve g s)" "snd (reserve g s)"] by simp
    have "lookup (fst (reserve g s)) p = Some f"
      using reserve_frame [of s g "fst (reserve g s)" "snd (reserve g s)"] Cons.prems by simp
    with i Cons Reserve show ?thesis by simp
  next
    case (Release q)
    with Cons show ?thesis by (auto simp: inv_release lookup_release)
  qed
qed simp

end

section \<open>Sharing leases with a collector\<close>

text \<open>
  Leases that nobody uses are collected. A client that has declared that it uses a lease relies on
  the collector to leave it alone until it gives the lease back itself.
\<close>

datatype ('f, 'p, 'c) share_op = Take 'f | Use 'p | Give 'p | Collect 'c

primrec share_step :: "('f \<Rightarrow> 's \<Rightarrow> 's \<times> 'p option) \<Rightarrow> ('p \<Rightarrow> 's \<Rightarrow> 's) \<Rightarrow> ('p \<Rightarrow> 's \<Rightarrow> 's) \<Rightarrow> ('c \<Rightarrow> 's \<Rightarrow> 's) \<Rightarrow>
    ('f, 'p, 'c) share_op \<Rightarrow> 's \<Rightarrow> 's" where
  "share_step reserve release use collect (Take f) s = fst (reserve f s)"
| "share_step reserve release use collect (Use p) s = use p s"
| "share_step reserve release use collect (Give p) s = release p s"
| "share_step reserve release use collect (Collect c) s = collect c s"

locale shared_lease = port_lease inv reserve lookup release flow
  for inv :: "'s \<Rightarrow> bool"
    and reserve :: "'f \<Rightarrow> 's \<Rightarrow> 's \<times> 'p option"
    and lookup :: "'s \<Rightarrow> 'p \<Rightarrow> 'f option"
    and release :: "'p \<Rightarrow> 's \<Rightarrow> 's"
    and flow :: "'f \<Rightarrow> 'k" +
  fixes use :: "'p \<Rightarrow> 's \<Rightarrow> 's"
    and used :: "'s \<Rightarrow> 'p \<Rightarrow> bool"
    and collect :: "'c \<Rightarrow> 's \<Rightarrow> 's"
  assumes inv_use: "inv s \<Longrightarrow> inv (use p s)"
    and inv_collect: "inv s \<Longrightarrow> inv (collect c s)"
    and lookup_use: "lookup (use p s) = lookup s"
    and use_used: "lookup s p \<noteq> None \<Longrightarrow> used (use p s) p"
    and used_use: "used s q \<Longrightarrow> used (use p s) q"
    and used_reserve: "inv s \<Longrightarrow> reserve f s = (s', r) \<Longrightarrow> used s q \<Longrightarrow> used s' q"
    and used_release: "used s q \<Longrightarrow> q \<noteq> p \<Longrightarrow> used (release p s) q"
    and used_collect: "used s q \<Longrightarrow> used (collect c s) q"
    and collect_used: "inv s \<Longrightarrow> used s p \<Longrightarrow> lookup (collect c s) p = lookup s p"
    and lookup_collect: "lookup (collect c s) p = Some f \<Longrightarrow> lookup s p = Some f"
begin

lemma inv_share: "inv s \<Longrightarrow> inv (share_step reserve release use collect x s)"
proof (cases x)
  case (Take f)
  assume "inv s"
  then have "inv (fst (reserve f s))" by (rule inv_reserve) (rule prod.collapse [symmetric])
  then show ?thesis by (simp add: Take)
qed (simp_all add: inv_use inv_release inv_collect)

lemma used_lease_step:
  assumes "inv s" "lookup s p = Some f" "used s p" "x \<noteq> Give p"
  shows "lookup (share_step reserve release use collect x s) p = Some f \<and> used (share_step reserve release use collect x s) p"
proof (cases x)
  case (Take g)
  have r: "reserve g s = (fst (reserve g s), snd (reserve g s))" by simp
  show ?thesis
    using reserve_frame [OF assms(1) r assms(2)] used_reserve [OF assms(1) r assms(3)] by (simp add: Take)
next
  case (Give q)
  with assms show ?thesis by (auto simp: lookup_release used_release)
qed (use assms in \<open>simp_all add: lookup_use used_use used_collect collect_used\<close>)

text \<open>Every lease was taken: what holds for all that is asked for holds for all that is leased.\<close>

lemma share_step_origin:
  assumes "inv s" "lookup (share_step reserve release use collect x s) p = Some f"
  shows "lookup s p = Some f \<or> x = Take f"
proof (cases x)
  case (Take g)
  obtain s' r where r: "reserve g s = (s', r)" by fastforce
  then have l: "lookup s' p = Some f" using assms(2) by (simp add: Take)
  show ?thesis
  proof (cases r)
    case None
    with r l assms(1) show ?thesis by (simp add: reserve_none)
  next
    case (Some q)
    from assms(1) r [unfolded Some] show ?thesis
      by (rule reserve_cases) (use l Take in \<open>auto split: if_splits\<close>)
  qed
qed (use assms in \<open>auto simp: lookup_release lookup_use dest: lookup_collect split: if_splits\<close>)

lemma share_all:
  assumes "inv s" "\<And>p f. lookup s p = Some f \<Longrightarrow> P f" "\<And>f. Take f \<in> set ops \<Longrightarrow> P f"
    and "lookup (fold (share_step reserve release use collect) ops s) p = Some f"
  shows "P f"
  using assms
proof (induction ops arbitrary: s)
  case (Cons x ops)
  have "P g" if "lookup (share_step reserve release use collect x s) q = Some g" for q g
    using share_step_origin [OF Cons.prems(1) that] Cons.prems(2,3) by auto
  moreover have "P g" if "Take g \<in> set ops" for g
    using Cons.prems(3) that by simp
  ultimately show ?case
    using Cons.IH [OF inv_share [OF Cons.prems(1)]] Cons.prems(4) by (metis fold_simps(2))
qed simp

text \<open>A lease in use stands until it is given back, whatever is taken, used, given back or collected meanwhile.\<close>

lemma used_lease_stands:
  "inv s \<Longrightarrow> lookup s p = Some f \<Longrightarrow> used s p \<Longrightarrow> Give p \<notin> set ops \<Longrightarrow>
   lookup (fold (share_step reserve release use collect) ops s) p = Some f \<and>
   used (fold (share_step reserve release use collect) ops s) p \<and>
   inv (fold (share_step reserve release use collect) ops s)"
proof (induction ops arbitrary: s)
  case (Cons x ops)
  from Cons.prems have "x \<noteq> Give p" by auto
  note step = used_lease_step [OF Cons.prems(1-3) this]
  show ?case
    using Cons.IH [OF inv_share [OF Cons.prems(1)] step [THEN conjunct1] step [THEN conjunct2]] Cons.prems(4) by simp
qed simp

end

section \<open>Refinement of an abstract machine\<close>

text \<open>
  A machine with start states, steps and an invariant, seen through an abstraction: every step is some
  steps of the abstract machine, so what holds of all that the abstract machine reaches holds of what is seen here.
\<close>

locale refinement =
  fixes start :: "'s \<Rightarrow> bool"
    and step :: "'s \<Rightarrow> 's \<Rightarrow> bool"
    and inv :: "'s \<Rightarrow> bool"
    and view :: "'s \<Rightarrow> 'a"
    and astart :: "'a \<Rightarrow> bool"
    and astep :: "'a \<Rightarrow> 'a \<Rightarrow> bool"
  assumes start_inv: "start s \<Longrightarrow> inv s"
    and step_inv: "inv s \<Longrightarrow> step s s' \<Longrightarrow> inv s'"
    and view_start: "start s \<Longrightarrow> astart (view s)"
    and view_step: "inv s \<Longrightarrow> step s s' \<Longrightarrow> astep\<^sup>*\<^sup>* (view s) (view s')"
begin

lemma inv_steps:
  assumes "step\<^sup>*\<^sup>* s t" "inv s"
  shows "inv t"
  using assms by (induction rule: rtranclp_induct) (blast intro: step_inv)+

lemma view_steps:
  assumes "step\<^sup>*\<^sup>* s t" "inv s"
  shows "astep\<^sup>*\<^sup>* (view s) (view t)"
  using assms(1)
proof (induction rule: rtranclp_induct)
  case (step t u)
  have "astep\<^sup>*\<^sup>* (view t) (view u)"
    using inv_steps [OF step.hyps(1) assms(2)] step.hyps(2) by (rule view_step)
  with step.IH show ?case by (rule rtranclp_trans)
qed simp

lemma simulated: "start s \<Longrightarrow> step\<^sup>*\<^sup>* s t \<Longrightarrow> astart (view s) \<and> astep\<^sup>*\<^sup>* (view s) (view t)"
  by (blast intro: view_start view_steps start_inv)

lemma transferred:
  assumes "\<And>a b. astart a \<Longrightarrow> astep\<^sup>*\<^sup>* a b \<Longrightarrow> P b"
  shows "start s \<Longrightarrow> step\<^sup>*\<^sup>* s t \<Longrightarrow> P (view t)"
  using simulated assms by blast

end

section \<open>A cache of process names\<close>

text \<open>
  What the table refreshes rely on when they name the owner of a row: \<open>get\<close> answers from the cache
  while an answer is younger than \<open>ttl\<close>, and otherwise asks \<open>resolve\<close> once and remembers the answer with
  the time it was asked at. Pid 0 has no name. \<open>view\<close> shows the cached name and time of a pid.
\<close>

locale name_cache =
  fixes view :: "'s \<Rightarrow> u32 \<Rightarrow> (string \<times> time) option"
    and get :: "u32 \<Rightarrow> time \<Rightarrow> (u32 \<Rightarrow> string option) \<Rightarrow> 's \<Rightarrow> (string \<times> 's) option"
    and ttl :: int
  assumes ttl_pos: "0 < ttl"
    and get_zero: "get 0 now resolve s = Some ([], s)"
    and get_hit: "pid \<noteq> 0 \<Longrightarrow> view s pid = Some (n, t) \<Longrightarrow> time_sub now t < ttl \<Longrightarrow> get pid now resolve s = Some (n, s)"
    and get_miss: "pid \<noteq> 0 \<Longrightarrow> (\<And>n t. view s pid = Some (n, t) \<Longrightarrow> ttl \<le> time_sub now t) \<Longrightarrow>
      resolve pid = Some n \<Longrightarrow> \<exists>s'. get pid now resolve s = Some (n, s') \<and> view s' = (view s)(pid \<mapsto> (n, now))"
    and get_diverges: "pid \<noteq> 0 \<Longrightarrow> (\<And>n t. view s pid = Some (n, t) \<Longrightarrow> ttl \<le> time_sub now t) \<Longrightarrow>
      resolve pid = None \<Longrightarrow> get pid now resolve s = None"
begin

definition fresh :: "time \<Rightarrow> u32 \<Rightarrow> string \<Rightarrow> 's \<Rightarrow> bool" where
  "fresh now pid n s \<longleftrightarrow> (if pid = 0 then n = [] else \<exists>t. view s pid = Some (n, t) \<and> time_sub now t < ttl)"

lemma fresh_get: "fresh now pid n s \<Longrightarrow> get pid now resolve s = Some (n, s)"
  using get_zero get_hit by (auto simp: fresh_def split: if_splits)

lemma get_cases:
  obtains (known) n where "fresh now pid n s" "get pid now resolve s = Some (n, s)"
  | (asked) n s' where "pid \<noteq> 0" "\<And>n t. view s pid = Some (n, t) \<Longrightarrow> ttl \<le> time_sub now t"
      "resolve pid = Some n" "get pid now resolve s = Some (n, s')" "view s' = (view s)(pid \<mapsto> (n, now))"
  | (stuck) "resolve pid = None" "get pid now resolve s = None"
proof (cases "\<exists>n. fresh now pid n s")
  case True
  then show ?thesis
    using known fresh_get by blast
next
  case False
  have nz: "pid \<noteq> 0"
    using False by (auto simp: fresh_def)
  then have old: "\<And>n t. view s pid = Some (n, t) \<Longrightarrow> ttl \<le> time_sub now t"
    using False by (simp add: fresh_def linorder_not_le)
  note old = nz old
  show ?thesis
  proof (cases "resolve pid")
    case None
    show ?thesis
      using get_diverges [where resolve = resolve, OF nz _ None] old by (intro stuck [OF None]) blast
  next
    case (Some n)
    then obtain s' where "get pid now resolve s = Some (n, s')" "view s' = (view s)(pid \<mapsto> (n, now))"
      using get_miss [where resolve = resolve, OF nz _ Some] old by blast
    then show ?thesis using asked nz old Some by blast
  qed
qed

text \<open>What \<open>get\<close> returns is fresh in the state it leaves, and stays fresh under any other \<open>get\<close>.\<close>

lemma get_fresh: "get pid now resolve s = Some (n, s') \<Longrightarrow> fresh now pid n s'"
  by (rule get_cases [of now pid s resolve]) (use ttl_pos in \<open>auto simp: fresh_def\<close>)

lemma fresh_unique: "fresh now pid n s \<Longrightarrow> fresh now pid m s \<Longrightarrow> n = m"
  by (auto simp: fresh_def split: if_splits)

lemma get_keeps_fresh:
  assumes "get pid' now resolve s = Some (m, s')" "fresh now pid n s"
  shows "fresh now pid n s'"
proof (cases "pid' = pid")
  case True
  then show ?thesis
    using fresh_get [OF assms(2), of resolve] assms by simp
next
  case False
  then show ?thesis
    using assms by (cases rule: get_cases [of now pid' s resolve]) (auto simp: fresh_def)
qed

lemma get_again: "get pid now resolve s = Some (n, s') \<Longrightarrow> get pid now resolve' s' = Some (n, s')"
  by (intro fresh_get get_fresh)

lemma get_other: "get pid now resolve s = Some (n, s') \<Longrightarrow> pid' \<noteq> pid \<Longrightarrow> view s' pid' = view s pid'"
  by (rule get_cases [of now pid s resolve]) auto

lemma get_runs: "resolve pid \<noteq> None \<Longrightarrow> \<exists>n s'. get pid now resolve s = Some (n, s')"
  by (rule get_cases [of now pid s resolve]) auto

text \<open>The age of an answer: it was resolved by this call, or cached less than \<open>ttl\<close> ago.\<close>

lemma get_source:
  assumes "get pid now resolve s = Some (n, s')" "pid \<noteq> 0"
  shows "resolve pid = Some n \<or> (\<exists>t. view s pid = Some (n, t) \<and> time_sub now t < ttl)"
  using assms by (cases rule: get_cases [of now pid s resolve]) (auto simp: fresh_def)

text \<open>A refresh names the rows of a table one after the other.\<close>

primrec name_rows :: "time \<Rightarrow> (u32 \<Rightarrow> string option) \<Rightarrow> ('k \<times> u32) list \<Rightarrow> 's \<Rightarrow> (('k \<times> u32 \<times> string) list \<times> 's) option" where
  "name_rows now resolve [] s = Some ([], s)"
| "name_rows now resolve (row # rows) s =
     (case get (snd row) now resolve s of None \<Rightarrow> None
      | Some (n, s) \<Rightarrow>
         (case name_rows now resolve rows s of None \<Rightarrow> None
          | Some (xs, s) \<Rightarrow> Some ((fst row, snd row, n) # xs, s)))"

lemma name_rows_keeps_fresh:
  "name_rows now resolve rows s = Some (xs, s') \<Longrightarrow> fresh now pid n s \<Longrightarrow> fresh now pid n s'"
  by (induction rows arbitrary: s xs) (auto split: option.splits prod.splits dest: get_keeps_fresh)

lemma name_rows_fresh:
  "name_rows now resolve rows s = Some (xs, s') \<Longrightarrow> (k, pid, n) \<in> set xs \<Longrightarrow> fresh now pid n s'"
proof (induction rows arbitrary: s xs)
  case (Cons row rows)
  obtain m t ys where g: "get (snd row) now resolve s = Some (m, t)"
    and rest: "name_rows now resolve rows t = Some (ys, s')" and xs: "xs = (fst row, snd row, m) # ys"
    using Cons.prems(1) by (auto split: option.splits prod.splits)
  show ?case
    using Cons.prems(2) Cons.IH [OF rest] name_rows_keeps_fresh [OF rest get_fresh [OF g]]
    by (auto simp: xs)
qed simp

lemma name_rows_runs:
  "(\<And>pid. resolve pid \<noteq> None) \<Longrightarrow>
   \<exists>xs s'. name_rows now resolve rows s = Some (xs, s') \<and> map (\<lambda>(k, pid, n). (k, pid)) xs = rows"
proof (induction rows arbitrary: s)
  case (Cons row rows)
  obtain n t where "get (snd row) now resolve s = Some (n, t)"
    using get_runs [of resolve "snd row" now s] Cons.prems by blast
  moreover obtain xs u where "name_rows now resolve rows t = Some (xs, u)" "map (\<lambda>(k, pid, n). (k, pid)) xs = rows"
    using Cons.IH [of t] Cons.prems by blast
  ultimately show ?case by simp
qed simp

end

end
