(* ===== verification/ConnTrack.thy ===== *)
theory ConnTrack
  imports GoNet Interfaces
begin

text \<open>
  \<open>internal/engine/conntrack.go\<close>: the connection tracker. It lends every original TCP flow a mapped
  local port, under which the TProxy later finds where the connection wanted to go, and takes the
  port back when the proxied connection ends or when it was never activated. Each method of the
  code runs under the tracker's mutex and is one function on the tracker's state here.
\<close>

section \<open>State\<close>

record ConnKey =
  ck_SrcIP :: string
  ck_SrcPort :: u16

record OrigFlowKey =
  of_SrcIP :: string
  of_SrcPort :: u16
  of_DstIP :: string
  of_DstPort :: u16

record ConnTarget =
  OrigSrcIP :: IP
  OrigSrcPort :: u16
  OrigDstIP :: IP
  OrigDstPort :: u16
  OrigIfIdx :: u32
  OrigSubIfIdx :: u32
  CreatedAt :: time

text \<open>\<open>ct_closed\<close>: the channel \<open>stopCh\<close> is closed, and the collector returns.\<close>

record ConnTracker =
  ct_entries :: "ConnKey \<rightharpoonup> ConnTarget"
  ct_active :: "ConnKey set"
  ct_orig :: "OrigFlowKey \<rightharpoonup> ConnKey"
  ct_gcInterval :: int
  ct_ttl :: int
  ct_nextPort :: u16
  ct_reservedPort :: u16
  ct_closed :: bool

definition mappedPortMin :: u16 where "mappedPortMin = 32768"
definition mappedPortMax :: u16 where "mappedPortMax = 60999"

text \<open>The mapped side of every entry has the loopback address.\<close>

definition loopback_key :: "u16 \<Rightarrow> ConnKey" where
  "loopback_key port = \<lparr>ck_SrcIP = ''127.0.0.1'', ck_SrcPort = port\<rparr>"

definition orig_key :: "ConnTarget \<Rightarrow> OrigFlowKey" where
  "orig_key t = \<lparr>of_SrcIP = IP_String (OrigSrcIP t), of_SrcPort = OrigSrcPort t,
     of_DstIP = IP_String (OrigDstIP t), of_DstPort = OrigDstPort t\<rparr>"

section \<open>Operations\<close>

definition NewConnTracker :: "int \<Rightarrow> int \<Rightarrow> u16 \<Rightarrow> ConnTracker" where
  "NewConnTracker gcInterval ttl reservedPort = \<lparr>
     ct_entries = Map.empty, ct_active = {}, ct_orig = Map.empty,
     ct_gcInterval = (if gcInterval \<le> 0 then 15 else gcInterval),
     ct_ttl = (if ttl \<le> 0 then 30 else ttl),
     ct_nextPort = mappedPortMin, ct_reservedPort = reservedPort, ct_closed = False\<rparr>"

definition bump_port :: "u16 \<Rightarrow> u16" where
  "bump_port p = (let p' = p + 1 in if mappedPortMax < p' then mappedPortMin else p')"

text \<open>Storing a new entry and the index of its original flow.\<close>

definition lease :: "u16 \<Rightarrow> ConnTarget \<Rightarrow> ConnTracker \<Rightarrow> ConnTracker" where
  "lease port target ct = ct\<lparr>
     ct_entries := (ct_entries ct)(loopback_key port \<mapsto> target),
     ct_orig := (ct_orig ct)(orig_key target \<mapsto> loopback_key port)\<rparr>"

text \<open>
  The search loop of \<open>Set\<close>: \<open>n\<close> attempts are left. The port is taken and the cursor moves on before
  the two guards are tested, so the cursor advances on every attempt.
\<close>

primrec alloc_loop :: "nat \<Rightarrow> ConnTarget \<Rightarrow> ConnTracker \<Rightarrow> ConnTracker \<times> u16 option" where
  "alloc_loop 0 target ct = (ct, None)"
| "alloc_loop (Suc n) target ct =
     (let port = ct_nextPort ct;
          ct = ct\<lparr>ct_nextPort := bump_port port\<rparr>
      in if port = ct_reservedPort ct then alloc_loop n target ct
         else if ct_entries ct (loopback_key port) \<noteq> None then alloc_loop n target ct
         else (lease port target ct, Some port))"

definition alloc_attempts :: nat where
  "alloc_attempts = unat mappedPortMax - unat mappedPortMin + 1"

text \<open>\<open>Set\<close>; the result \<open>(port, ok)\<close> of the code is an option.\<close>

definition ct_Set :: "time \<Rightarrow> IP \<Rightarrow> u16 \<Rightarrow> IP \<Rightarrow> u16 \<Rightarrow> u32 \<Rightarrow> u32 \<Rightarrow> ConnTracker \<Rightarrow> ConnTracker \<times> u16 option" where
  "ct_Set now srcIP srcPort dstIP dstPort ifIdx subIfIdx ct =
     (let target = \<lparr>OrigSrcIP = srcIP, OrigSrcPort = srcPort, OrigDstIP = dstIP, OrigDstPort = dstPort,
                    OrigIfIdx = ifIdx, OrigSubIfIdx = subIfIdx, CreatedAt = now\<rparr>;
          k = orig_key target
      in case ct_orig ct k of
           Some mapped \<Rightarrow>
             if ct_entries ct mapped \<noteq> None then (ct, Some (ck_SrcPort mapped))
             else alloc_loop alloc_attempts target (ct\<lparr>ct_orig := (ct_orig ct)(k := None)\<rparr>)
         | None \<Rightarrow> alloc_loop alloc_attempts target ct)"

definition ct_Activate :: "string \<Rightarrow> u16 \<Rightarrow> ConnTracker \<Rightarrow> ConnTracker" where
  "ct_Activate mappedIP mappedPort ct =
     (let key = \<lparr>ck_SrcIP = mappedIP, ck_SrcPort = mappedPort\<rparr>
      in if ct_entries ct key \<noteq> None then ct\<lparr>ct_active := insert key (ct_active ct)\<rparr> else ct)"

definition ct_Get :: "string \<Rightarrow> u16 \<Rightarrow> ConnTracker \<Rightarrow> ConnTarget option" where
  "ct_Get srcIP srcPort ct = ct_entries ct \<lparr>ck_SrcIP = srcIP, ck_SrcPort = srcPort\<rparr>"

definition ct_HasMapped :: "u16 \<Rightarrow> ConnTracker \<Rightarrow> bool" where
  "ct_HasMapped port ct = (if port = 0 then False else ct_entries ct (loopback_key port) \<noteq> None)"

text \<open>Dropping one entry, with the index of its original flow when that points back at it.\<close>

definition drop_entry :: "ConnKey \<Rightarrow> ConnTarget \<Rightarrow> ConnTracker \<Rightarrow> ConnTracker" where
  "drop_entry key entry ct = ct\<lparr>
     ct_orig := (if ct_orig ct (orig_key entry) = Some key
                 then (ct_orig ct)(orig_key entry := None) else ct_orig ct),
     ct_entries := (ct_entries ct)(key := None)\<rparr>"

definition ct_Delete :: "string \<Rightarrow> u16 \<Rightarrow> ConnTracker \<Rightarrow> ConnTracker" where
  "ct_Delete srcIP srcPort ct =
     (let key = \<lparr>ck_SrcIP = srcIP, ck_SrcPort = srcPort\<rparr>;
          ct = ct\<lparr>ct_active := ct_active ct - {key}\<rparr>
      in case ct_entries ct key of None \<Rightarrow> ct | Some entry \<Rightarrow> drop_entry key entry ct)"

definition ct_expired :: "time \<Rightarrow> ConnTracker \<Rightarrow> ConnKey \<Rightarrow> ConnTarget \<Rightarrow> bool" where
  "ct_expired now ct k v \<longleftrightarrow> k \<notin> ct_active ct \<and> seconds (ct_ttl ct) < time_sub now (CreatedAt v)"

text \<open>The body of the collector's loop for one key, and one tick of it along an order of the keys.\<close>

definition gc_visit :: "time \<Rightarrow> ConnKey \<Rightarrow> ConnTracker \<Rightarrow> ConnTracker" where
  "gc_visit now k ct = (case ct_entries ct k of None \<Rightarrow> ct
     | Some v \<Rightarrow> if k \<in> ct_active ct then ct
         else if seconds (ct_ttl ct) < time_sub now (CreatedAt v) then drop_entry k v ct else ct)"

primrec gc_tick :: "time \<Rightarrow> ConnKey list \<Rightarrow> ConnTracker \<Rightarrow> ConnTracker" where
  "gc_tick now [] ct = ct"
| "gc_tick now (k # ks) ct = gc_tick now ks (gc_visit now k ct)"

text \<open>
  The collector's goroutine: a tick comes with its time and the order of the range over the entries.
  \<open>None\<close>: \<open>time.NewTicker\<close> panics, its interval in nanoseconds has wrapped around.
\<close>

definition startGC :: "(time \<times> ConnKey list, ConnTracker) loop_event list \<Rightarrow> ConnTracker \<Rightarrow> (ConnTracker \<times> bool) option" where
  "startGC es ct = (if seconds (ct_gcInterval ct) \<le> 0 then None
     else Some (ticker_loop (\<lambda>(now, ks). gc_tick now ks) es ct))"

definition ct_Close :: "ConnTracker \<Rightarrow> ConnTracker" where
  "ct_Close ct = ct\<lparr>ct_closed := True\<rparr>"

text \<open>\<open>ConnTarget.String\<close>.\<close>

definition ConnTarget_String :: "ConnTarget \<Rightarrow> string" where
  "ConnTarget_String t = IP_String (OrigSrcIP t) @ '':'' @ nat_dec (unat (OrigSrcPort t)) @ '' -> '' @
     IP_String (OrigDstIP t) @ '':'' @ nat_dec (unat (OrigDstPort t))"

section \<open>The cursor\<close>

definition in_pool :: "u16 \<Rightarrow> bool" where
  "in_pool p \<longleftrightarrow> mappedPortMin \<le> p \<and> p \<le> mappedPortMax"

lemma in_pool_nat: "in_pool p \<longleftrightarrow> 32768 \<le> unat p \<and> unat p \<le> 60999"
  by (simp add: in_pool_def mappedPortMin_def mappedPortMax_def word_le_nat_alt)

lemma alloc_attempts_eq: "alloc_attempts = 28232"
  by (simp add: alloc_attempts_def mappedPortMin_def mappedPortMax_def)

lemma unat_bump_port:
  "in_pool p \<Longrightarrow> unat (bump_port p) = (if unat p = 60999 then 32768 else unat p + 1)"
proof -
  assume p: "in_pool p"
  then have p1: "unat (p + 1) = unat p + 1"
    by (simp add: in_pool_nat unat_word_ariths)
  then have "mappedPortMax < p + 1 \<longleftrightarrow> unat p = 60999"
    using p by (auto simp: mappedPortMax_def word_less_nat_alt in_pool_nat)
  with p1 show ?thesis
    by (simp add: bump_port_def Let_def mappedPortMin_def)
qed

lemma in_pool_bump: "in_pool p \<Longrightarrow> in_pool (bump_port p)"
  by (simp add: in_pool_nat unat_bump_port)

lemma unat_bump_iter:
  assumes "in_pool p"
  shows "unat ((bump_port ^^ i) p) = 32768 + (unat p - 32768 + i) mod 28232"
    and "in_pool ((bump_port ^^ i) p)"
proof (induction i)
  case 0
  {
    case 1
    show ?case using assms by (auto simp: in_pool_nat)
  next
    case 2
    show ?case using assms by simp
  }
next
  case (Suc i)
  {
    case 1
    show ?case
      using Suc by (auto simp: unat_bump_port mod_Suc)
  next
    case 2
    show ?case using Suc by (simp add: in_pool_bump)
  }
qed

text \<open>One round over the pool meets every port.\<close>

lemma cursor_covers_pool:
  assumes "in_pool p" "in_pool q"
  shows "\<exists>i < alloc_attempts. (bump_port ^^ i) p = q"
proof -
  let ?i = "(unat q + 28232 - unat p) mod 28232"
  have "unat ((bump_port ^^ ?i) p) = unat q"
  proof -
    have "(unat p - 32768 + ?i) mod 28232 = (unat p - 32768 + (unat q + 28232 - unat p)) mod 28232"
      by (simp add: mod_add_right_eq)
    also have "\<dots> = (unat q - 32768 + 28232) mod 28232"
      using assms by (intro arg_cong [where f = "\<lambda>x. x mod 28232"]) (auto simp: in_pool_nat)
    also have "\<dots> = (unat q - 32768) mod 28232"
      by (rule mod_add_self2)
    also have "\<dots> = unat q - 32768"
      using assms by (intro mod_less) (auto simp: in_pool_nat)
    finally show ?thesis
      using assms by (simp add: unat_bump_iter in_pool_nat)
  qed
  moreover have "?i < alloc_attempts"
    by (simp add: alloc_attempts_eq)
  ultimately show ?thesis
    by (metis word_unat_eq_iff)
qed

section \<open>The search loop\<close>

definition port_free :: "ConnTracker \<Rightarrow> u16 \<Rightarrow> bool" where
  "port_free ct p \<longleftrightarrow> p \<noteq> ct_reservedPort ct \<and> ct_entries ct (loopback_key p) = None"

lemma alloc_loop_exhausted:
  "alloc_loop n target ct = (ct', None) \<Longrightarrow>
   ct' = ct\<lparr>ct_nextPort := (bump_port ^^ n) (ct_nextPort ct)\<rparr> \<and>
   (\<forall>i<n. \<not> port_free ct ((bump_port ^^ i) (ct_nextPort ct)))"
proof (induction n arbitrary: ct)
  case (Suc n)
  let ?p = "ct_nextPort ct"
  let ?ct = "ct\<lparr>ct_nextPort := bump_port ?p\<rparr>"
  have busy: "\<not> port_free ct ?p" and rest: "alloc_loop n target ?ct = (ct', None)"
    using Suc.prems by (auto simp: port_free_def Let_def split: if_splits)
  have free: "port_free ?ct = port_free ct"
    by (simp add: port_free_def fun_eq_iff)
  show ?case
    using Suc.IH [OF rest] busy free
    by (auto simp: funpow_swap1 less_Suc_eq_0_disj)
qed simp

lemma alloc_loop_found:
  "alloc_loop n target ct = (ct', Some p) \<Longrightarrow>
   \<exists>i<n. p = (bump_port ^^ i) (ct_nextPort ct) \<and> port_free ct p \<and>
     ct' = lease p target (ct\<lparr>ct_nextPort := bump_port p\<rparr>)"
proof (induction n arbitrary: ct)
  case (Suc n)
  let ?q = "ct_nextPort ct"
  let ?ct = "ct\<lparr>ct_nextPort := bump_port ?q\<rparr>"
  show ?case
  proof (cases "port_free ct ?q")
    case True
    with Suc.prems show ?thesis
      by (intro exI [of _ 0]) (auto simp: port_free_def Let_def)
  next
    case False
    with Suc.prems have rest: "alloc_loop n target ?ct = (ct', Some p)"
      by (auto simp: port_free_def Let_def split: if_splits)
    have free: "port_free ?ct = port_free ct"
      by (simp add: port_free_def fun_eq_iff)
    from Suc.IH [OF rest] obtain i where "i < n" and
      "p = (bump_port ^^ i) (bump_port ?q)" "port_free ct p"
      "ct' = lease p target (ct\<lparr>ct_nextPort := bump_port p\<rparr>)"
      by (auto simp: free)
    then show ?thesis
      by (intro exI [of _ "Suc i"]) (simp add: funpow_swap1)
  qed
qed simp

section \<open>The invariant\<close>

text \<open>
  Every entry sits under a loopback key with a port of the pool that is not the reserved one, and
  the index of original flows is the inverse of the entries.
\<close>

definition ct_inv :: "ConnTracker \<Rightarrow> bool" where
  "ct_inv ct \<longleftrightarrow>
     (\<forall>k t. ct_entries ct k = Some t \<longrightarrow>
        k = loopback_key (ck_SrcPort k) \<and> in_pool (ck_SrcPort k) \<and> ck_SrcPort k \<noteq> ct_reservedPort ct) \<and>
     (\<forall>f k. ct_orig ct f = Some k \<longleftrightarrow> (\<exists>t. ct_entries ct k = Some t \<and> orig_key t = f)) \<and>
     (\<forall>k. k \<in> ct_active ct \<longrightarrow> ct_entries ct k \<noteq> None) \<and>
     in_pool (ct_nextPort ct)"

lemma loopback_key_simps [simp]:
  "ck_SrcPort (loopback_key p) = p" "loopback_key p = loopback_key q \<longleftrightarrow> p = q"
  "ck_SrcIP (loopback_key p) = ''127.0.0.1''"
  by (auto simp: loopback_key_def)

lemma ct_inv_entry:
  "ct_inv ct \<Longrightarrow> ct_entries ct k = Some t \<Longrightarrow>
   k = loopback_key (ck_SrcPort k) \<and> in_pool (ck_SrcPort k) \<and> ck_SrcPort k \<noteq> ct_reservedPort ct"
  by (simp add: ct_inv_def)

lemma ct_inv_orig:
  "ct_inv ct \<Longrightarrow> ct_orig ct f = Some k \<longleftrightarrow> (\<exists>t. ct_entries ct k = Some t \<and> orig_key t = f)"
  by (simp add: ct_inv_def)

lemma ct_inv_unique:
  "ct_inv ct \<Longrightarrow> ct_entries ct k = Some t \<Longrightarrow> ct_entries ct k' = Some t' \<Longrightarrow>
   orig_key t = orig_key t' \<Longrightarrow> k = k'"
  by (metis ct_inv_orig option.inject)

lemma ct_inv_no_orig:
  "ct_inv ct \<Longrightarrow> ct_orig ct f = None \<Longrightarrow> ct_entries ct k = Some t \<Longrightarrow> orig_key t \<noteq> f"
  by (metis ct_inv_orig option.distinct(1))

lemma ct_inv_New: "ct_inv (NewConnTracker g t r)"
  by (simp add: ct_inv_def NewConnTracker_def in_pool_def mappedPortMin_def mappedPortMax_def)

lemma ct_inv_cursor:
  assumes "ct_inv ct" "in_pool p"
  shows "ct_inv (ct\<lparr>ct_nextPort := p\<rparr>)"
  using assms by (simp add: ct_inv_def)

lemma ct_inv_lease:
  assumes inv: "ct_inv ct" and free: "port_free ct p" "in_pool p"
    and new: "ct_orig ct (orig_key target) = None"
  shows "ct_inv (lease p target ct)"
proof -
  have "orig_key t \<noteq> orig_key target" if "ct_entries ct k = Some t" for k t
    using ct_inv_no_orig [OF inv new that] .
  then show ?thesis
    using inv free by (auto simp: ct_inv_def lease_def port_free_def)
qed

lemma drop_entry_simps [simp]:
  "ct_entries (drop_entry k v ct) = (ct_entries ct)(k := None)"
  "ct_active (drop_entry k v ct) = ct_active ct" "ct_nextPort (drop_entry k v ct) = ct_nextPort ct"
  "ct_reservedPort (drop_entry k v ct) = ct_reservedPort ct" "ct_ttl (drop_entry k v ct) = ct_ttl ct"
  by (simp_all add: drop_entry_def)

lemma ct_inv_drop_entry:
  assumes inv: "ct_inv ct" and v: "ct_entries ct k = Some v" and "k \<notin> ct_active ct"
  shows "ct_inv (drop_entry k v ct)"
proof -
  have o: "ct_orig ct (orig_key v) = Some k"
    using inv v by (auto simp: ct_inv_orig)
  have "ct_orig (drop_entry k v ct) = (ct_orig ct)(orig_key v := None)"
    using o by (simp add: drop_entry_def)
  moreover have "orig_key t \<noteq> orig_key v" if "ct_entries ct k' = Some t" "k' \<noteq> k" for k' t
    using ct_inv_unique [OF inv that(1) v] that(2) by blast
  ultimately show ?thesis
    using assms by (auto simp: ct_inv_def)
qed

section \<open>The operations keep it\<close>

text \<open>The whole entry as the argument of \<open>Set\<close>.\<close>

definition ct_reserve :: "ConnTarget \<Rightarrow> ConnTracker \<Rightarrow> ConnTracker \<times> u16 option" where
  "ct_reserve t ct = ct_Set (CreatedAt t) (OrigSrcIP t) (OrigSrcPort t) (OrigDstIP t) (OrigDstPort t)
     (OrigIfIdx t) (OrigSubIfIdx t) ct"

lemma ct_reserve_unfold:
  assumes "ct_inv ct"
  shows "ct_reserve t ct = (case ct_orig ct (orig_key t) of
     Some k \<Rightarrow> (ct, Some (ck_SrcPort k)) | None \<Rightarrow> alloc_loop alloc_attempts t ct)"
proof -
  have "\<lparr>OrigSrcIP = OrigSrcIP t, OrigSrcPort = OrigSrcPort t, OrigDstIP = OrigDstIP t,
     OrigDstPort = OrigDstPort t, OrigIfIdx = OrigIfIdx t, OrigSubIfIdx = OrigSubIfIdx t,
     CreatedAt = CreatedAt t\<rparr> = t"
    by simp
  moreover have "ct_entries ct k \<noteq> None" if "ct_orig ct (orig_key t) = Some k" for k
    using that assms by (auto simp: ct_inv_orig)
  ultimately show ?thesis
    by (cases "ct_orig ct (orig_key t)") (simp_all only: ct_reserve_def ct_Set_def Let_def option.case if_True not_False_eq_True)
qed

lemma ct_Set_reserve:
  "ct_Set now a b c d e f ct = ct_reserve \<lparr>OrigSrcIP = a, OrigSrcPort = b, OrigDstIP = c, OrigDstPort = d,
     OrigIfIdx = e, OrigSubIfIdx = f, CreatedAt = now\<rparr> ct"
  by (simp add: ct_reserve_def)

lemma alloc_loop_pool:
  assumes "ct_inv ct" "alloc_loop n t ct = (ct', Some p)"
  shows "in_pool p" "port_free ct p" "ct' = lease p t (ct\<lparr>ct_nextPort := bump_port p\<rparr>)"
  using alloc_loop_found [OF assms(2)] unat_bump_iter(2) [of "ct_nextPort ct"] assms(1)
  by (auto simp: ct_inv_def)

lemma ct_inv_alloc:
  assumes inv: "ct_inv ct" and new: "ct_orig ct (orig_key t) = None" and r: "alloc_loop n t ct = (ct', r)"
  shows "ct_inv ct'"
proof (cases r)
  case None
  then show ?thesis
    using alloc_loop_exhausted [of n t ct ct'] r inv unat_bump_iter(2) [of "ct_nextPort ct" n]
    by (auto simp: ct_inv_def)
next
  case (Some p)
  note p = alloc_loop_pool [OF inv, of n t ct' p]
  have "ct_inv (ct\<lparr>ct_nextPort := bump_port p\<rparr>)"
    using p r Some inv by (intro ct_inv_cursor in_pool_bump) auto
  then have "ct_inv (lease p t (ct\<lparr>ct_nextPort := bump_port p\<rparr>))"
    using p r Some new by (intro ct_inv_lease) (auto simp: port_free_def)
  with p r Some show ?thesis by simp
qed

lemma ct_inv_reserve: "ct_inv ct \<Longrightarrow> ct_reserve t ct = (ct', r) \<Longrightarrow> ct_inv ct'"
  by (auto simp: ct_reserve_unfold ct_inv_alloc split: option.splits)

lemma ct_inv_Activate: "ct_inv ct \<Longrightarrow> ct_inv (ct_Activate ip port ct)"
  by (auto simp: ct_Activate_def ct_inv_def Let_def)

lemma ct_inv_deactivate: "ct_inv ct \<Longrightarrow> ct_inv (ct\<lparr>ct_active := ct_active ct - A\<rparr>)"
  by (simp add: ct_inv_def)

lemma ct_inv_Delete: "ct_inv ct \<Longrightarrow> ct_inv (ct_Delete ip port ct)"
  by (auto simp: ct_Delete_def Let_def intro!: ct_inv_drop_entry ct_inv_deactivate split: option.splits)

lemma ct_inv_gc_visit: "ct_inv ct \<Longrightarrow> ct_inv (gc_visit now k ct)"
  by (auto simp: gc_visit_def intro!: ct_inv_drop_entry split: option.splits)

lemma ct_inv_gc_tick: "ct_inv ct \<Longrightarrow> ct_inv (gc_tick now ks ct)"
  by (induction ks arbitrary: ct) (auto intro: ct_inv_gc_visit)

lemma ct_inv_Close: "ct_inv ct \<Longrightarrow> ct_inv (ct_Close ct)"
  by (simp add: ct_inv_def ct_Close_def)

lemma startGC_inv:
  assumes "ct_inv ct" "\<And>f ct. Meanwhile f \<in> set es \<Longrightarrow> ct_inv ct \<Longrightarrow> ct_inv (f ct)"
    and "startGC es ct = Some r"
  shows "ct_inv (fst r)"
proof -
  have "ct_inv (fst (ticker_loop (\<lambda>(now, ks). gc_tick now ks) es ct))"
  proof (rule ticker_loop_invariant [of ct_inv, OF assms(1)])
    fix t :: "time \<times> ConnKey list" and ct assume "ct_inv ct"
    then show "ct_inv ((\<lambda>(now, ks). gc_tick now ks) t ct)"
      by (cases t) (simp add: ct_inv_gc_tick)
  qed (rule assms(2))
  then show ?thesis
    using assms(3) by (auto simp: startGC_def split: if_splits)
qed

text \<open>
  The collector of a new tracker runs for every interval up to some 292 years; beyond that the product
  with a second wraps around, for ten thousand million seconds into a negative duration, and the
  panic ends the process. The configuration's loader only replaces intervals that are not positive.
\<close>

lemma startGC_runs:
  assumes "gc \<le> 9223372036"
  shows "startGC es (NewConnTracker gc ttl port) \<noteq> None"
proof -
  have "seconds g = g * second" if "0 < g" "g \<le> 9223372036" for g
    using that unfolding seconds_def by (intro wrap64_id) simp_all
  then have "0 < seconds (ct_gcInterval (NewConnTracker gc ttl port))"
    using assms by (simp add: NewConnTracker_def)
  then show ?thesis
    by (simp add: startGC_def)
qed

lemma huge_gc_interval_panics: "startGC es (NewConnTracker 10000000000 ttl port) = None"
  by (simp add: startGC_def NewConnTracker_def seconds_def wrap64_def)

lemmas ct_inv_ops = ct_inv_New ct_inv_reserve ct_inv_Activate ct_inv_Delete ct_inv_gc_tick ct_inv_Close

section \<open>The tracker leases ports\<close>

definition ct_lookup :: "ConnTracker \<Rightarrow> u16 \<Rightarrow> ConnTarget option" where
  "ct_lookup ct p = ct_Get ''127.0.0.1'' p ct"

definition ct_release :: "u16 \<Rightarrow> ConnTracker \<Rightarrow> ConnTracker" where
  "ct_release p ct = ct_Delete ''127.0.0.1'' p ct"

lemma ct_lookup_entries: "ct_lookup ct p = ct_entries ct (loopback_key p)"
  by (simp add: ct_lookup_def ct_Get_def loopback_key_def)

lemma ct_release_entries: "ct_entries (ct_release p ct) = (ct_entries ct)(loopback_key p := None)"
  by (auto simp: ct_release_def ct_Delete_def loopback_key_def Let_def split: option.splits)

lemma ct_HasMapped_lookup: "ct_HasMapped p ct \<longleftrightarrow> p \<noteq> 0 \<and> ct_lookup ct p \<noteq> None"
  by (simp add: ct_HasMapped_def ct_lookup_entries)

lemma not_in_pool_0 [simp]: "\<not> in_pool 0"
  by (simp add: in_pool_nat)

lemma ct_reserve_new:
  assumes inv: "ct_inv ct" and fresh: "\<forall>q g. ct_lookup ct q = Some g \<longrightarrow> orig_key g \<noteq> orig_key t"
    and r: "ct_reserve t ct = (ct', Some p)"
  shows "ct_lookup ct p = None \<and> ct_lookup ct' = (ct_lookup ct)(p \<mapsto> t)"
proof -
  have "ct_orig ct (orig_key t) = None"
    using fresh inv by (metis ct_inv_orig ct_inv_entry ct_lookup_entries not_None_eq)
  then have "alloc_loop alloc_attempts t ct = (ct', Some p)"
    using r inv by (simp add: ct_reserve_unfold)
  from alloc_loop_pool [OF inv this] show ?thesis
    by (auto simp: lease_def port_free_def ct_lookup_entries)
qed

lemma ct_reserve_none:
  "ct_inv ct \<Longrightarrow> ct_reserve t ct = (ct', None) \<Longrightarrow>
   ct' = ct\<lparr>ct_nextPort := (bump_port ^^ alloc_attempts) (ct_nextPort ct)\<rparr>"
  by (auto simp: ct_reserve_unfold dest: alloc_loop_exhausted split: option.splits)

interpretation ct: port_lease ct_inv ct_reserve ct_lookup ct_release orig_key
proof
  show "ct_inv s \<Longrightarrow> ct_inv (ct_release p s)" for s p
    by (simp add: ct_release_def ct_inv_Delete)
  show "ct_reserve f s = (s, Some p)"
    if "ct_inv s" "ct_lookup s p = Some g" "orig_key g = orig_key f" for s p g f
  proof -
    have "ct_orig s (orig_key f) = Some (loopback_key p)"
      using that by (metis ct_inv_orig ct_lookup_entries)
    with that show ?thesis by (simp add: ct_reserve_unfold)
  qed
  show "p = q" if "ct_inv s" "ct_lookup s p = Some f" "ct_lookup s q = Some g" "orig_key f = orig_key g"
    for s p q f g
    using that ct_inv_unique by (fastforce simp: ct_lookup_entries)
  show "ct_lookup s' = ct_lookup s" if "ct_inv s" "ct_reserve f s = (s', None)" for s s' f
    using ct_reserve_none [OF that] by (auto simp: ct_lookup_entries)
  show "ct_lookup (ct_release p s) = (ct_lookup s)(p := None)" for s p
    by (auto simp: ct_lookup_entries ct_release_entries)
qed (use ct_inv_reserve ct_reserve_new in blast)+

lemma alloc_loop_first:
  assumes "0 < n" "port_free ct (ct_nextPort ct)"
  shows "alloc_loop n t ct =
     (lease (ct_nextPort ct) t (ct\<lparr>ct_nextPort := bump_port (ct_nextPort ct)\<rparr>), Some (ct_nextPort ct))"
  using assms by (cases n) (simp_all add: port_free_def Let_def)

text \<open>A known flow, a fresh flow, and the pool at its end: the three outcomes of \<open>Set\<close>.\<close>

lemma alloc_fails_iff:
  assumes "ct_inv ct"
  shows "snd (alloc_loop alloc_attempts t ct) = None \<longleftrightarrow> (\<forall>p. in_pool p \<longrightarrow> \<not> port_free ct p)"
proof
  assume "snd (alloc_loop alloc_attempts t ct) = None"
  then obtain ct' where "alloc_loop alloc_attempts t ct = (ct', None)"
    by (metis prod.collapse)
  note busy = alloc_loop_exhausted [OF this]
  show "\<forall>p. in_pool p \<longrightarrow> \<not> port_free ct p"
    using busy cursor_covers_pool [of "ct_nextPort ct"] assms by (metis ct_inv_def)
next
  assume full: "\<forall>p. in_pool p \<longrightarrow> \<not> port_free ct p"
  show "snd (alloc_loop alloc_attempts t ct) = None"
  proof (rule ccontr)
    assume "snd (alloc_loop alloc_attempts t ct) \<noteq> None"
    then obtain ct' p where "alloc_loop alloc_attempts t ct = (ct', Some p)"
      by (metis not_Some_eq prod.collapse)
    with alloc_loop_pool [OF assms this] full show False by blast
  qed
qed

section \<open>Collection\<close>

text \<open>What a tick computes, whatever the order of the keys.\<close>

definition ct_gc :: "time \<Rightarrow> ConnTracker \<Rightarrow> ConnTracker" where
  "ct_gc now ct = ct\<lparr>
     ct_entries := map_keep (\<lambda>k v. \<not> ct_expired now ct k v) (ct_entries ct),
     ct_orig := map_keep (\<lambda>f k. \<forall>v. ct_entries ct k = Some v \<longrightarrow> \<not> ct_expired now ct k v) (ct_orig ct)\<rparr>"

lemma ct_inv_gc: "ct_inv ct \<Longrightarrow> ct_inv (ct_gc now ct)"
  by (auto simp: ct_inv_def ct_gc_def ct_expired_def map_keep_eq_None)

lemma ct_gc_entries: "ct_entries (ct_gc now ct) k = Some v \<longleftrightarrow> ct_entries ct k = Some v \<and> \<not> ct_expired now ct k v"
  by (simp add: ct_gc_def)

interpretation ct_gc: sweeping ct_entries "\<lambda>now ct k v. \<not> ct_expired now ct k v" ct_gc
  by unfold_locales (rule ct_gc_entries)

lemma gc_visit_simps [simp]:
  "ct_active (gc_visit now k ct) = ct_active ct" "ct_ttl (gc_visit now k ct) = ct_ttl ct"
  "ct_nextPort (gc_visit now k ct) = ct_nextPort ct"
  "ct_reservedPort (gc_visit now k ct) = ct_reservedPort ct"
  "ct_gcInterval (gc_visit now k ct) = ct_gcInterval ct" "ct_closed (gc_visit now k ct) = ct_closed ct"
  by (simp_all add: gc_visit_def drop_entry_def split: option.splits)

lemma gc_visit_entries:
  "ct_entries (gc_visit now k ct) = (ct_entries ct)(k := map_keep (\<lambda>k v. \<not> ct_expired now ct k v) (ct_entries ct) k)"
  by (auto simp: gc_visit_def map_keep_def ct_expired_def fun_eq_iff split: option.splits)

lemma gc_tick_simps [simp]:
  "ct_active (gc_tick now ks ct) = ct_active ct" "ct_ttl (gc_tick now ks ct) = ct_ttl ct"
  "ct_nextPort (gc_tick now ks ct) = ct_nextPort ct"
  "ct_reservedPort (gc_tick now ks ct) = ct_reservedPort ct"
  "ct_gcInterval (gc_tick now ks ct) = ct_gcInterval ct" "ct_closed (gc_tick now ks ct) = ct_closed ct"
  by (induction ks arbitrary: ct) simp_all

lemma ct_expired_cong:
  "ct_active a = ct_active b \<Longrightarrow> ct_ttl a = ct_ttl b \<Longrightarrow> ct_expired now a = ct_expired now b"
  by (simp add: ct_expired_def fun_eq_iff)

lemma gc_tick_entries:
  "ct_entries (gc_tick now ks ct) k =
     (if k \<in> set ks then map_keep (\<lambda>k v. \<not> ct_expired now ct k v) (ct_entries ct) k else ct_entries ct k)"
proof (induction ks arbitrary: ct)
  case (Cons x ks)
  have "ct_expired now (gc_visit now x ct) = ct_expired now ct"
    by (rule ct_expired_cong) simp_all
  then show ?case
    by (auto simp: Cons.IH gc_visit_entries map_keep_def split: option.splits)
qed simp

lemma ct_inv_determines_orig:
  assumes "ct_inv a" "ct_inv b" "ct_entries a = ct_entries b"
  shows "ct_orig a = ct_orig b"
proof
  fix f
  have "ct_orig a f = Some k \<longleftrightarrow> ct_orig b f = Some k" for k
    using assms by (simp add: ct_inv_orig)
  then show "ct_orig a f = ct_orig b f"
    by (metis not_Some_eq)
qed

lemma gc_tick_gc:
  assumes inv: "ct_inv ct" and all: "dom (ct_entries ct) \<subseteq> set ks"
  shows "gc_tick now ks ct = ct_gc now ct"
proof -
  have e: "ct_entries (gc_tick now ks ct) = ct_entries (ct_gc now ct)"
    using all by (intro ext) (auto simp: gc_tick_entries ct_gc_def map_keep_def dom_def split: option.splits)
  with inv have o: "ct_orig (gc_tick now ks ct) = ct_orig (ct_gc now ct)"
    by (intro ct_inv_determines_orig ct_inv_gc_tick ct_inv_gc)
  show ?thesis
    using e o by (intro ConnTracker.equality) (simp_all add: ct_gc_def)
qed

section \<open>Leases in use\<close>

definition ct_use :: "u16 \<Rightarrow> ConnTracker \<Rightarrow> ConnTracker" where
  "ct_use p ct = ct_Activate ''127.0.0.1'' p ct"

definition ct_used :: "ConnTracker \<Rightarrow> u16 \<Rightarrow> bool" where
  "ct_used ct p \<longleftrightarrow> loopback_key p \<in> ct_active ct"

definition ct_collect :: "time \<times> ConnKey list \<Rightarrow> ConnTracker \<Rightarrow> ConnTracker" where
  "ct_collect c ct = gc_tick (fst c) (snd c) ct"

lemma alloc_loop_active: "ct_active (fst (alloc_loop n t ct)) = ct_active ct"
  by (induction n arbitrary: ct) (simp_all add: lease_def Let_def)

lemma ct_reserve_active: "ct_inv ct \<Longrightarrow> ct_active (fst (ct_reserve t ct)) = ct_active ct"
  by (simp add: ct_reserve_unfold alloc_loop_active split: option.split)

lemma ct_release_active: "ct_active (ct_release p ct) = ct_active ct - {loopback_key p}"
  by (auto simp: ct_release_def ct_Delete_def loopback_key_def Let_def split: option.splits)

interpretation ct_share: shared_lease ct_inv ct_reserve ct_lookup ct_release orig_key ct_use ct_used ct_collect
proof
  show "ct_lookup (ct_collect c s) p = ct_lookup s p" if "ct_inv s" "ct_used s p" for s p c
    using that by (auto simp: ct_lookup_entries ct_used_def ct_collect_def gc_tick_entries ct_expired_def
        map_keep_def split: option.splits)
  show "ct_lookup s p = Some f" if "ct_lookup (ct_collect c s) p = Some f" for s p c f
    using that by (auto simp: ct_lookup_entries ct_collect_def gc_tick_entries map_keep_def split: option.splits if_splits)
  show "ct_inv (ct_use p s)" if "ct_inv s" for s p
    using that by (simp add: ct_use_def ct_inv_Activate)
  show "ct_used s' q" if "ct_inv s" "ct_reserve f s = (s', r)" "ct_used s q" for s f s' r q
    using that ct_reserve_active [of s f] by (simp add: ct_used_def)
qed (auto simp: ct_use_def ct_used_def ct_collect_def ct_inv_gc_tick ct_lookup_entries ct_release_active
    ct_Activate_def loopback_key_def Let_def)

section \<open>Reachable trackers\<close>

text \<open>
  What can happen to a tracker: any of its methods, called by the packet path and the goroutines of
  the TProxy in any order, and a tick of the collector along any order of the keys until \<open>Close\<close>.
\<close>

inductive ct_step :: "ConnTracker \<Rightarrow> ConnTracker \<Rightarrow> bool" where
  Set: "ct_step ct (fst (ct_Set now a b c d e f ct))"
| Activate: "ct_step ct (ct_Activate ip port ct)"
| Delete: "ct_step ct (ct_Delete ip port ct)"
| Tick: "\<not> ct_closed ct \<Longrightarrow> set ks = dom (ct_entries ct) \<Longrightarrow> ct_step ct (gc_tick now ks ct)"
| Close: "ct_step ct (ct_Close ct)"

inductive ct_reach :: "int \<Rightarrow> int \<Rightarrow> u16 \<Rightarrow> ConnTracker \<Rightarrow> bool" for g t r where
  New: "ct_reach g t r (NewConnTracker g t r)"
| Step: "ct_reach g t r ct \<Longrightarrow> ct_step ct ct' \<Longrightarrow> ct_reach g t r ct'"

lemma ct_inv_Set: "ct_inv ct \<Longrightarrow> ct_inv (fst (ct_Set now a b c d e f ct))"
  by (metis ct_Set_reserve ct_inv_reserve prod.collapse)

lemma ct_inv_step: "ct_step ct ct' \<Longrightarrow> ct_inv ct \<Longrightarrow> ct_inv ct'"
  by (induction rule: ct_step.induct) (simp_all add: ct_inv_Set ct_inv_Activate ct_inv_Delete ct_inv_gc_tick ct_inv_Close)

lemma ct_inv_reach: "ct_reach g t r ct \<Longrightarrow> ct_inv ct"
  by (induction rule: ct_reach.induct) (auto intro: ct_inv_New ct_inv_step)

lemma reserved_port_step: "ct_step ct ct' \<Longrightarrow> ct_inv ct \<Longrightarrow> ct_reservedPort ct' = ct_reservedPort ct"
proof (induction rule: ct_step.induct)
  case (Set ct now a b c d e f)
  have "ct_reservedPort (fst (alloc_loop n t s)) = ct_reservedPort s" for n t s
    by (induction n arbitrary: s) (simp_all add: lease_def Let_def)
  with Set show ?case
    by (simp add: ct_Set_reserve ct_reserve_unfold split: option.splits)
qed (simp_all add: ct_Activate_def ct_Delete_def ct_Close_def Let_def split: option.splits)

lemma reserved_port_reach: "ct_reach g t r ct \<Longrightarrow> ct_reservedPort ct = r"
  by (induction rule: ct_reach.induct)
    (simp_all add: NewConnTracker_def reserved_port_step [OF _ ct_inv_reach])

section \<open>Properties\<close>

lemma first_lease:
  assumes "r \<noteq> 32768"
  shows "ct_Set now a b c d e f (NewConnTracker g t r) =
    (lease 32768 \<lparr>OrigSrcIP = a, OrigSrcPort = b, OrigDstIP = c, OrigDstPort = d,
       OrigIfIdx = e, OrigSubIfIdx = f, CreatedAt = now\<rparr>
       ((NewConnTracker g t r)\<lparr>ct_nextPort := 32769\<rparr>), Some 32768)"
  using assms
  by (simp add: ct_Set_def Let_def NewConnTracker_def alloc_loop_first alloc_attempts_eq port_free_def
      mappedPortMin_def mappedPortMax_def bump_port_def)

lemma ct_reach_Set: "ct_reach g t r ct \<Longrightarrow> ct_reach g t r (fst (ct_Set now a b c d e f ct))"
  by (rule ct_reach.Step [OF _ ct_step.Set])

text \<open>C15. In every reachable tracker, whatever the interleaving of \<open>Set\<close>, \<open>Activate\<close>, \<open>Delete\<close>, ticks
  of the collector and \<open>Close\<close>: each entry sits under 127.0.0.1 and a port of the pool other than
  the reserved (TProxy) port, it is the only entry of its original flow, and the index of original
  flows leads back to it; a connection is marked active only while it has an entry.\<close>

theorem tracker_consistent:
  assumes "ct_reach g ttl r ct" "ct_entries ct k = Some t"
  shows "k = loopback_key (ck_SrcPort k) \<and> in_pool (ck_SrcPort k) \<and> ck_SrcPort k \<noteq> r \<and>
    ct_orig ct (orig_key t) = Some k \<and>
    (\<forall>k' t'. ct_entries ct k' = Some t' \<and> orig_key t' = orig_key t \<longrightarrow> k' = k) \<and>
    ct_active ct \<subseteq> dom (ct_entries ct)"
proof -
  note inv = ct_inv_reach [OF assms(1)]
  have "ct_orig ct (orig_key t) = Some k"
    using assms(2) by (auto simp: ct_inv_orig [OF inv])
  moreover have "\<forall>k' t'. ct_entries ct k' = Some t' \<and> orig_key t' = orig_key t \<longrightarrow> k' = k"
    using ct_inv_unique [OF inv _ assms(2)] by blast
  moreover have "ct_active ct \<subseteq> dom (ct_entries ct)"
    using inv by (simp add: ct_inv_def subset_iff dom_def)
  moreover note e = ct_inv_entry [OF inv assms(2), unfolded reserved_port_reach [OF assms(1)]]
  ultimately show ?thesis
    by (intro conjI e [THEN conjunct1] e [THEN conjunct2, THEN conjunct1]
        e [THEN conjunct2, THEN conjunct2])
qed

theorem tracker_consistent_witness:
  "let ct = fst (ct_Set 5 (IPv4 10 0 0 5) 50000 (IPv4 1 2 3 4) 443 3 0 (NewConnTracker 15 30 7893))
   in ck_SrcPort (loopback_key 32768) \<noteq> 7893 \<and>
      ct_orig ct (orig_key (the (ct_entries ct (loopback_key 32768)))) = Some (loopback_key 32768)"
proof -
  let ?ct = "fst (ct_Set 5 (IPv4 10 0 0 5) 50000 (IPv4 1 2 3 4) 443 3 0 (NewConnTracker 15 30 7893))"
  have r: "ct_reach 15 30 7893 ?ct"
    by (intro ct_reach_Set ct_reach.New)
  have "\<exists>t. ct_entries ?ct (loopback_key 32768) = Some t"
    by (simp add: first_lease lease_def)
  then obtain t where "ct_entries ?ct (loopback_key 32768) = Some t" ..
  with tracker_consistent [OF r this] show ?thesis
    by (simp add: Let_def)
qed

text \<open>\<open>Set\<close> returns one port for all packets of an original TCP flow: once a call has returned a
  port, every later call with the same addresses and ports, at any time and from any interface,
  returns that port again and changes nothing.\<close>

theorem set_same_flow_same_port:
  assumes "ct_reach g ttl r ct" "ct_Set now srcIP srcPort dstIP dstPort ifx sub ct = (ct', Some p)"
  shows "ct_Set now' srcIP srcPort dstIP dstPort ifx' sub' ct' = (ct', Some p)"
  using ct.reserve_again [OF ct_inv_reach [OF assms(1)] assms(2) [unfolded ct_Set_reserve]]
  by (simp add: ct_Set_reserve orig_key_def)

theorem set_same_flow_same_port_witness:
  "let (ct, p) = ct_Set 5 (IPv4 10 0 0 5) 50000 (IPv4 1 2 3 4) 443 3 0 (NewConnTracker 15 30 7893)
   in p = Some 32768 \<and> ct_Set 9 (IPv4 10 0 0 5) 50000 (IPv4 1 2 3 4) 443 7 1 ct = (ct, Some 32768)"
proof -
  obtain ct where s: "ct_Set 5 (IPv4 10 0 0 5) 50000 (IPv4 1 2 3 4) 443 3 0 (NewConnTracker 15 30 7893) = (ct, Some 32768)"
    by (simp add: first_lease)
  show ?thesis
    using set_same_flow_same_port [OF ct_reach.New s, of 9 7 1] by (simp add: s)
qed

text \<open>Two IPv4 flows that differ in any of the four coordinates never hold the same mapped port:
  if \<open>Set\<close> gives a port to one and then to the other, the ports differ.\<close>

theorem set_distinct_flows_distinct_ports:
  assumes "ct_reach g ttl r ct"
    and "ct_Set t1 (IPv4 a b c d) sp (IPv4 e f h i) dp x1 y1 ct = (ct1, Some p)"
    and "ct_Set t2 (IPv4 a' b' c' d') sp' (IPv4 e' f' h' i') dp' x2 y2 ct1 = (ct2, Some q)"
    and "((a, b, c, d), sp, (e, f, h, i), dp) \<noteq> ((a', b', c', d'), sp', (e', f', h', i'), dp')"
  shows "p \<noteq> q"
  by (rule ct.distinct_flows_distinct_ports
      [OF ct_inv_reach [OF assms(1)] assms(2,3) [unfolded ct_Set_reserve]])
    (use assms(4) in \<open>auto simp: orig_key_def\<close>)

theorem set_distinct_flows_distinct_ports_witness:
  "let (ct1, p) = ct_Set 5 (IPv4 10 0 0 5) 50000 (IPv4 1 2 3 4) 443 3 0 (NewConnTracker 15 30 7893);
       (ct2, q) = ct_Set 6 (IPv4 10 0 0 5) 50000 (IPv4 1 2 3 5) 443 3 0 ct1
   in p = Some 32768 \<and> q = Some 32769 \<and> (32768 :: u16) \<noteq> 32769"
proof -
  obtain ct1 where s1: "ct_Set 5 (IPv4 10 0 0 5) 50000 (IPv4 1 2 3 4) 443 3 0 (NewConnTracker 15 30 7893) = (ct1, Some 32768)"
    and ct1: "ct1 = lease 32768 \<lparr>OrigSrcIP = IPv4 10 0 0 5, OrigSrcPort = 50000, OrigDstIP = IPv4 1 2 3 4,
       OrigDstPort = 443, OrigIfIdx = 3, OrigSubIfIdx = 0, CreatedAt = 5\<rparr> ((NewConnTracker 15 30 7893)\<lparr>ct_nextPort := 32769\<rparr>)"
    by (simp add: first_lease)
  obtain ct2 where s2: "ct_Set 6 (IPv4 10 0 0 5) 50000 (IPv4 1 2 3 5) 443 3 0 ct1 = (ct2, Some 32769)"
    by (simp add: ct1 ct_Set_def Let_def lease_def NewConnTracker_def alloc_loop_first alloc_attempts_eq
        port_free_def orig_key_def)
  have "(32768 :: u16) \<noteq> 32769"
    by (rule set_distinct_flows_distinct_ports [OF ct_reach.New s1 s2]) simp
  then show ?thesis by (simp add: s1 s2)
qed

text \<open>C30. \<open>Set\<close> reports failure exactly when the flow has no mapping yet and every port of the pool
  other than the reserved one is taken: one round of its loop meets every port of 32768..60999.\<close>

theorem set_fails_iff_pool_exhausted:
  assumes "ct_reach g ttl r ct"
  shows "snd (ct_Set now srcIP srcPort dstIP dstPort ifx sub ct) = None \<longleftrightarrow>
    ct_orig ct \<lparr>of_SrcIP = IP_String srcIP, of_SrcPort = srcPort, of_DstIP = IP_String dstIP, of_DstPort = dstPort\<rparr> = None \<and>
    (\<forall>p. 32768 \<le> p \<and> p \<le> 60999 \<and> p \<noteq> r \<longrightarrow> ct_entries ct (loopback_key p) \<noteq> None)"
proof -
  note inv = ct_inv_reach [OF assms]
  have "(\<forall>p. in_pool p \<longrightarrow> \<not> port_free ct p) \<longleftrightarrow>
    (\<forall>p. 32768 \<le> p \<and> p \<le> 60999 \<and> p \<noteq> r \<longrightarrow> ct_entries ct (loopback_key p) \<noteq> None)"
    by (auto simp: port_free_def in_pool_def mappedPortMin_def mappedPortMax_def reserved_port_reach [OF assms])
  then show ?thesis
    using alloc_fails_iff [OF inv]
    by (simp add: ct_Set_reserve ct_reserve_unfold [OF inv] orig_key_def split: option.splits)
qed

theorem set_fails_iff_pool_exhausted_witness:
  "ct_entries (NewConnTracker 15 30 7893) (loopback_key 40000) = None \<and>
   snd (ct_Set 5 (IPv4 10 0 0 5) 50000 (IPv4 1 2 3 4) 443 3 0 (NewConnTracker 15 30 7893)) \<noteq> None"
proof -
  have "ct_entries (NewConnTracker 15 30 7893) (loopback_key 40000) = None"
    by (simp add: NewConnTracker_def)
  then show ?thesis
    using set_fails_iff_pool_exhausted [OF ct_reach.New, of 5 "IPv4 10 0 0 5" 50000 "IPv4 1 2 3 4" 443 3 0 15 30 7893]
    by (auto dest!: spec [of _ "40000 :: u16"])
qed

lemma first_state:
  fixes ct defines "ct \<equiv> fst (ct_Set 0 (IPv4 10 0 0 5) 50000 (IPv4 1 2 3 4) 443 3 0 (NewConnTracker 15 30 7893))"
  shows "ct_reach 15 30 7893 ct"
    and "ct_entries ct = [loopback_key 32768 \<mapsto> \<lparr>OrigSrcIP = IPv4 10 0 0 5, OrigSrcPort = 50000,
      OrigDstIP = IPv4 1 2 3 4, OrigDstPort = 443, OrigIfIdx = 3, OrigSubIfIdx = 0, CreatedAt = 0\<rparr>]"
    and "ct_active ct = {}" and "ct_ttl ct = 30"
  unfolding ct_def
  by (rule ct_reach_Set [OF ct_reach.New]) (subst first_lease; simp add: lease_def NewConnTracker_def)+

text \<open>C37. A tick of the collector computes the same tracker in whatever order Go ranges over the
  entries: exactly the entries that are active or not older than the TTL stay, and the index of
  original flows loses exactly the flows of the entries that go.\<close>

theorem collector_order_independent:
  assumes "ct_reach g ttl r ct" "set ks = dom (ct_entries ct)"
  shows "gc_tick now ks ct = ct_gc now ct \<and>
    (ct_entries (gc_tick now ks ct) k = Some v \<longleftrightarrow>
       ct_entries ct k = Some v \<and> (k \<in> ct_active ct \<or> time_sub now (CreatedAt v) \<le> seconds (ct_ttl ct)))"
  using gc_tick_gc [OF ct_inv_reach [OF assms(1)], of ks now] assms(2)
  by (auto simp: ct_gc_entries ct_expired_def)

theorem collector_order_independent_witness:
  "let ct = fst (ct_Set 0 (IPv4 10 0 0 5) 50000 (IPv4 1 2 3 4) 443 3 0 (NewConnTracker 15 30 7893));
       k = loopback_key 32768
   in ct_entries (gc_tick (30 * second) [k] ct) k \<noteq> None \<and> ct_entries (gc_tick (30 * second + 1) [k] ct) k = None"
proof -
  let ?k = "loopback_key 32768"
  obtain ct where ct: "ct = fst (ct_Set 0 (IPv4 10 0 0 5) 50000 (IPv4 1 2 3 4) 443 3 0 (NewConnTracker 15 30 7893))"
    by simp
  note st = first_state [folded ct]
  note r = st(1) and s = st(3,4)
  have ks: "set [?k] = dom (ct_entries ct)"
    by (simp add: st)
  obtain t where t: "ct_entries ct ?k = Some t" "CreatedAt t = 0"
    by (simp add: st)
  have ttl: "seconds 30 = 30000000000"
    by (simp add: go_time)
  have "ct_entries (gc_tick (30 * second) [?k] ct) ?k = Some t"
    using collector_order_independent [OF r ks, of "30 * second" ?k t] t s
    by (auto simp: ttl time_sub_def simp del: gc_tick.simps)
  moreover have "ct_entries (gc_tick (30 * second + 1) [?k] ct) ?k \<noteq> Some v" for v
    using collector_order_independent [OF r ks, of "30 * second + 1" ?k v] t s
    by (auto simp: ttl time_sub_def simp del: gc_tick.simps)
  ultimately show ?thesis
    unfolding Let_def ct [symmetric] by (metis not_Some_eq)
qed

text \<open>The entry of an active connection is taken away by nothing but \<open>Delete\<close> of its own key:
  no tick of the collector, however late, and no other call removes or changes it.\<close>

theorem active_entry_only_deleted:
  assumes "ct_reach g ttl r ct" "ct_step ct ct'" "ct_entries ct k = Some t" "k \<in> ct_active ct"
    and "ct_entries ct' k \<noteq> Some t"
  shows "ct' = ct_Delete (ck_SrcIP k) (ck_SrcPort k) ct"
  using assms(2)
proof cases
  case (Set now a b c d e f)
  note inv = ct_inv_reach [OF assms(1)]
  obtain p where k: "k = loopback_key p"
    using ct_inv_entry [OF inv assms(3)] by blast
  obtain r where "ct_Set now a b c d e f ct = (ct', r)"
    using Set by (cases "ct_Set now a b c d e f ct") auto
  from ct.reserve_frame [OF inv this [unfolded ct_Set_reserve], of p t]
  have "ct_lookup ct' p = Some t"
    using assms(3) k by (simp add: ct_lookup_entries)
  with k assms(5) show ?thesis by (simp add: ct_lookup_entries)
next
  case (Activate ip port)
  with assms(3,5) show ?thesis by (simp add: ct_Activate_def Let_def split: if_splits)
next
  case (Delete ip port)
  with assms(3,5) have "k = \<lparr>ck_SrcIP = ip, ck_SrcPort = port\<rparr>"
    by (auto simp: ct_Delete_def Let_def split: option.splits if_splits)
  with Delete show ?thesis by simp
next
  case (Tick ks now)
  with assms(3-5) show ?thesis
    by (auto simp: gc_tick_entries map_keep_def ct_expired_def split: if_splits)
next
  case Close
  with assms(3,5) show ?thesis by (simp add: ct_Close_def)
qed

theorem active_entry_only_deleted_witness:
  "let ct = ct_Activate ''127.0.0.1'' 32768
              (fst (ct_Set 0 (IPv4 10 0 0 5) 50000 (IPv4 1 2 3 4) 443 3 0 (NewConnTracker 15 30 7893)));
       k = loopback_key 32768; ct' = ct_Delete ''127.0.0.1'' 32768 ct
   in ct_entries ct k \<noteq> None \<and> ct_entries ct' k = None \<and> ct' = ct_Delete (ck_SrcIP k) (ck_SrcPort k) ct"
proof -
  let ?k = "loopback_key 32768"
  obtain ct where ct: "ct = ct_Activate ''127.0.0.1'' 32768
      (fst (ct_Set 0 (IPv4 10 0 0 5) 50000 (IPv4 1 2 3 4) 443 3 0 (NewConnTracker 15 30 7893)))"
    by simp
  have r: "ct_reach 15 30 7893 ct"
    unfolding ct by (rule ct_reach.Step [OF first_state(1) ct_step.Activate])
  have k: "\<lparr>ck_SrcIP = ''127.0.0.1'', ck_SrcPort = 32768\<rparr> = ?k"
    by (simp add: loopback_key_def)
  have "ct_entries ct ?k \<noteq> None" and active: "?k \<in> ct_active ct"
    by (simp_all add: ct ct_Activate_def Let_def k first_state)
  then obtain t where t: "ct_entries ct ?k = Some t" by blast
  have gone: "ct_entries (ct_Delete ''127.0.0.1'' 32768 ct) ?k = None"
    using ct_release_entries [of 32768 ct] by (simp add: ct_release_def)
  then have "ct_entries (ct_Delete ''127.0.0.1'' 32768 ct) ?k \<noteq> Some t"
    by simp
  note eq = active_entry_only_deleted [OF r ct_step.Delete t active this]
  show ?thesis
    unfolding Let_def ct [symmetric] by (intro conjI gone eq) (simp add: t)
qed

end
