(* ===== verification/FlowPolicy.thy ===== *)
theory FlowPolicy
  imports ConnTrack
begin

text \<open>
  \<open>internal/engine/flowpolicy.go\<close>: the routing decision of every flow, made once when the flow is
  first seen, and the background sweep that forgets decisions. Each method runs under the mutex of
  the table and is one function on its state; the sweep asks the connection tracker whether a
  mapped port is still in use.
\<close>

section \<open>TCP flags\<close>

definition tcpFIN :: byte where "tcpFIN = 0x01"
definition tcpSYN :: byte where "tcpSYN = 0x02"
definition tcpRST :: byte where "tcpRST = 0x04"
definition tcpACK :: byte where "tcpACK = 0x10"

definition isConnectionStart :: "byte \<Rightarrow> bool" where
  "isConnectionStart flags \<longleftrightarrow> flags AND tcpSYN \<noteq> 0 \<and> flags AND tcpACK = 0"

section \<open>Decisions\<close>

datatype policyKind = policyPass | policyIntercept | policyUndecided

text \<open>The values of the \<open>iota\<close> block; the type is ordered by them.\<close>

definition kind_value :: "policyKind \<Rightarrow> nat" where
  "kind_value k = (case k of policyPass \<Rightarrow> 0 | policyIntercept \<Rightarrow> 1 | policyUndecided \<Rightarrow> 2)"

lemma kind_value_inject [simp]: "kind_value a = kind_value b \<longleftrightarrow> a = b"
  by (cases a; cases b) (simp_all add: kind_value_def)

instantiation policyKind :: linorder
begin

definition less_eq_policyKind :: "policyKind \<Rightarrow> policyKind \<Rightarrow> bool" where
  "less_eq_policyKind a b \<longleftrightarrow> kind_value a \<le> kind_value b"

definition less_policyKind :: "policyKind \<Rightarrow> policyKind \<Rightarrow> bool" where
  "less_policyKind a b \<longleftrightarrow> kind_value a < kind_value b"

instance
proof
  fix a b c :: policyKind
  show "a < b \<longleftrightarrow> a \<le> b \<and> \<not> b \<le> a"
    by (auto simp: less_policyKind_def less_eq_policyKind_def)
  show "a \<le> a" by (simp add: less_eq_policyKind_def)
  show "a \<le> b \<Longrightarrow> b \<le> c \<Longrightarrow> a \<le> c" by (simp add: less_eq_policyKind_def)
  show "a \<le> b \<Longrightarrow> b \<le> a \<Longrightarrow> a = b" by (simp add: less_eq_policyKind_def)
  show "a \<le> b \<or> b \<le> a" by (auto simp: less_eq_policyKind_def)
qed

end

lemma policyPass_least: "policyPass \<le> k"
  by (simp add: less_eq_policyKind_def kind_value_def)

record flowKey =
  fk_srcIP :: "byte list"
  fk_dstIP :: "byte list"
  fk_srcPort :: u16
  fk_dstPort :: u16
  fk_ver :: byte

text \<open>An IPv4 key holds the address in the first four of its sixteen bytes.\<close>

definition flowKeyV4 :: "u32 \<Rightarrow> u32 \<Rightarrow> u16 \<Rightarrow> u16 \<Rightarrow> flowKey" where
  "flowKeyV4 srcIP dstIP srcPort dstPort = \<lparr>
     fk_srcIP = [byte_of 0 srcIP, byte_of 1 srcIP, byte_of 2 srcIP, byte_of 3 srcIP] @ replicate 12 0,
     fk_dstIP = [byte_of 0 dstIP, byte_of 1 dstIP, byte_of 2 dstIP, byte_of 3 dstIP] @ replicate 12 0,
     fk_srcPort = srcPort, fk_dstPort = dstPort, fk_ver = 4\<rparr>"

record flowPolicyEntry =
  fe_kind :: policyKind
  fe_mappedPort :: u16
  fe_createdAt :: time

definition policyPassTTL :: int where "policyPassTTL = 15 * minute"
definition policyBlockTTL :: int where "policyBlockTTL = 5 * minute"

section \<open>The table\<close>

text \<open>The pointer to the tracker is an argument of the sweep, which alone reads it.\<close>

record flowPolicies =
  fp_entries :: "flowKey \<rightharpoonup> flowPolicyEntry"
  fp_closed :: bool

definition newFlowPolicies :: flowPolicies where
  "newFlowPolicies = \<lparr>fp_entries = Map.empty, fp_closed = False\<rparr>"

definition fp_Get :: "flowKey \<Rightarrow> flowPolicies \<Rightarrow> (policyKind \<times> u16) option" where
  "fp_Get k p = (case fp_entries p k of None \<Rightarrow> None | Some e \<Rightarrow> Some (fe_kind e, fe_mappedPort e))"

definition fp_Set :: "time \<Rightarrow> flowKey \<Rightarrow> policyKind \<Rightarrow> u16 \<Rightarrow> flowPolicies \<Rightarrow> flowPolicies" where
  "fp_Set now k kind mappedPort p = p\<lparr>fp_entries := (fp_entries p)(k \<mapsto>
     \<lparr>fe_kind = kind, fe_mappedPort = mappedPort, fe_createdAt = now\<rparr>)\<rparr>"

definition fp_Delete :: "flowKey \<Rightarrow> flowPolicies \<Rightarrow> flowPolicies" where
  "fp_Delete k p = p\<lparr>fp_entries := (fp_entries p)(k := None)\<rparr>"

definition fp_Size :: "flowPolicies \<Rightarrow> nat" where
  "fp_Size p = card (dom (fp_entries p))"

text \<open>The \<open>switch\<close> of the sweep; the tracker may be nil.\<close>

definition sweep_keep :: "time \<Rightarrow> ConnTracker option \<Rightarrow> flowPolicyEntry \<Rightarrow> bool" where
  "sweep_keep now tracker v =
     (if fe_kind v = policyIntercept \<and> fe_mappedPort v = 0
      then time_sub now (fe_createdAt v) < policyBlockTTL
      else if fe_kind v = policyIntercept
      then (case tracker of None \<Rightarrow> False | Some ct \<Rightarrow> ct_HasMapped (fe_mappedPort v) ct)
      else time_sub now (fe_createdAt v) < policyPassTTL)"

text \<open>One sweep along the order \<open>ks\<close> of the keys.\<close>

definition fp_sweep :: "time \<Rightarrow> ConnTracker option \<Rightarrow> flowKey list \<Rightarrow> flowPolicies \<Rightarrow> flowPolicies" where
  "fp_sweep now tracker ks p =
     p\<lparr>fp_entries := range_delete (\<lambda>_. sweep_keep now tracker) ks (fp_entries p)\<rparr>"

text \<open>The goroutine that sweeps: a tick comes with its time, the tracker then, and the order of the range.\<close>

definition sweepLoop :: "(time \<times> ConnTracker option \<times> flowKey list, flowPolicies) loop_event list \<Rightarrow> flowPolicies \<Rightarrow>
    flowPolicies \<times> bool" where
  "sweepLoop = ticker_loop (\<lambda>(now, tracker, ks). fp_sweep now tracker ks)"

definition fp_Close :: "flowPolicies \<Rightarrow> flowPolicies" where
  "fp_Close p = p\<lparr>fp_closed := True\<rparr>"

section \<open>Lemmas\<close>

lemma fp_Get_Set [simp]:
  "fp_Get k' (fp_Set now k kind m p) = (if k' = k then Some (kind, m) else fp_Get k' p)"
  by (simp add: fp_Get_def fp_Set_def)

lemma fp_Get_Delete [simp]: "fp_Get k' (fp_Delete k p) = (if k' = k then None else fp_Get k' p)"
  by (simp add: fp_Get_def fp_Delete_def)

lemma fp_Get_new [simp]: "fp_Get k newFlowPolicies = None"
  by (simp add: fp_Get_def newFlowPolicies_def)

lemma flowKeyV4_inject [simp]:
  "flowKeyV4 a b c d = flowKeyV4 a' b' c' d' \<longleftrightarrow> a = a' \<and> b = b' \<and> c = c' \<and> d = d'"
proof -
  have "x = y" if "byte_of 0 x = byte_of 0 y" "byte_of (Suc 0) x = byte_of (Suc 0) y"
    "byte_of 2 x = byte_of 2 y" "byte_of 3 x = byte_of 3 y" for x y
    using that by (metis word32_byte_of)
  then show ?thesis
    by (auto simp: flowKeyV4_def)
qed

text \<open>A v4 key never equals a key of an IPv6 flow.\<close>

lemma flowKeyV4_ver [simp]: "fk_ver (flowKeyV4 a b c d) = 4"
  by (simp add: flowKeyV4_def)

text \<open>The keys as the handlers build them, from the packet's bytes.\<close>

lemma flowKeyV4_word32:
  "flowKeyV4 (word32 a3 a2 a1 a0) (word32 b3 b2 b1 b0) sp dp =
   \<lparr>fk_srcIP = [a0, a1, a2, a3] @ replicate 12 0, fk_dstIP = [b0, b1, b2, b3] @ replicate 12 0,
    fk_srcPort = sp, fk_dstPort = dp, fk_ver = 4\<rparr>"
  by (simp add: flowKeyV4_def)

lemma start_not_closing_cases:
  "isConnectionStart tcpSYN" "\<not> isConnectionStart tcpACK"
  by (simp_all add: isConnectionStart_def tcpSYN_def tcpACK_def tcpFIN_def tcpRST_def)

definition fp_swept :: "time \<times> ConnTracker option \<Rightarrow> flowPolicies \<Rightarrow> flowPolicies" where
  "fp_swept c p = p\<lparr>fp_entries := map_keep (\<lambda>_. sweep_keep (fst c) (snd c)) (fp_entries p)\<rparr>"

interpretation fp: sweeping fp_entries "\<lambda>c p k. sweep_keep (fst c) (snd c)" fp_swept
  by unfold_locales (simp add: fp_swept_def)

lemma fp_sweep_swept:
  "dom (fp_entries p) \<subseteq> set ks \<Longrightarrow> fp_sweep now tracker ks p = fp_swept (now, tracker) p"
  by (simp add: fp_sweep_def fp_swept_def range_delete_any_order)

lemma fp_Size_swept: "finite (dom (fp_entries p)) \<Longrightarrow> fp_Size (fp_swept c p) \<le> fp_Size p"
  unfolding fp_Size_def by (rule fp.sweep_never_grows)

section \<open>Properties\<close>

text \<open>A sweep of the flow table has one result for every order in which Go ranges over it: a
  decision to intercept with a mapped port stays exactly while the tracker holds an entry for the
  port, a block of an IPv6 flow stays for less than five minutes, any other decision for less than
  fifteen; what stays is unchanged, nothing is added and the table does not grow.\<close>

theorem sweep_order_independent:
  assumes "set ks = dom (fp_entries p)" "fp_entries p k = Some e"
  shows "fp_entries (fp_sweep now (Some ct) ks p) k =
      (if (case fe_kind e of
             policyIntercept \<Rightarrow> (if fe_mappedPort e = 0 then now - fe_createdAt e < 5 * minute
                                else ct_entries ct (loopback_key (fe_mappedPort e)) \<noteq> None)
           | _ \<Rightarrow> now - fe_createdAt e < 15 * minute)
       then Some e else None) \<and>
    dom (fp_entries (fp_sweep now (Some ct) ks p)) \<subseteq> dom (fp_entries p) \<and>
    fp_Size (fp_sweep now (Some ct) ks p) \<le> fp_Size p"
proof -
  have s: "fp_sweep now (Some ct) ks p = fp_swept (now, Some ct) p"
    using assms(1) by (simp add: fp_sweep_swept)
  have "sweep_keep now (Some ct) e \<longleftrightarrow> (case fe_kind e of
             policyIntercept \<Rightarrow> (if fe_mappedPort e = 0 then now - fe_createdAt e < 5 * minute
                                else ct_entries ct (loopback_key (fe_mappedPort e)) \<noteq> None)
           | _ \<Rightarrow> now - fe_createdAt e < 15 * minute)"
    by (simp add: sweep_keep_def policyBlockTTL_def policyPassTTL_def time_sub_less ct_HasMapped_def
        split: policyKind.split)
  moreover have "finite (dom (fp_entries p))"
    using assms(1) by (metis finite_set)
  ultimately show ?thesis
    unfolding s
    using fp.sweep_kept [of p k e "(now, Some ct)"] fp.sweep_dropped [of p k e "(now, Some ct)"]
      fp.sweep_dom fp_Size_swept assms(2) by auto
qed

theorem sweep_order_independent_witness:
  "let k = flowKeyV4 1 2 3 443; p = fp_Set 0 k policyIntercept 40000 newFlowPolicies
   in fp_entries (fp_sweep 7 (Some (NewConnTracker 15 30 7893)) [k] p) k = None"
proof -
  let ?k = "flowKeyV4 1 2 3 443"
  let ?p = "fp_Set 0 ?k policyIntercept 40000 newFlowPolicies"
  have ks: "set [?k] = dom (fp_entries ?p)"
    by (simp add: fp_Set_def newFlowPolicies_def)
  have e: "fp_entries ?p ?k = Some \<lparr>fe_kind = policyIntercept, fe_mappedPort = 40000, fe_createdAt = 0\<rparr>"
    by (simp add: fp_Set_def)
  have "ct_entries (NewConnTracker 15 30 7893) (loopback_key 40000) = None"
    by (simp add: NewConnTracker_def)
  with sweep_order_independent [OF ks e, of 7 "NewConnTracker 15 30 7893"] show ?thesis
    by (simp add: Let_def)
qed

end
