(* ===== verification/Batch.thy ===== *)
theory Batch
  imports Prelude
begin

text \<open>
  \<open>internal/engine/batch.go\<close>: splitting a received batch by the length fields of the IP headers, the
  queue of packets to reinject, and the batched calls of the driver. The driver is not code of the
  repository: its calls are parameters, and the calls that were made are returned as a trace.
\<close>

section \<open>Driver addresses\<close>

record winDivertAddress =
  wa_Timestamp :: "64 word"
  wa_Bits :: u32
  wa_Reserved2 :: u32
  wa_IfIdx :: u32
  wa_SubIfIdx :: u32
  wa_Data :: "byte list"

text \<open>\<open>unsafe.Sizeof(winDivertAddress{})\<close>: 8 + 4 * 4 + 56 bytes.\<close>

definition winDivertAddressSize :: nat where
  "winDivertAddressSize = 8 + 4 + 4 + 4 + 4 + 56"

definition batchPackets :: nat where "batchPackets = 16"
definition maxPacketSize :: nat where "maxPacketSize = 40 + 0xFFFF"
definition recvBufSize :: nat where "recvBufSize = batchPackets * maxPacketSize"

text \<open>
  The procedures of WinDivert.dll. \<open>RecvEx\<close> and \<open>SendEx\<close> are optional exports. A receive yields the
  number of bytes and the number of address bytes it filled, or fails; a send succeeds or fails;
  the checksum helper rewrites packet and address, or fails.
\<close>

record driver =
  drv_recv :: "nat \<Rightarrow> nat option"
  drv_recvEx :: "(nat \<Rightarrow> u32 \<Rightarrow> (u32 \<times> u32) option) option"
  drv_send :: "byte list \<Rightarrow> winDivertAddress \<Rightarrow> bool"
  drv_sendEx :: "(byte list \<Rightarrow> winDivertAddress list \<Rightarrow> bool) option"
  drv_calc :: "byte list \<Rightarrow> winDivertAddress \<Rightarrow> (byte list \<times> winDivertAddress) option"

datatype driver_call =
    CallSend "byte list" winDivertAddress
  | CallSendEx "byte list" "winDivertAddress list"

section \<open>The send queue\<close>

text \<open>
  \<open>sq_cap\<close> is the capacity of the byte buffer. An append beyond it reallocates; the runtime's growth
  policy is not modelled, the new capacity is the length needed (within a batch the queue never
  grows, see \<open>Interceptor\<close>).
\<close>

record sendQueue =
  sq_buf :: "byte list"
  sq_addrs :: "winDivertAddress list"
  sq_lens :: "nat list"
  sq_cap :: nat

definition newSendQueue :: sendQueue where
  "newSendQueue = \<lparr>sq_buf = [], sq_addrs = [], sq_lens = [], sq_cap = recvBufSize\<rparr>"

text \<open>\<open>push\<close> on a queue that is not nil.\<close>

definition sq_push :: "byte list \<Rightarrow> winDivertAddress \<Rightarrow> sendQueue \<Rightarrow> sendQueue" where
  "sq_push pkt addr q = (if length pkt = 0 then q else
     \<lparr>sq_buf = sq_buf q @ pkt, sq_addrs = sq_addrs q @ [addr], sq_lens = sq_lens q @ [length pkt],
      sq_cap = max (sq_cap q) (length (sq_buf q) + length pkt)\<rparr>)"

definition sq_wouldOverflow :: "nat \<Rightarrow> sendQueue \<Rightarrow> bool" where
  "sq_wouldOverflow n q \<longleftrightarrow> int (sq_cap q) - int (length (sq_buf q)) < int n"

definition sq_count :: "sendQueue \<Rightarrow> nat" where
  "sq_count q = length (sq_lens q)"

definition sq_reset :: "sendQueue \<Rightarrow> sendQueue" where
  "sq_reset q = q\<lparr>sq_buf := [], sq_addrs := [], sq_lens := []\<rparr>"

text \<open>The queue as the list of packets it stands for.\<close>

fun cut_by :: "nat list \<Rightarrow> byte list \<Rightarrow> byte list list" where
  "cut_by [] b = []"
| "cut_by (l # ls) b = take l b # cut_by ls (drop l b)"

definition sq_packets :: "sendQueue \<Rightarrow> (byte list \<times> winDivertAddress) list" where
  "sq_packets q = zip (cut_by (sq_lens q) (sq_buf q)) (sq_addrs q)"

definition sq_inv :: "sendQueue \<Rightarrow> bool" where
  "sq_inv q \<longleftrightarrow> length (sq_addrs q) = length (sq_lens q) \<and> sum_list (sq_lens q) = length (sq_buf q) \<and>
     (\<forall>l \<in> set (sq_lens q). 0 < l) \<and> length (sq_buf q) \<le> sq_cap q"

lemma length_cut_by [simp]: "length (cut_by ls b) = length ls"
  by (induction ls arbitrary: b) auto

lemma cut_by_append:
  "sum_list ls = length b \<Longrightarrow> cut_by (ls @ ms) (b @ c) = cut_by ls b @ cut_by ms c"
  by (induction ls arbitrary: b) auto

lemma concat_cut_by: "sum_list ls = length b \<Longrightarrow> concat (cut_by ls b) = b"
  by (induction ls arbitrary: b) auto

lemma sq_inv_new [simp]: "sq_inv newSendQueue"
  by (simp add: sq_inv_def newSendQueue_def)

lemma sq_inv_push: "sq_inv q \<Longrightarrow> sq_inv (sq_push pkt addr q)"
  by (auto simp: sq_inv_def sq_push_def)

lemma sq_inv_reset: "sq_inv q \<Longrightarrow> sq_inv (sq_reset q)"
  by (simp add: sq_inv_def sq_reset_def)

lemma sq_packets_new [simp]: "sq_packets newSendQueue = []"
  by (simp add: sq_packets_def newSendQueue_def)

lemma sq_packets_reset [simp]: "sq_packets (sq_reset q) = []"
  by (simp add: sq_packets_def sq_reset_def)

lemma sq_packets_push:
  "sq_inv q \<Longrightarrow> sq_packets (sq_push pkt addr q) = sq_packets q @ (if pkt = [] then [] else [(pkt, addr)])"
  by (auto simp: sq_inv_def sq_push_def sq_packets_def cut_by_append)

lemma sq_packets_nonempty: "sq_inv q \<Longrightarrow> (p, a) \<in> set (sq_packets q) \<Longrightarrow> p \<noteq> []"
proof -
  have "p \<noteq> []" if "sum_list ls = length b" "\<forall>l \<in> set ls. 0 < l" "p \<in> set (cut_by ls b)" for ls b
    using that
  proof (induction ls arbitrary: b)
    case (Cons l ls)
    have "sum_list ls = length (drop l b)"
      using Cons.prems(1) by simp
    from Cons.IH [OF this] Cons.prems show ?case by auto
  qed simp
  then show "sq_inv q \<Longrightarrow> (p, a) \<in> set (sq_packets q) \<Longrightarrow> p \<noteq> []"
    by (auto simp: sq_inv_def sq_packets_def dest!: set_zip_leftD)
qed

lemma sq_count_packets: "sq_inv q \<Longrightarrow> sq_count q = length (sq_packets q)"
  by (simp add: sq_inv_def sq_count_def sq_packets_def)

lemma sq_buf_packets: "sq_inv q \<Longrightarrow> sq_buf q = concat (map fst (sq_packets q)) \<and> sq_addrs q = map snd (sq_packets q)"
  by (simp add: sq_inv_def sq_packets_def concat_cut_by)

lemma sq_cap_push: "length (sq_buf q) + length pkt \<le> sq_cap q \<Longrightarrow> sq_cap (sq_push pkt addr q) = sq_cap q"
  by (simp add: sq_push_def)

lemma sq_buf_push: "sq_buf (sq_push pkt addr q) = sq_buf q @ pkt"
  by (simp add: sq_push_def)

section \<open>The length of one packet\<close>

datatype split_error =
    EmptyPacket
  | ShortIPv4 nat
  | BadIPv4Length nat nat
  | ShortIPv6 nat
  | BadIPv6Length nat nat
  | UnknownVersion byte

text \<open>\<open>packetLen\<close>: \<open>None\<close> would be an index out of range.\<close>

definition packetLen :: "byte list \<Rightarrow> (split_error + nat) option" where
  "packetLen pkt = (if length pkt < 1 then Some (Inl EmptyPacket)
     else do {
       b \<leftarrow> idx pkt 0;
       let ver = drop_bit 4 b;
       if ver = 4 then
         if length pkt < 20 then Some (Inl (ShortIPv4 (length pkt)))
         else do {
           w \<leftarrow> be16_at pkt 2;
           let n = unat w;
           if n < 20 \<or> length pkt < n then Some (Inl (BadIPv4Length n (length pkt))) else Some (Inr n)
         }
       else if ver = 6 then
         if length pkt < 40 then Some (Inl (ShortIPv6 (length pkt)))
         else do {
           w \<leftarrow> be16_at pkt 4;
           let n = 40 + unat w;
           if n < 40 \<or> length pkt < n then Some (Inl (BadIPv6Length n (length pkt))) else Some (Inr n)
         }
       else Some (Inl (UnknownVersion ver))
     })"

text \<open>A packet whose header gives its length: what the driver delivers.\<close>

definition whole_packet :: "byte list \<Rightarrow> bool" where
  "whole_packet pkt \<longleftrightarrow> packetLen pkt = Some (Inr (length pkt))"

lemma packetLen_no_panic: "\<exists>r. packetLen pkt = Some r"
  by (simp add: packetLen_def go_mem Let_def)

lemma packetLen_Inr:
  "packetLen pkt = Some (Inr n) \<longleftrightarrow>
     n \<le> length pkt \<and>
     (drop_bit 4 (pkt ! 0) = 4 \<and> 20 \<le> n \<and> n = unat (word16 (pkt ! 2) (pkt ! 3)) \<or>
      drop_bit 4 (pkt ! 0) = 6 \<and> 40 \<le> n \<and> n = 40 + unat (word16 (pkt ! 4) (pkt ! 5)))"
proof (cases "pkt = []")
  case False
  then have b: "idx pkt 0 = Some (pkt ! 0)" "\<not> length pkt < 1" "pkt \<noteq> []"
    by (simp_all add: go_mem)
  consider "drop_bit 4 (pkt ! 0) = 4" | "drop_bit 4 (pkt ! 0) = 6"
    | "drop_bit 4 (pkt ! 0) \<noteq> 4" "drop_bit 4 (pkt ! 0) \<noteq> 6" by blast
  then show ?thesis
  proof cases
    case 1
    then show ?thesis
      by (simp add: packetLen_def b be16_at_Some numeral_3_eq_3) (auto simp: Let_def split: if_splits)
  next
    case 2
    then show ?thesis
      by (simp add: packetLen_def b be16_at_Some) (auto simp: Let_def split: if_splits)
  next
    case 3
    then show ?thesis by (simp add: packetLen_def b)
  qed
qed (auto simp: packetLen_def)

lemma packetLen_bounds: "packetLen pkt = Some (Inr n) \<Longrightarrow> 20 \<le> n \<and> n \<le> length pkt"
  by (auto simp: packetLen_Inr)

lemma packetLen_append: "packetLen pkt = Some (Inr n) \<Longrightarrow> packetLen (pkt @ rest) = Some (Inr n)"
  by (frule packetLen_bounds) (auto simp: packetLen_Inr nth_append)

lemma whole_packet_bounds: "whole_packet pkt \<Longrightarrow> 20 \<le> length pkt"
  by (auto simp: whole_packet_def dest: packetLen_bounds)

lemma whole_packet_append: "whole_packet pkt \<Longrightarrow> packetLen (pkt @ rest) = Some (Inr (length pkt))"
  by (simp add: whole_packet_def packetLen_append)

lemma packetLen_whole: "packetLen pkt = Some (Inr n) \<Longrightarrow> whole_packet (take n pkt)"
  by (frule packetLen_bounds) (auto simp: whole_packet_def packetLen_Inr)

section \<open>Batched receive and send\<close>

datatype recv_error = EmptyAddresses | EmptyBuffer | RecvFailed | BadAddressLength nat | BadScale nat nat

text \<open>\<open>Recv\<close> (windivert.go) and \<open>RecvBatch\<close>: the sizes they report; the bytes are in the buffer.\<close>

definition Recv :: "driver \<Rightarrow> nat \<Rightarrow> recv_error + nat" where
  "Recv d bufLen = (if bufLen = 0 then Inl EmptyBuffer
     else case drv_recv d bufLen of None \<Rightarrow> Inl RecvFailed | Some n \<Rightarrow> Inr n)"

definition RecvBatch :: "driver \<Rightarrow> nat \<Rightarrow> nat \<Rightarrow> recv_error + (nat \<times> nat)" where
  "RecvBatch d bufLen addrsLen = (if addrsLen = 0 then Inl EmptyAddresses
     else case (if addrsLen < 2 then None else drv_recvEx d) of
       None \<Rightarrow> (case Recv d bufLen of Inl e \<Rightarrow> Inl e | Inr n \<Rightarrow> Inr (n, 1))
     | Some recvEx \<Rightarrow>
         (case recvEx bufLen (of_nat (addrsLen * winDivertAddressSize)) of
            None \<Rightarrow> Inl RecvFailed
          | Some (n, addrBytes) \<Rightarrow>
              if addrBytes = 0 \<or> unat addrBytes mod winDivertAddressSize \<noteq> 0
              then Inl (BadAddressLength (unat addrBytes))
              else let pkts = unat addrBytes div winDivertAddressSize in
                if addrsLen < pkts \<or> bufLen < unat n then Inl (BadScale pkts (unat n))
                else Inr (unat n, pkts)))"

datatype send_error = EmptySend | SendFailed | SendExFailed

definition Send :: "driver \<Rightarrow> byte list \<Rightarrow> winDivertAddress \<Rightarrow> send_error option \<times> driver_call list" where
  "Send d pkt addr = (if length pkt = 0 then (Some EmptySend, [])
     else (if drv_send d pkt addr then None else Some SendFailed, [CallSend pkt addr]))"

text \<open>The fallback loop of \<open>SendBatch\<close> over the recorded lengths: \<open>None\<close> is a slice out of range.\<close>

fun send_each :: "driver \<Rightarrow> byte list \<Rightarrow> winDivertAddress list \<Rightarrow> nat list \<Rightarrow> nat \<Rightarrow> nat \<Rightarrow>
    (send_error option \<times> driver_call list) option" where
  "send_each d buf addrs [] i off = Some (None, [])"
| "send_each d buf addrs (l # ls) i off = do {
     pkt \<leftarrow> subslice buf off (off + l);
     addr \<leftarrow> idx addrs i;
     case Send d pkt addr of
       (Some e, cs) \<Rightarrow> Some (Some e, cs)
     | (None, cs) \<Rightarrow> do {
         (r, cs') \<leftarrow> send_each d buf addrs ls (i + 1) (off + l);
         Some (r, cs @ cs')
       }
   }"

definition SendBatch :: "driver \<Rightarrow> sendQueue \<Rightarrow> (send_error option \<times> driver_call list) option" where
  "SendBatch d q = (if sq_count q = 0 then Some (None, [])
     else case drv_sendEx d of
       Some sendEx \<Rightarrow> do {
         _ \<leftarrow> idx (sq_buf q) 0;
         _ \<leftarrow> idx (sq_addrs q) 0;
         Some (if sendEx (sq_buf q) (sq_addrs q) then None else Some SendExFailed,
               [CallSendEx (sq_buf q) (sq_addrs q)])
       }
     | None \<Rightarrow> send_each d (sq_buf q) (sq_addrs q) (sq_lens q) 0 0)"

text \<open>What the fallback does to the queue as a list: packets in order, up to the first failure.\<close>

fun send_list :: "driver \<Rightarrow> (byte list \<times> winDivertAddress) list \<Rightarrow> send_error option \<times> driver_call list" where
  "send_list d [] = (None, [])"
| "send_list d ((p, a) # r) = (if drv_send d p a
     then (fst (send_list d r), CallSend p a # snd (send_list d r))
     else (Some SendFailed, [CallSend p a]))"

lemma send_each_list:
  assumes "sum_list ls = length b" "length as = length ls" "\<forall>l \<in> set ls. 0 < l"
  shows "send_each d (pre @ b) (preA @ as) ls (length preA) (length pre) = Some (send_list d (zip (cut_by ls b) as))"
  using assms
proof (induction ls arbitrary: b as pre preA)
  case (Cons l ls)
  then obtain a as' where as: "as = a # as'" by (cases as) auto
  have l: "l \<le> length b" "0 < l" "b \<noteq> []" using Cons.prems by auto
  have sum: "sum_list ls = length (drop l b)"
    using Cons.prems(1) by simp
  have "send_each d ((pre @ take l b) @ drop l b) ((preA @ [a]) @ as') ls (length (preA @ [a])) (length (pre @ take l b))
      = Some (send_list d (zip (cut_by ls (drop l b)) as'))"
    by (rule Cons.IH) (use Cons.prems as sum in auto)
  then have "send_each d (pre @ b) (preA @ a # as') ls (Suc (length preA)) (length pre + l)
      = Some (send_list d (zip (cut_by ls (drop l b)) as'))"
    using l by simp
  then show ?case
    using l by (simp add: as subslice_def idx_def Send_def split: prod.splits)
qed simp

lemma send_list_calls:
  "send_list d pk =
    (if \<forall>(p, a) \<in> set pk. drv_send d p a then None else Some SendFailed,
     map (\<lambda>(p, a). CallSend p a)
       (takeWhile (\<lambda>(p, a). drv_send d p a) pk @ take 1 (dropWhile (\<lambda>(p, a). drv_send d p a) pk)))"
  by (induction d pk rule: send_list.induct) auto

lemma SendBatch_list:
  assumes "sq_inv q"
  shows "SendBatch d q = Some (
    let pk = sq_packets q in
    if pk = [] then (None, [])
    else case drv_sendEx d of
      Some sendEx \<Rightarrow>
        (if sendEx (concat (map fst pk)) (map snd pk) then None else Some SendExFailed,
         [CallSendEx (concat (map fst pk)) (map snd pk)])
    | None \<Rightarrow>
        (if \<forall>(p, a) \<in> set pk. drv_send d p a then None else Some SendFailed,
         map (\<lambda>(p, a). CallSend p a)
           (takeWhile (\<lambda>(p, a). drv_send d p a) pk @ take 1 (dropWhile (\<lambda>(p, a). drv_send d p a) pk))))"
proof (cases "sq_packets q = []")
  case True
  with sq_count_packets [OF assms] show ?thesis by (simp add: SendBatch_def)
next
  case False
  then obtain p a r where pk: "sq_packets q = (p, a) # r"
    by (metis list.exhaust surj_pair)
  with sq_packets_nonempty [OF assms, of p a] have "p \<noteq> []" by simp
  with pk have c: "sq_count q \<noteq> 0" and b: "sq_buf q \<noteq> []" "sq_addrs q \<noteq> []"
    using sq_count_packets [OF assms] sq_buf_packets [OF assms] by auto
  show ?thesis
  proof (cases "drv_sendEx d")
    case None
    have "send_each d (sq_buf q) (sq_addrs q) (sq_lens q) 0 0 = Some (send_list d (sq_packets q))"
      using send_each_list [of "sq_lens q" "sq_buf q" "sq_addrs q" d "[]" "[]"] assms
      by (simp add: sq_inv_def sq_packets_def)
    with None c False show ?thesis
      by (simp only: SendBatch_def send_list_calls Let_def if_False option.case)
  next
    case (Some sendEx)
    with c b False sq_buf_packets [OF assms] show ?thesis
      by (simp add: SendBatch_def idx_def Let_def)
  qed
qed

lemma RecvBatch_bounds:
  assumes "RecvBatch d bufLen addrsLen = Inr (n, pkts)"
  shows "1 \<le> pkts \<and> pkts \<le> addrsLen \<and> (2 \<le> addrsLen \<and> drv_recvEx d \<noteq> None \<longrightarrow> n \<le> bufLen)"
proof (cases "addrsLen < 2 \<or> drv_recvEx d = None")
  case True
  with assms show ?thesis
    by (auto simp: RecvBatch_def split: if_splits sum.splits option.splits)
next
  case False
  then obtain recvEx where r: "drv_recvEx d = Some recvEx" "2 \<le> addrsLen" by auto
  with assms obtain m w where e: "recvEx bufLen (of_nat (addrsLen * winDivertAddressSize)) = Some (m, w)"
    by (auto simp: RecvBatch_def not_less split: option.splits)
  have w: "w \<noteq> 0" "winDivertAddressSize dvd unat w" "pkts = unat w div winDivertAddressSize"
    "pkts \<le> addrsLen" "n \<le> bufLen"
    using assms r e by (auto simp: RecvBatch_def Let_def not_less split: if_splits)
  have "0 < unat w"
    using w(1) by (simp add: unat_gt_0)
  then have "pkts \<noteq> 0"
    using w(2,3) by (auto simp: winDivertAddressSize_def)
  with w r show ?thesis by auto
qed

section \<open>Properties\<close>

text \<open>\<open>packetLen\<close> never indexes out of range, whatever the bytes, and accepts a length exactly when
  the header of the right IP version is complete and its length field fits the buffer; so the slice
  the caller cuts with it is never empty and never leaves the buffer.\<close>

theorem packetLen_exact:
  "\<exists>r. packetLen pkt = Some r \<and>
     (\<forall>n. r = Inr n \<longleftrightarrow>
        n \<le> length pkt \<and>
        (drop_bit 4 (pkt ! 0) = 4 \<and> 20 \<le> n \<and> n = 256 * unat (pkt ! 2) + unat (pkt ! 3) \<or>
         drop_bit 4 (pkt ! 0) = 6 \<and> 40 \<le> n \<and> n = 40 + (256 * unat (pkt ! 4) + unat (pkt ! 5))))"
  using packetLen_no_panic [of pkt] packetLen_Inr [of pkt] by (auto simp: unat_word16)

theorem packetLen_exact_witness:
  "packetLen (0x45 # 0 # 0 # 20 # replicate 20 7) = Some (Inr 20)"
proof -
  obtain r where "packetLen (0x45 # 0 # 0 # 20 # replicate 20 7) = Some r"
    and "\<And>n. r = Inr n \<longleftrightarrow> n \<le> 24 \<and> (20 \<le> n \<and> n = 20 \<or> False)"
    using packetLen_exact [of "0x45 # 0 # 0 # 20 # replicate 20 7"] by auto
  then show ?thesis by simp
qed

text \<open>\<open>SendBatch\<close> hands the queued packets to the driver in the order they were queued: in one
  \<open>SendEx\<close> call carrying their concatenation and their addresses, or, where the DLL has no
  \<open>SendEx\<close>, one by one up to and including the first that fails. It never slices out of range.\<close>

theorem send_batch_in_order:
  assumes "sq_inv q"
  shows "SendBatch d q = Some (
    let pk = sq_packets q in
    if pk = [] then (None, [])
    else case drv_sendEx d of
      Some sendEx \<Rightarrow>
        (if sendEx (concat (map fst pk)) (map snd pk) then None else Some SendExFailed,
         [CallSendEx (concat (map fst pk)) (map snd pk)])
    | None \<Rightarrow>
        (if \<forall>(p, a) \<in> set pk. drv_send d p a then None else Some SendFailed,
         map (\<lambda>(p, a). CallSend p a)
           (takeWhile (\<lambda>(p, a). drv_send d p a) pk @ take 1 (dropWhile (\<lambda>(p, a). drv_send d p a) pk))))"
  by (rule SendBatch_list [OF assms])

theorem send_batch_in_order_witness:
  "\<forall>a. let q = sq_push [2] a (sq_push [1] a newSendQueue);
       d = \<lparr>drv_recv = (\<lambda>_. None), drv_recvEx = None, drv_send = (\<lambda>p _. p \<noteq> [2]), drv_sendEx = None,
            drv_calc = (\<lambda>_ _. None)\<rparr>
   in SendBatch d q = Some (Some SendFailed, [CallSend [1] a, CallSend [2] a])"
proof
  fix a
  have i: "sq_inv (sq_push [1] a newSendQueue)" "sq_inv (sq_push [2] a (sq_push [1] a newSendQueue))"
    by (intro sq_inv_push sq_inv_new)+
  show "let q = sq_push [2] a (sq_push [1] a newSendQueue);
       d = \<lparr>drv_recv = (\<lambda>_. None), drv_recvEx = None, drv_send = (\<lambda>p _. p \<noteq> [2]), drv_sendEx = None,
            drv_calc = (\<lambda>_ _. None)\<rparr>
   in SendBatch d q = Some (Some SendFailed, [CallSend [1] a, CallSend [2] a])"
    using send_batch_in_order [OF i(2)]
    by (simp add: sq_packets_push i Let_def)
qed

text \<open>What \<open>RecvBatch\<close> accepts from the driver is within the buffers it passed: at least one and at
  most \<open>len(addrs)\<close> packets, and, when the batched call was used, at most \<open>len(buf)\<close> bytes.\<close>

theorem recv_batch_in_bounds:
  assumes "RecvBatch d bufLen addrsLen = Inr (n, pkts)"
  shows "1 \<le> pkts \<and> pkts \<le> addrsLen \<and> (2 \<le> addrsLen \<and> drv_recvEx d \<noteq> None \<longrightarrow> n \<le> bufLen)"
  by (rule RecvBatch_bounds [OF assms])

theorem recv_batch_in_bounds_witness:
  "let d = \<lparr>drv_recv = (\<lambda>_. None), drv_recvEx = Some (\<lambda>_ _. Some (100, 160)), drv_send = (\<lambda>_ _. True),
            drv_sendEx = None, drv_calc = (\<lambda>_ _. None)\<rparr>
   in RecvBatch d 1000 16 = Inr (100, 2) \<and> (2::nat) \<le> 16 \<and> (100::nat) \<le> 1000"
proof -
  let ?d = "\<lparr>drv_recv = (\<lambda>_. None), drv_recvEx = Some (\<lambda>_ _. Some (100, 160)), drv_send = (\<lambda>_ _. True),
            drv_sendEx = None, drv_calc = (\<lambda>_ _. None)\<rparr>"
  have "RecvBatch ?d 1000 16 = Inr (100, 2)"
    by (simp add: RecvBatch_def winDivertAddressSize_def Let_def)
  with recv_batch_in_bounds [OF this] show ?thesis by (simp add: Let_def)
qed

end
