(* ===== verification/Rewrite.thy ===== *)
theory Rewrite
  imports ConnTrack Batch
begin

text \<open>
  The parts of \<open>internal/engine/windivert.go\<close> that look at or change bytes of a packet without any
  state: which addresses are private or local, the rewriting of a hijacked packet towards the
  TProxy, and the rewriting of a packet that comes back from it. A rewritten packet is described by
  \<open>with_tuple\<close>: the old packet with other addresses and ports.
\<close>

section \<open>Private and local addresses\<close>

definition isPrivateOrLocal4 :: "byte \<Rightarrow> byte \<Rightarrow> byte \<Rightarrow> byte \<Rightarrow> bool" where
  "isPrivateOrLocal4 a b c d =
     (if a = 0 \<or> a = 10 \<or> a = 127 then True
      else if a = 169 \<and> b = 254 then True
      else if a = 172 \<and> 16 \<le> b \<and> b \<le> 31 then True
      else if a = 192 \<and> b = 168 then True
      else if a = 100 \<and> 64 \<le> b \<and> b \<le> 127 then True
      else if a = 192 \<and> b = 0 \<and> c = 0 then True
      else if 224 \<le> a then True
      else False)"

definition isPrivateOrLocal :: "IP \<Rightarrow> bool" where
  "isPrivateOrLocal ip = (case To4 ip of None \<Rightarrow> True
     | Some v4 \<Rightarrow> isPrivateOrLocal4 (v4 ! 0) (v4 ! 1) (v4 ! 2) (v4 ! 3))"

definition isPrivateOrLocalV6 :: "IP \<Rightarrow> bool" where
  "isPrivateOrLocalV6 ip =
     (case To4 ip of Some v4 \<Rightarrow> isPrivateOrLocal4 (v4 ! 0) (v4 ! 1) (v4 ! 2) (v4 ! 3)
      | None \<Rightarrow>
          if length ip \<noteq> 16 then True
          else if IsLoopback ip \<or> IsUnspecified ip \<or> IsLinkLocalUnicast ip \<or> IsLinkLocalMulticast ip \<or>
               IsInterfaceLocalMulticast ip \<or> IsMulticast ip then True
          else if (ip ! 0) AND 0xfe = 0xfc then True
          else if ip ! 0 = 0xfe \<and> (ip ! 1) AND 0xc0 = 0xc0 then True
          else False)"

definition ipFromUint32 :: "u32 \<Rightarrow> IP" where
  "ipFromUint32 v = IPv4 (ucast v) (ucast (drop_bit 8 v)) (ucast (drop_bit 16 v)) (ucast (drop_bit 24 v))"

section \<open>Rewriting\<close>

definition flagOutbound :: u32 where "flagOutbound = push_bit 17 1"
definition flagLoopback :: u32 where "flagLoopback = push_bit 18 1"

definition loopbackV4 :: "byte list" where "loopbackV4 = [127, 0, 0, 1]"

definition rewriteHijack :: "byte list \<Rightarrow> winDivertAddress \<Rightarrow> nat \<Rightarrow> u16 \<Rightarrow> u16 \<Rightarrow> (byte list \<times> winDivertAddress) option" where
  "rewriteHijack pkt addr ihl mappedPort tproxyPort = do {
     pkt \<leftarrow> copy_to pkt 12 16 loopbackV4;
     pkt \<leftarrow> copy_to pkt 16 20 loopbackV4;
     pkt \<leftarrow> put16 pkt ihl mappedPort;
     pkt \<leftarrow> put16 pkt (ihl + 2) tproxyPort;
     Some (pkt, addr\<lparr>wa_Bits := wa_Bits addr OR (flagOutbound OR flagLoopback)\<rparr>) }"

text \<open>\<open>copy(dst, ip.To4())\<close> copies nothing when the address has no IPv4 form.\<close>

definition to4_bytes :: "IP \<Rightarrow> byte list" where
  "to4_bytes ip = (case To4 ip of None \<Rightarrow> [] | Some v \<Rightarrow> v)"

text \<open>The rewriting in \<open>reverseNAT\<close>, once the target is found.\<close>

definition rewriteReply :: "byte list \<Rightarrow> winDivertAddress \<Rightarrow> nat \<Rightarrow> ConnTarget \<Rightarrow> (byte list \<times> winDivertAddress) option" where
  "rewriteReply pkt addr ihl target = do {
     pkt \<leftarrow> copy_to pkt 12 16 (to4_bytes (OrigDstIP target));
     pkt \<leftarrow> put16 pkt ihl (OrigDstPort target);
     pkt \<leftarrow> copy_to pkt 16 20 (to4_bytes (OrigSrcIP target));
     pkt \<leftarrow> put16 pkt (ihl + 2) (OrigSrcPort target);
     let bits = (if IsLoopback (OrigSrcIP target) then wa_Bits addr OR (flagOutbound OR flagLoopback)
                 else wa_Bits addr AND NOT (flagOutbound OR flagLoopback));
     Some (pkt, addr\<lparr>wa_Bits := bits, wa_IfIdx := OrigIfIdx target, wa_SubIfIdx := OrigSubIfIdx target\<rparr>) }"

section \<open>The rewritten packet\<close>

definition port_bytes :: "u16 \<Rightarrow> byte list" where
  "port_bytes p = [hi8 p, lo8 p]"

definition with_tuple :: "byte list \<Rightarrow> nat \<Rightarrow> byte list \<Rightarrow> byte list \<Rightarrow> u16 \<Rightarrow> u16 \<Rightarrow> byte list" where
  "with_tuple pkt ihl src dst sport dport =
     take 12 pkt @ src @ dst @ take (ihl - 20) (drop 20 pkt) @ port_bytes sport @ port_bytes dport @ drop (ihl + 4) pkt"

text \<open>A packet with an IPv4 header of \<open>ihl\<close> bytes and room for the two ports, taken apart.\<close>

definition packet_of :: "byte list \<Rightarrow> byte list \<Rightarrow> byte list \<Rightarrow> byte list \<Rightarrow> byte list \<Rightarrow> byte list \<Rightarrow> byte list \<Rightarrow> byte list" where
  "packet_of pre src dst opts sp dp rest = pre @ src @ dst @ opts @ sp @ dp @ rest"

lemma take_drop_next: "n \<le> m \<Longrightarrow> drop n xs = take (m - n) (drop n xs) @ drop m xs"
  by (metis append_take_drop_id drop_drop le_add_diff_inverse2)

lemma packet_parts:
  assumes "20 \<le> ihl"
  shows "pkt = packet_of (take 12 pkt) (take 4 (drop 12 pkt)) (take 4 (drop 16 pkt)) (take (ihl - 20) (drop 20 pkt))
     (take 2 (drop ihl pkt)) (take 2 (drop (ihl + 2) pkt)) (drop (ihl + 4) pkt)"
proof -
  have "pkt = take 12 pkt @ drop 12 pkt" by simp
  also have "drop 12 pkt = take 4 (drop 12 pkt) @ drop 16 pkt"
    using take_drop_next [of 12 16 pkt] by simp
  also have "drop 16 pkt = take 4 (drop 16 pkt) @ drop 20 pkt"
    using take_drop_next [of 16 20 pkt] by simp
  also have "drop 20 pkt = take (ihl - 20) (drop 20 pkt) @ drop ihl pkt"
    using take_drop_next [of 20 ihl pkt] assms by simp
  also have "drop ihl pkt = take 2 (drop ihl pkt) @ drop (ihl + 2) pkt"
    using take_drop_next [of ihl "ihl + 2" pkt] by simp
  also have "drop (ihl + 2) pkt = take 2 (drop (ihl + 2) pkt) @ drop (ihl + 4) pkt"
    using take_drop_next [of "ihl + 2" "ihl + 4" pkt] by simp
  finally show ?thesis unfolding packet_of_def .
qed

lemma copy_to_at: "pkt = a @ s @ r \<Longrightarrow> length a = i \<Longrightarrow> length s = length src \<Longrightarrow> j = i + length src \<Longrightarrow>
    copy_to pkt i j src = Some (a @ src @ r)"
  by (simp add: copy_to_def)

lemma put16_at: "pkt = a @ s @ r \<Longrightarrow> length a = i \<Longrightarrow> length s = 2 \<Longrightarrow> put16 pkt i v = Some (a @ port_bytes v @ r)"
  unfolding put16_def port_bytes_def by (rule copy_to_at [of _ _ s]) simp_all

lemma set_src:
  "length pre = 12 \<Longrightarrow> length s = 4 \<Longrightarrow> length src = 4 \<Longrightarrow>
   copy_to (packet_of pre s d opts sp dp rest) 12 16 src = Some (packet_of pre src d opts sp dp rest)"
  unfolding packet_of_def by (rule copy_to_at [of _ pre s]) simp_all

lemma set_dst:
  "length pre = 12 \<Longrightarrow> length s = 4 \<Longrightarrow> length d = 4 \<Longrightarrow> length dst = 4 \<Longrightarrow>
   copy_to (packet_of pre s d opts sp dp rest) 16 20 dst = Some (packet_of pre s dst opts sp dp rest)"
  unfolding packet_of_def using copy_to_at [of _ "pre @ s" d] by simp

lemma set_sport:
  "length pre + length s + length d + length opts = ihl \<Longrightarrow> length sp = 2 \<Longrightarrow>
   put16 (packet_of pre s d opts sp dp rest) ihl p = Some (packet_of pre s d opts (port_bytes p) dp rest)"
  unfolding packet_of_def using put16_at [of _ "pre @ s @ d @ opts" sp] by simp

lemma set_dport:
  "length pre + length s + length d + length opts + length sp = i \<Longrightarrow> length dp = 2 \<Longrightarrow>
   put16 (packet_of pre s d opts sp dp rest) i p = Some (packet_of pre s d opts sp (port_bytes p) rest)"
  unfolding packet_of_def using put16_at [of _ "pre @ s @ d @ opts @ sp" dp] by simp

lemma length_port_bytes [simp]: "length (port_bytes p) = 2"
  by (simp add: port_bytes_def)

lemma length_loopbackV4 [simp]: "length loopbackV4 = 4"
  by (simp add: loopbackV4_def)

lemma with_tuple_packet:
  "length pre = 12 \<Longrightarrow> length s = 4 \<Longrightarrow> length d = 4 \<Longrightarrow> ihl = 20 + length opts \<Longrightarrow> length sp = 2 \<Longrightarrow> length dp = 2 \<Longrightarrow>
   with_tuple (packet_of pre s d opts sp dp rest) ihl src dst p q =
     packet_of pre src dst opts (port_bytes p) (port_bytes q) rest"
  by (simp add: with_tuple_def packet_of_def)

lemma length_with_tuple:
  "20 \<le> ihl \<Longrightarrow> ihl + 4 \<le> length pkt \<Longrightarrow> length src = 4 \<Longrightarrow> length dst = 4 \<Longrightarrow>
   length (with_tuple pkt ihl src dst p q) = length pkt"
  by (simp add: with_tuple_def)

lemma rewriteHijack_tuple:
  assumes "20 \<le> ihl" "ihl + 4 \<le> length pkt"
  shows "rewriteHijack pkt addr ihl mp tp = Some (with_tuple pkt ihl loopbackV4 loopbackV4 mp tp,
     addr\<lparr>wa_Bits := wa_Bits addr OR (flagOutbound OR flagLoopback)\<rparr>)"
  by (subst (1 2) packet_parts [OF assms(1)])
    (use assms in \<open>simp add: rewriteHijack_def set_src set_dst set_sport set_dport with_tuple_packet\<close>)

lemma rewriteReply_tuple:
  assumes "20 \<le> ihl" "ihl + 4 \<le> length pkt" "To4 (OrigSrcIP t) = Some src" "To4 (OrigDstIP t) = Some dst"
  shows "rewriteReply pkt addr ihl t = Some (with_tuple pkt ihl dst src (OrigDstPort t) (OrigSrcPort t),
     addr\<lparr>wa_Bits := (if IsLoopback (OrigSrcIP t) then wa_Bits addr OR (flagOutbound OR flagLoopback)
                 else wa_Bits addr AND NOT (flagOutbound OR flagLoopback)),
          wa_IfIdx := OrigIfIdx t, wa_SubIfIdx := OrigSubIfIdx t\<rparr>)"
proof -
  note len = length_To4 [OF assms(3)] length_To4 [OF assms(4)]
  show ?thesis
    by (subst (1 2) packet_parts [OF assms(1)])
      (use assms len in \<open>simp add: rewriteReply_def to4_bytes_def set_src set_dst set_sport set_dport with_tuple_packet\<close>)
qed

lemma with_tuple_twice:
  assumes "20 \<le> ihl" "ihl + 4 \<le> length pkt" "length src = 4" "length dst = 4"
  shows "with_tuple (with_tuple pkt ihl src dst p q) ihl src' dst' p' q' = with_tuple pkt ihl src' dst' p' q'"
  by (subst (1 2) packet_parts [OF assms(1)])
    (use assms in \<open>simp add: with_tuple_packet\<close>)

lemma put_back_port: "i + 2 \<le> length pkt \<Longrightarrow> port_bytes (word16 (pkt ! i) (pkt ! Suc i)) = take 2 (drop i pkt)"
  by (simp add: port_bytes_def take_Suc_conv_app_nth numeral_2_eq_2 hd_drop_conv_nth)

text \<open>The fields of a rewritten packet, as the code reads them.\<close>

lemma be16_at_port: "pkt = pre @ port_bytes p @ post \<Longrightarrow> length pre = i \<Longrightarrow> be16_at pkt i = Some p"
  by (simp add: be16_at_Some port_bytes_def nth_append)

lemma with_tuple_fields:
  assumes "20 \<le> ihl" "ihl + 4 \<le> length pkt" "length src = 4" "length dst = 4"
  shows "take 4 (drop 12 (with_tuple pkt ihl src dst p q)) = src"
    "take 4 (drop 16 (with_tuple pkt ihl src dst p q)) = dst"
    "be16_at (with_tuple pkt ihl src dst p q) ihl = Some p"
    "be16_at (with_tuple pkt ihl src dst p q) (ihl + 2) = Some q"
proof -
  let ?pre = "take 12 pkt @ src @ dst @ take (ihl - 20) (drop 20 pkt)"
  show "take 4 (drop 12 (with_tuple pkt ihl src dst p q)) = src"
    "take 4 (drop 16 (with_tuple pkt ihl src dst p q)) = dst"
    using assms by (simp_all add: with_tuple_def)
  show "be16_at (with_tuple pkt ihl src dst p q) ihl = Some p"
    using assms by (intro be16_at_port [of _ ?pre]) (simp_all add: with_tuple_def)
  show "be16_at (with_tuple pkt ihl src dst p q) (ihl + 2) = Some q"
    using assms by (intro be16_at_port [of _ "?pre @ port_bytes p"]) (simp_all add: with_tuple_def)
qed

lemma with_tuple_head:
  "20 \<le> ihl \<Longrightarrow> ihl + 4 \<le> length pkt \<Longrightarrow> i < 12 \<Longrightarrow> with_tuple pkt ihl src dst p q ! i = pkt ! i"
  by (simp add: with_tuple_def nth_append)

lemma with_tuple_tail:
  "20 \<le> ihl \<Longrightarrow> ihl + 4 \<le> length pkt \<Longrightarrow> length src = 4 \<Longrightarrow> length dst = 4 \<Longrightarrow>
   drop (ihl + 4) (with_tuple pkt ihl src dst p q) = drop (ihl + 4) pkt"
  by (simp add: with_tuple_def)

end
