(* ===== verification/ProcTables.thy ===== *)
theory ProcTables
  imports GoNet
begin

text \<open>
  Reading the Windows connection tables and process names (\<open>internal/process/table_windows.go\<close>, and
  \<open>queryUTF16WithRetry\<close>, \<open>processName\<close>, \<open>ntohs\<close> and the row loops of \<open>process_windows.go\<close>,
  \<open>ipv6_windows.go\<close>, \<open>ipv6refresh_windows.go\<close>). The system calls are parameters: what each returns
  and writes into the buffer it is given.
\<close>

section \<open>Two-step table query\<close>

type_synonym u64 = "64 word"

definition errorInsufficientBuffer :: u64 where "errorInsufficientBuffer = 122"
definition maxTableAttempts :: nat where "maxTableAttempts = 4"

text \<open>
  \<open>GetExtendedTcpTable\<close> and \<open>GetExtendedUdpTable\<close> with their constant arguments: what the size probe
  returns and stores in the size, and what the n-th fetch returns, writes into the buffer of the
  given size and stores in the size.
\<close>

record win_table =
  wt_probe :: "u64 \<times> u32"
  wt_fetch :: "nat \<Rightarrow> u32 \<Rightarrow> u64 \<times> byte list \<times> u32"

datatype query_error = ProbeFailed u64 | FetchFailed u64 | KeptGrowing u32 nat

text \<open>\<open>make([]byte, size)\<close> and what a call wrote over its start.\<close>

definition filled :: "nat \<Rightarrow> byte list \<Rightarrow> byte list" where
  "filled sz data = take sz data @ replicate (sz - length data) 0"

function fetch_attempt :: "(nat \<Rightarrow> u32 \<Rightarrow> u64 \<times> byte list \<times> u32) \<Rightarrow> nat \<Rightarrow> u32 \<Rightarrow> query_error + byte list" where
  "fetch_attempt fetch attempt sz =
     (let (ret, data, need) = fetch attempt sz in
      if ret = 0 then Inr (filled (unat sz) data)
      else if ret \<noteq> errorInsufficientBuffer then Inl (FetchFailed ret)
      else if maxTableAttempts \<le> attempt \<or> need \<le> sz then Inl (KeptGrowing need attempt)
      else fetch_attempt fetch (attempt + 1) need)"
  by pat_completeness auto

termination
  by (relation "measure (\<lambda>(fetch, attempt, sz). maxTableAttempts - attempt)") auto

declare fetch_attempt.simps [simp del]

definition fetchWithRetry :: "u32 \<Rightarrow> (nat \<Rightarrow> u32 \<Rightarrow> u64 \<times> byte list \<times> u32) \<Rightarrow> query_error + byte list" where
  "fetchWithRetry sz fetch = fetch_attempt fetch 1 sz"

definition queryWinTable :: "win_table \<Rightarrow> query_error + byte list" where
  "queryWinTable proc =
     (let (ret, sz) = wt_probe proc in
      if ret \<noteq> 0 \<and> (ret \<noteq> errorInsufficientBuffer \<or> sz = 0) then Inl (ProbeFailed ret)
      else if sz = 0 then Inr []
      else fetchWithRetry sz (wt_fetch proc))"

section \<open>Process names\<close>

definition maxUTF16Buffer :: nat where "maxUTF16Buffer = 32768"
definition maxPath :: nat where "maxPath = 260"

text \<open>
  What \<open>QueryFullProcessImageNameW\<close> does on a buffer of the given number of characters: whether it
  succeeded, what it wrote, the count it stored and the error code. A doubling of 0 stays 0, so the
  loop may run forever: \<open>None\<close>.
\<close>

type_synonym name_call = "nat \<Rightarrow> bool \<times> u16 list \<times> u32 \<times> u64"

definition filled16 :: "nat \<Rightarrow> u16 list \<Rightarrow> u16 list" where
  "filled16 sz data = take sz data @ replicate (sz - length data) 0"

partial_function (option) queryUTF16WithRetry :: "name_call \<Rightarrow> nat \<Rightarrow> (u16 list \<times> u32) option option" where
  "queryUTF16WithRetry call sz =
     (case call sz of (ok, data, need, err) \<Rightarrow>
      if ok then Some (Some (filled16 sz data, if of_nat sz < need then of_nat sz else need))
      else if err \<noteq> errorInsufficientBuffer \<or> maxUTF16Buffer \<le> sz then Some None
      else queryUTF16WithRetry call (sz * 2))"

text \<open>
  \<open>syscall.UTF16ToString\<close>: up to the first NUL, surrogate pairs joined, every code point (a lone
  surrogate too) in the one to four bytes of its UTF-8 form.
\<close>

fun code_points :: "u16 list \<Rightarrow> nat list" where
  "code_points [] = []"
| "code_points [w] = [unat w]"
| "code_points (w # v # ws) =
     (if 0xD800 \<le> w \<and> w < 0xDC00 \<and> 0xDC00 \<le> v \<and> v < 0xE000
      then (0x10000 + (unat w - 0xD800) * 0x400 + (unat v - 0xDC00)) # code_points ws
      else unat w # code_points (v # ws))"

definition utf8 :: "nat \<Rightarrow> string" where
  "utf8 n = map char_of
     (if n < 0x80 then [n]
      else if n < 0x800 then [0xC0 + n div 64, 0x80 + n mod 64]
      else if n < 0x10000 then [0xE0 + n div 4096, 0x80 + n div 64 mod 64, 0x80 + n mod 64]
      else [0xF0 + n div 262144, 0x80 + n div 4096 mod 64, 0x80 + n div 64 mod 64, 0x80 + n mod 64])"

definition UTF16ToString :: "u16 list \<Rightarrow> string" where
  "UTF16ToString s = concat (map utf8 (code_points (takeWhile (\<lambda>w. w \<noteq> 0) s)))"

text \<open>The part of a path after the last backslash or slash.\<close>

definition base_name :: "string \<Rightarrow> string" where
  "base_name path = rev (takeWhile (\<lambda>c. c \<noteq> CHR 0x5C \<and> c \<noteq> CHR ''/'') (rev path))"

text \<open>
  The process calls: the handle \<open>OpenProcess\<close> gives for a pid (0 when it fails), and the image name
  query on a handle.
\<close>

record process_api =
  pa_open :: "u32 \<Rightarrow> u64"
  pa_query :: "u64 \<Rightarrow> name_call"

definition processName :: "process_api \<Rightarrow> u32 \<Rightarrow> string option" where
  "processName api pid =
     (if pid = 0 then Some '''' else
      let ret = pa_open api pid in
      if ret = 0 then Some '''' else do {
        r \<leftarrow> queryUTF16WithRetry (pa_query api ret) maxPath;
        case r of None \<Rightarrow> Some ''''
        | Some (buf, n) \<Rightarrow> do {
            b \<leftarrow> subslice buf 0 (unat n);
            Some (base_name (UTF16ToString b)) }
      })"

section \<open>Rows of a table\<close>

definition ntohs :: "u16 \<Rightarrow> u16" where
  "ntohs v = push_bit 8 v OR drop_bit 8 v"

text \<open>
  \<open>*(*uint32)(unsafe.Pointer(&b[i]))\<close> on a little-endian machine. Go bounds only the index; a read
  that runs past the slice has no defined result and is \<open>None\<close> here, like a panic.
\<close>

definition peek32 :: "byte list \<Rightarrow> nat \<Rightarrow> u32 option" where
  "peek32 = le32_at"

text \<open>A port is stored in network order in the low half of a double word.\<close>

definition row_port :: "u32 \<Rightarrow> u16" where
  "row_port w = ntohs (ucast w)"

lemma unat_step:
  assumes "n < (count :: u32)"
  shows "unat (n + 1) = Suc (unat n)"
proof -
  have "unat count < 4294967296"
    using unsigned_less [of count] by simp
  with assms show ?thesis
    by (simp add: word_less_nat_alt unat_word_ariths)
qed

text \<open>
  The loop the four parsers share: \<open>count\<close> rows of \<open>rowSize\<close> bytes after a four-byte header, up to
  the first that does not fit, with the offsets in 32-bit arithmetic.
\<close>

function row_loop :: "u32 \<Rightarrow> byte list \<Rightarrow> u32 \<Rightarrow> (byte list \<Rightarrow> 's \<Rightarrow> 's option) \<Rightarrow> u32 \<Rightarrow> 's \<Rightarrow> 's option" where
  "row_loop rowSize buf count body n s =
     (if n < count then
        let off = 4 + n * rowSize in
        if of_nat (length buf) < off + rowSize then Some s
        else do {
          row \<leftarrow> subslice buf (unat off) (unat (off + rowSize));
          s' \<leftarrow> body row s;
          row_loop rowSize buf count body (n + 1) s'
        }
      else Some s)"
  by pat_completeness auto

termination
  by (relation "measure (\<lambda>(rowSize, buf, count, body, n, s). unat count - unat n)")
    (auto simp: unat_step word_less_nat_alt intro!: diff_less_mono2)

declare row_loop.simps [simp del]

section \<open>What the loops compute\<close>

text \<open>The requests of a growing table: the size the n-th attempt is made with.\<close>

primrec grown :: "(nat \<Rightarrow> u32 \<Rightarrow> u64 \<times> byte list \<times> u32) \<Rightarrow> nat \<Rightarrow> u32 \<Rightarrow> nat \<Rightarrow> u32 option" where
  "grown fetch attempt sz 0 = Some sz"
| "grown fetch attempt sz (Suc k) =
     (let (ret, data, need) = fetch attempt sz in
      if ret = errorInsufficientBuffer \<and> sz < need then grown fetch (attempt + 1) need k else None)"

lemma length_filled [simp]: "length (filled sz data) = sz"
  by (simp add: filled_def)

lemma length_filled16 [simp]: "length (filled16 sz data) = sz"
  by (simp add: filled16_def)

text \<open>The attempt that brings the table: it is the k-th after \<open>attempt\<close> and returns \<open>buf\<close>.\<close>

definition brings :: "(nat \<Rightarrow> u32 \<Rightarrow> u64 \<times> byte list \<times> u32) \<Rightarrow> nat \<Rightarrow> u32 \<Rightarrow> byte list \<Rightarrow> nat \<Rightarrow> bool" where
  "brings fetch attempt sz buf k \<longleftrightarrow> (case grown fetch attempt sz k of None \<Rightarrow> False
     | Some sz' \<Rightarrow> (let (ret, data, need) = fetch (attempt + k) sz' in ret = 0 \<and> buf = filled (unat sz') data))"

lemma brings_0: "fetch attempt sz = (ret, data, need) \<Longrightarrow>
    brings fetch attempt sz buf 0 \<longleftrightarrow> ret = 0 \<and> buf = filled (unat sz) data"
  by (simp add: brings_def)

lemma brings_Suc: "fetch attempt sz = (ret, data, need) \<Longrightarrow>
    brings fetch attempt sz buf (Suc k) \<longleftrightarrow>
      ret = errorInsufficientBuffer \<and> sz < need \<and> brings fetch (attempt + 1) need buf k"
  by (auto simp: brings_def split: option.splits)

lemma fetch_attempt_Inr:
  "attempt \<le> maxTableAttempts \<Longrightarrow>
   fetch_attempt fetch attempt sz = Inr buf \<longleftrightarrow>
     (\<exists>k. attempt + k \<le> maxTableAttempts \<and> brings fetch attempt sz buf k)"
proof (induction "maxTableAttempts - attempt" arbitrary: attempt sz)
  case 0
  obtain ret data need where f: "fetch attempt sz = (ret, data, need)"
    by (cases "fetch attempt sz") auto
  from 0 have a: "maxTableAttempts \<le> attempt" by simp
  then have "attempt + k \<le> maxTableAttempts \<longleftrightarrow> k = 0" for k using 0 by auto
  moreover have "fetch_attempt fetch attempt sz = Inr buf \<longleftrightarrow> ret = 0 \<and> filled (unat sz) data = buf"
    using a by (simp add: fetch_attempt.simps [of fetch attempt sz] f)
  ultimately show ?case
    using brings_0 [of fetch attempt sz, OF f] by auto
next
  case (Suc m)
  obtain ret data need where f: "fetch attempt sz = (ret, data, need)"
    by (cases "fetch attempt sz") auto
  have IH: "fetch_attempt fetch (attempt + 1) need = Inr buf \<longleftrightarrow>
      (\<exists>k. attempt + 1 + k \<le> maxTableAttempts \<and> brings fetch (attempt + 1) need buf k)"
    using Suc.hyps(2) by (intro Suc.hyps(1)) simp_all
  have split: "(\<exists>k. attempt + k \<le> maxTableAttempts \<and> brings fetch attempt sz buf k) \<longleftrightarrow>
      brings fetch attempt sz buf 0 \<or> (\<exists>k. attempt + Suc k \<le> maxTableAttempts \<and> brings fetch attempt sz buf (Suc k))"
    using Suc.prems by (metis add.right_neutral not0_implies_Suc)
  have e: "errorInsufficientBuffer \<noteq> 0" by (simp add: errorInsufficientBuffer_def)
  have lt: "\<not> maxTableAttempts \<le> attempt" using Suc.hyps(2) by simp
  have step: "fetch_attempt fetch attempt sz = Inr buf \<longleftrightarrow>
      (if ret = 0 then filled (unat sz) data = buf
       else ret = errorInsufficientBuffer \<and> sz < need \<and> fetch_attempt fetch (attempt + 1) need = Inr buf)"
    using lt by (simp add: fetch_attempt.simps [of fetch attempt sz] f linorder_not_le) (auto simp: linorder_not_le [symmetric])
  show ?case
    unfolding split brings_0 [of fetch attempt sz, OF f] brings_Suc [of fetch attempt sz, OF f] step IH
    using e by (simp add: ac_simps) blast
qed

lemma queryUTF16_fits:
  assumes "0 < sz"
  shows "\<exists>r. queryUTF16WithRetry call sz = Some r \<and>
     (\<forall>buf n. r = Some (buf, n) \<longrightarrow>
        (\<exists>k. length buf = sz * 2 ^ k \<and> (0 < k \<longrightarrow> length buf < 2 * maxUTF16Buffer)) \<and> unat n \<le> length buf)"
  using assms
proof (induction "maxUTF16Buffer - sz" arbitrary: sz rule: less_induct)
  case less
  obtain ok data need err where c: "call sz = (ok, data, need, err)"
    by (cases "call sz") auto
  note unfold = queryUTF16WithRetry.simps [of call sz] c
  show ?case
  proof (cases "ok \<or> err \<noteq> errorInsufficientBuffer \<or> maxUTF16Buffer \<le> sz")
    case True
    have "unat (if of_nat sz < need then of_nat sz else need) \<le> sz"
    proof (cases "of_nat sz < need")
      case True
      then show ?thesis by (simp add: unat_of_nat)
    next
      case False
      then have "unat need \<le> unat (of_nat sz :: u32)"
        by (simp add: word_le_nat_alt linorder_not_less)
      also have "\<dots> \<le> sz" by (simp add: unat_of_nat)
      finally show ?thesis using False by simp
    qed
    moreover have "\<exists>k. sz = sz * 2 ^ k \<and> (0 < k \<longrightarrow> sz < 2 * maxUTF16Buffer)"
      by (intro exI [of _ 0]) simp
    ultimately show ?thesis using True by (auto simp: unfold)
  next
    case False
    then have "maxUTF16Buffer - sz * 2 < maxUTF16Buffer - sz" "0 < sz * 2"
      using less.prems by auto
    from less.hyps [OF this] obtain r where r: "queryUTF16WithRetry call (sz * 2) = Some r"
      and ok: "\<And>buf n. r = Some (buf, n) \<Longrightarrow>
        (\<exists>k. length buf = sz * 2 * 2 ^ k \<and> (0 < k \<longrightarrow> length buf < 2 * maxUTF16Buffer)) \<and> unat n \<le> length buf"
      by blast
    have "(\<exists>k. length buf = sz * 2 ^ k \<and> (0 < k \<longrightarrow> length buf < 2 * maxUTF16Buffer)) \<and> unat n \<le> length buf"
      if b: "r = Some (buf, n)" for buf n
    proof -
      obtain k where "length buf = sz * 2 * 2 ^ k" "0 < k \<longrightarrow> length buf < 2 * maxUTF16Buffer" "unat n \<le> length buf"
        using ok [OF b] by blast
      then show ?thesis
        using False by (intro conjI exI [of _ "Suc k"]) (cases k; simp)+
    qed
    with r False show ?thesis by (auto simp: unfold)
  qed
qed

lemma processName_runs: "runs (\<lambda>name. \<forall>c \<in> set name. c \<noteq> CHR 0x5C \<and> c \<noteq> CHR ''/'') (processName api pid)"
proof (cases "pid = 0 \<or> pa_open api pid = 0")
  case False
  obtain r where r: "queryUTF16WithRetry (pa_query api (pa_open api pid)) maxPath = Some r"
    and fits: "\<And>buf n. r = Some (buf, n) \<Longrightarrow> unat n \<le> length buf"
    using queryUTF16_fits [of maxPath "pa_query api (pa_open api pid)"] by (auto simp: maxPath_def)
  then show ?thesis
    using False
    by (auto simp: processName_def Let_def base_name_def runs_def slice_Some
        dest: set_takeWhileD split: option.split)
qed (auto simp: processName_def runs_def)

text \<open>The rows a buffer holds: as many as its header counts, or as fit.\<close>

definition table_rows :: "nat \<Rightarrow> byte list \<Rightarrow> nat \<Rightarrow> byte list list" where
  "table_rows R buf count =
     map (\<lambda>i. take R (drop (4 + i * R) buf)) [0..<min count ((length buf - 4) div R)]"

primrec fold_rows :: "('r \<Rightarrow> 's \<Rightarrow> 's option) \<Rightarrow> 'r list \<Rightarrow> 's \<Rightarrow> 's option" where
  "fold_rows body [] s = Some s"
| "fold_rows body (r # rs) s = do { s' \<leftarrow> body r s; fold_rows body rs s' }"

lemma row_fits:
  assumes "0 < (R :: nat)" "4 \<le> L"
  shows "n < (L - 4) div R \<longleftrightarrow> 4 + n * R + R \<le> L"
proof -
  have "n < (L - 4) div R \<longleftrightarrow> Suc n * R \<le> L - 4"
    using less_eq_div_iff_mult_less_eq [OF assms(1), of "Suc n" "L - 4"] by (simp add: Suc_le_eq)
  then show ?thesis using assms(2) by auto
qed

lemma row_loop_from:
  assumes R: "0 < unat R" "4 \<le> length buf" "length buf + unat R < 4294967296"
    and "4 + unat n * unat R \<le> length buf"
  shows "row_loop R buf count body n s =
    fold_rows body (map (\<lambda>i. take (unat R) (drop (4 + i * unat R) buf))
      [unat n..<min (unat count) ((length buf - 4) div unat R)]) s"
  using assms(4)
proof (induction "unat count - unat n" arbitrary: n s)
  case 0
  then have "\<not> n < count" "min (unat count) ((length buf - 4) div unat R) \<le> unat n"
    by (auto simp: word_less_nat_alt)
  then show ?case by (simp add: row_loop.simps [of R buf count body n])
next
  case (Suc m)
  let ?off = "4 + n * R"
  have lt: "n < count" using Suc.hyps(2) by (simp add: word_less_nat_alt)
  have "unat n * unat R < 4294967296" using Suc.prems R(3) by simp
  then have mul: "unat (n * R) = unat n * unat R" by (simp add: unat_word_ariths)
  have off: "unat ?off = 4 + unat n * unat R"
    using Suc.prems R(3) by (simp add: unat_word_ariths mul)
  have off': "unat (?off + R) = 4 + unat n * unat R + unat R"
    using Suc.prems R(3) off by (subst unat_word_ariths) simp
  have len: "unat (of_nat (length buf) :: u32) = length buf"
    using R(3) by (simp add: unat_of_nat)
  show ?case
  proof (cases "4 + unat n * unat R + unat R \<le> length buf")
    case False
    then have "of_nat (length buf) < ?off + R"
      by (simp only: word_less_nat_alt len off' linorder_not_le)
    moreover have "\<not> unat n < (length buf - 4) div unat R"
      using False row_fits [OF R(1,2), of "unat n"] by simp
    ultimately show ?thesis
      using lt by (simp add: row_loop.simps [of R buf count body n] Let_def)
  next
    case True
    then have fits: "\<not> of_nat (length buf) < ?off + R"
      by (simp add: word_less_nat_alt len off')
    have in_rows: "unat n < min (unat count) ((length buf - 4) div unat R)"
      using True lt row_fits [OF R(1,2)] by (simp add: word_less_nat_alt)
    have row: "subslice buf (unat ?off) (unat (?off + R)) = Some (take (unat R) (drop (4 + unat n * unat R) buf))"
      unfolding off off' using True by (simp add: slice_Some)
    have nxt: "unat (n + 1) = Suc (unat n)" using unat_step [OF lt] .
    have IH: "row_loop R buf count body (n + 1) s' =
        fold_rows body (map (\<lambda>i. take (unat R) (drop (4 + i * unat R) buf))
          [Suc (unat n)..<min (unat count) ((length buf - 4) div unat R)]) s'" for s'
      using Suc.hyps(1) [of "n + 1" s'] Suc.hyps(2) True unfolding nxt by simp
    show ?thesis
      unfolding upt_conv_Cons [OF in_rows] list.map fold_rows.simps IH [symmetric]
      using lt fits by (subst row_loop.simps) (simp only: row Let_def if_True if_False bind.simps)
  qed
qed

lemma row_loop_rows:
  assumes "0 < unat R" "4 \<le> length buf" "length buf + unat R < 4294967296"
  shows "row_loop R buf count body 0 s = fold_rows body (table_rows (unat R) buf (unat count)) s"
  using row_loop_from [OF assms, of 0] assms(2) by (simp add: table_rows_def)

lemma length_table_row: "row \<in> set (table_rows R buf count) \<Longrightarrow> 4 \<le> length buf \<Longrightarrow> length row = R"
proof -
  assume "row \<in> set (table_rows R buf count)" "4 \<le> length buf"
  then obtain i where i: "row = take R (drop (4 + i * R) buf)" "i < (length buf - 4) div R"
    by (auto simp: table_rows_def)
  then show "length row = R"
    using row_fits [of R "length buf" i] \<open>4 \<le> length buf\<close> by (cases "R = 0") auto
qed

lemma fold_rows_runs:
  assumes "\<And>row s. row \<in> set rs \<Longrightarrow> I s \<Longrightarrow> runs I (body row s)" "I s"
  shows "runs I (fold_rows body rs s)"
  using assms
proof (induction rs arbitrary: s)
  case (Cons r rs)
  have "runs I (body r s)" by (rule Cons.prems) (simp_all add: Cons.prems)
  then show ?case
    unfolding fold_rows.simps
    by (rule runs_bind) (rule Cons.IH, simp_all add: Cons.prems)
qed (simp add: runs_Some)

text \<open>A table as Windows lays it out: the count, the rows, and what is left of the buffer.\<close>

definition win_rows :: "byte list list \<Rightarrow> byte list \<Rightarrow> byte list" where
  "win_rows rows rest = le32 (of_nat (length rows)) @ concat rows @ rest"

lemma take_concat_row:
  "i < length rows \<Longrightarrow> (\<And>row. row \<in> set rows \<Longrightarrow> length row = R) \<Longrightarrow>
   take R (drop (i * R) (concat rows @ rest)) = rows ! i"
proof (induction rows arbitrary: i)
  case (Cons row rows)
  show ?case
  proof (cases i)
    case 0
    then show ?thesis using Cons.prems by simp
  next
    case (Suc j)
    have "drop (i * R) (concat (row # rows) @ rest) = drop (j * R) (concat rows @ rest)"
      using Cons.prems(2) [of row] Suc by simp
    then show ?thesis using Cons Suc by simp
  qed
qed simp

lemma length_concat_rows:
  "(\<And>row. row \<in> set rows \<Longrightarrow> length row = R) \<Longrightarrow> length (concat rows) = length rows * R"
  by (induction rows) auto

lemma row_loop_win_rows:
  assumes R: "0 < unat R" "\<And>row. row \<in> set rows \<Longrightarrow> length row = unat R"
    and small: "length (win_rows rows rest) + unat R < 4294967296"
  shows "row_loop R (win_rows rows rest) (of_nat (length rows)) body 0 s = fold_rows body rows s"
proof -
  have len: "length (win_rows rows rest) = 4 + length rows * unat R + length rest"
    using length_concat_rows [of rows "unat R", OF R(2)] by (simp add: win_rows_def)
  have "length rows \<le> length rows * unat R" using R(1) by simp
  then have "length rows < 4294967296" using small len by linarith
  then have cnt: "unat (of_nat (length rows) :: u32) = length rows"
    by (simp add: unat_of_nat)
  have fit: "length rows \<le> (length (win_rows rows rest) - 4) div unat R"
    using R(1) len by (simp add: less_eq_div_iff_mult_less_eq)
  have "table_rows (unat R) (win_rows rows rest) (length rows) = map (\<lambda>i. rows ! i) [0..<length rows]"
    unfolding table_rows_def min_absorb1 [OF fit]
  proof (rule map_cong [OF refl])
    fix i assume "i \<in> set [0..<length rows]"
    then show "take (unat R) (drop (4 + i * unat R) (win_rows rows rest)) = rows ! i"
      using take_concat_row [of i rows "unat R" rest] R(2) by (simp add: win_rows_def)
  qed
  then show ?thesis
    using row_loop_rows [OF R(1) _ small, of "of_nat (length rows)" body s] len cnt
    by (simp add: map_nth)
qed

lemma win_rows_count: "peek32 (win_rows rows rest) 0 = Some (of_nat (length rows))"
  unfolding peek32_def by (rule le32_at_le32 [of _ "[]"]) (simp_all add: win_rows_def)

lemma win_rows_nonempty [simp]: "win_rows rows rest \<noteq> []"
  by (simp add: win_rows_def le32_def)

text \<open>A port field: the port in network order in the low half, whatever the high half holds.\<close>

definition port_field :: "u16 \<Rightarrow> u16 \<Rightarrow> u32" where
  "port_field junk p = push_bit 16 (ucast junk) OR ucast (ntohs p)"

lemma ntohs_ntohs [simp]: "ntohs (ntohs p) = p"
  by (rule bit_word_eqI) (auto simp: ntohs_def bit_simps)

lemma row_port_field [simp]: "row_port (port_field junk p) = p"
proof -
  have "ucast (port_field junk p) = ntohs p"
    by (rule bit_word_eqI) (auto simp: port_field_def bit_simps)
  then show ?thesis by (simp add: row_port_def)
qed

section \<open>Properties\<close>

text \<open>C39. \<open>fetchWithRetry\<close> makes at most four attempts, and returns a buffer exactly when one of them
  succeeds after attempts that all said the table had grown, each asking for strictly more than the
  one before; the buffer has the size of that last request. Anything else is an error.\<close>

theorem fetch_with_retry_succeeds_iff:
  "fetchWithRetry sz fetch = Inr buf \<longleftrightarrow> (\<exists>k < 4. brings fetch 1 sz buf k)"
proof -
  have "Suc k \<le> maxTableAttempts \<longleftrightarrow> k < 4" for k
    by (auto simp: maxTableAttempts_def)
  then show ?thesis
    using fetch_attempt_Inr [of 1 fetch sz buf] by (simp add: fetchWithRetry_def maxTableAttempts_def)
qed

text \<open>\<open>processName\<close> returns for every pid, whatever the system answers: the doubling of the buffer
  from 260 characters ends, the count the system stored is clamped to the buffer, so no slice is
  out of range; and what it returns is a bare file name, without a backslash or a slash.\<close>

theorem process_name_returns:
  "\<exists>name. processName api pid = Some name \<and> CHR 0x5C \<notin> set name \<and> CHR ''/'' \<notin> set name"
  using processName_runs [of api pid] by (auto simp: runs_def)

end
