(* ===== verification/Resolver.thy ===== *)
theory Resolver
  imports ProcTables Interfaces
begin

text \<open>
  Which process owns a connection (\<open>internal/process/process_windows.go\<close>, \<open>udp_refresh_windows.go\<close>):
  the resolver with its two IPv4 tables and its cache of process names, the refreshes that replace
  a table, and the look-ups, which refresh on a miss. A mutex makes each access one step. The two
  clocks of a refresh are arguments; the name of a process is a function of its pid within one
  refresh, since the cache asks at most once per pid.
\<close>

section \<open>State\<close>

record Flow =
  fl_LocalIP :: u32
  fl_LocalPort :: u16
  fl_RemoteIP :: u32
  fl_RemotePort :: u16

record Entry =
  en_Flow :: Flow
  en_PID :: u32
  en_Name :: string

record UDPFlow =
  uf_LocalIP :: u32
  uf_LocalPort :: u16

record UDPEntry =
  ue_Flow :: UDPFlow
  ue_PID :: u32
  ue_Name :: string

record pidCacheEntry =
  pc_name :: string
  pc_checkedAt :: time

record Resolver =
  rs_flows :: "Flow \<rightharpoonup> Entry"
  rs_udpFlows :: "UDPFlow \<rightharpoonup> UDPEntry"
  rs_pidCache :: "u32 \<rightharpoonup> pidCacheEntry"

definition pidNameCacheTTL :: int where "pidNameCacheTTL = 2 * second"

definition NewResolver :: Resolver where
  "NewResolver = \<lparr>rs_flows = Map.empty, rs_udpFlows = Map.empty, rs_pidCache = Map.empty\<rparr>"

text \<open>What the resolver asks of the system: the four tables and the process calls.\<close>

record process_os =
  os_tcp4 :: win_table
  os_udp4 :: win_table
  os_tcp6 :: win_table
  os_udp6 :: win_table
  os_proc :: process_api

section \<open>Refreshing\<close>

definition cachedProcessName :: "u32 \<Rightarrow> time \<Rightarrow> (u32 \<Rightarrow> string option) \<Rightarrow> Resolver \<Rightarrow> (string \<times> Resolver) option" where
  "cachedProcessName pid now nameOf r =
     (if pid = 0 then Some ('''', r) else
      case rs_pidCache r pid of
        Some cached \<Rightarrow>
          if time_sub now (pc_checkedAt cached) < pidNameCacheTTL then Some (pc_name cached, r)
          else do { name \<leftarrow> nameOf pid;
            Some (name, r\<lparr>rs_pidCache := (rs_pidCache r)(pid \<mapsto> \<lparr>pc_name = name, pc_checkedAt = now\<rparr>)\<rparr>) }
      | None \<Rightarrow> do { name \<leftarrow> nameOf pid;
            Some (name, r\<lparr>rs_pidCache := (rs_pidCache r)(pid \<mapsto> \<lparr>pc_name = name, pc_checkedAt = now\<rparr>)\<rparr>) })"

text \<open>The body of the row loop of \<open>refreshTCP\<close>: closed rows are skipped.\<close>

definition tcp_row :: "(u32 \<Rightarrow> string option) \<Rightarrow> time \<Rightarrow> byte list \<Rightarrow>
    Resolver \<times> (Flow \<rightharpoonup> Entry) \<times> u32 set \<Rightarrow> (Resolver \<times> (Flow \<rightharpoonup> Entry) \<times> u32 set) option" where
  "tcp_row nameOf now row = (\<lambda>(r, flows, seenPIDs). do {
     state \<leftarrow> peek32 row 0;
     if state = 1 then Some (r, flows, seenPIDs) else do {
       localIP \<leftarrow> peek32 row 4;
       lp \<leftarrow> peek32 row 8;
       remoteIP \<leftarrow> peek32 row 12;
       rp \<leftarrow> peek32 row 16;
       pid \<leftarrow> peek32 row 20;
       (name, r) \<leftarrow> cachedProcessName pid now nameOf r;
       let flow = \<lparr>fl_LocalIP = localIP, fl_LocalPort = row_port lp, fl_RemoteIP = remoteIP, fl_RemotePort = row_port rp\<rparr>;
       Some (r, flows(flow \<mapsto> \<lparr>en_Flow = flow, en_PID = pid, en_Name = name\<rparr>), insert pid seenPIDs) } })"

text \<open>The loop over \<open>pidCache\<close> deletes as it ranges: \<open>map_keep\<close>, whatever the order.\<close>

definition refreshTCP :: "query_error + byte list \<Rightarrow> (u32 \<Rightarrow> string option) \<Rightarrow> time \<Rightarrow> Resolver \<Rightarrow>
    (query_error option \<times> Resolver) option" where
  "refreshTCP query nameOf now r =
     (case query of Inl err \<Rightarrow> Some (Some err, r)
      | Inr buf \<Rightarrow>
          if buf = [] then Some (None, r\<lparr>rs_flows := Map.empty\<rparr>) else do {
            count \<leftarrow> peek32 buf 0;
            (r, flows, seenPIDs) \<leftarrow> row_loop 24 buf count (tcp_row nameOf now) 0 (r, Map.empty, {});
            Some (None, r\<lparr>rs_pidCache := map_keep (\<lambda>pid _. pid \<in> seenPIDs) (rs_pidCache r), rs_flows := flows\<rparr>) })"

definition udp_row :: "(u32 \<Rightarrow> string option) \<Rightarrow> time \<Rightarrow> byte list \<Rightarrow>
    Resolver \<times> (UDPFlow \<rightharpoonup> UDPEntry) \<Rightarrow> (Resolver \<times> (UDPFlow \<rightharpoonup> UDPEntry)) option" where
  "udp_row nameOf now row = (\<lambda>(r, flows). do {
     localIP \<leftarrow> peek32 row 0;
     lp \<leftarrow> peek32 row 4;
     pid \<leftarrow> peek32 row 8;
     (name, r) \<leftarrow> cachedProcessName pid now nameOf r;
     let flow = \<lparr>uf_LocalIP = localIP, uf_LocalPort = row_port lp\<rparr>;
     Some (r, flows(flow \<mapsto> \<lparr>ue_Flow = flow, ue_PID = pid, ue_Name = name\<rparr>)) })"

definition refreshUDP :: "query_error + byte list \<Rightarrow> (u32 \<Rightarrow> string option) \<Rightarrow> time \<Rightarrow> Resolver \<Rightarrow>
    (query_error option \<times> Resolver) option" where
  "refreshUDP query nameOf now r =
     (case query of Inl err \<Rightarrow> Some (Some err, r)
      | Inr buf \<Rightarrow>
          if buf = [] then Some (None, r\<lparr>rs_udpFlows := Map.empty\<rparr>) else do {
            count \<leftarrow> peek32 buf 0;
            (r, flows) \<leftarrow> row_loop 12 buf count (udp_row nameOf now) 0 (r, Map.empty);
            Some (None, r\<lparr>rs_udpFlows := flows\<rparr>) })"

text \<open>The error of the UDP table is dropped.\<close>

definition Refresh :: "process_os \<Rightarrow> time \<times> time \<Rightarrow> Resolver \<Rightarrow> (query_error option \<times> Resolver) option" where
  "Refresh os now r = do {
     (tcpErr, r) \<leftarrow> refreshTCP (queryWinTable (os_tcp4 os)) (processName (os_proc os)) (fst now) r;
     (_, r) \<leftarrow> refreshUDP (queryWinTable (os_udp4 os)) (processName (os_proc os)) (snd now) r;
     Some (tcpErr, r) }"

section \<open>Looking up\<close>

definition Lookup :: "Flow \<Rightarrow> Resolver \<Rightarrow> Entry option" where
  "Lookup flow r = rs_flows r flow"

definition LookupUDP :: "UDPFlow \<Rightarrow> Resolver \<Rightarrow> UDPEntry option" where
  "LookupUDP flow r = (case rs_udpFlows r flow of
      Some e \<Rightarrow> Some e
    | None \<Rightarrow> if uf_LocalIP flow \<noteq> 0 then rs_udpFlows r \<lparr>uf_LocalIP = 0, uf_LocalPort = uf_LocalPort flow\<rparr> else None)"

text \<open>
  A miss takes the fallback mutex first; \<open>wait\<close> is what other goroutines did to the resolver
  meanwhile (such as the refresh this one was about to do).
\<close>

definition LookupWithRefresh :: "process_os \<Rightarrow> time \<times> time \<Rightarrow> (Resolver \<Rightarrow> Resolver) \<Rightarrow> Flow \<Rightarrow> Resolver \<Rightarrow>
    (Entry option \<times> Resolver) option" where
  "LookupWithRefresh os now wait flow r =
     (case Lookup flow r of Some e \<Rightarrow> Some (Some e, r)
      | None \<Rightarrow> let r = wait r in
        (case Lookup flow r of Some e \<Rightarrow> Some (Some e, r)
         | None \<Rightarrow> do {
             (err, r) \<leftarrow> Refresh os now r;
             if err \<noteq> None then Some (None, r) else Some (Lookup flow r, r) }))"

definition LookupUDPWithRefresh :: "process_os \<Rightarrow> time \<times> time \<Rightarrow> (Resolver \<Rightarrow> Resolver) \<Rightarrow> UDPFlow \<Rightarrow> Resolver \<Rightarrow>
    (UDPEntry option \<times> Resolver) option" where
  "LookupUDPWithRefresh os now wait flow r =
     (case LookupUDP flow r of Some e \<Rightarrow> Some (Some e, r)
      | None \<Rightarrow> let r = wait r in
        (case LookupUDP flow r of Some e \<Rightarrow> Some (Some e, r)
         | None \<Rightarrow> do { (_, r) \<leftarrow> Refresh os now r; Some (LookupUDP flow r, r) }))"

text \<open>\<open>Snapshot\<close> lists the entries in the order the range visits the keys.\<close>

definition Snapshot :: "Flow list \<Rightarrow> Resolver \<Rightarrow> Entry list" where
  "Snapshot ks r = List.map_filter (rs_flows r) ks"

section \<open>The name cache\<close>

definition rs_view :: "Resolver \<Rightarrow> u32 \<Rightarrow> (string \<times> time) option" where
  "rs_view r pid = map_option (\<lambda>e. (pc_name e, pc_checkedAt e)) (rs_pidCache r pid)"

interpretation names: name_cache rs_view cachedProcessName pidNameCacheTTL
proof
  show "0 < pidNameCacheTTL" by (simp add: pidNameCacheTTL_def)
  show "cachedProcessName 0 now resolve s = Some ([], s)" for now resolve s
    by (simp add: cachedProcessName_def)
  show "cachedProcessName pid now resolve s = Some (n, s)"
    if "pid \<noteq> 0" "rs_view s pid = Some (n, t)" "time_sub now t < pidNameCacheTTL" for pid s n t now resolve
    using that by (auto simp: cachedProcessName_def rs_view_def)
  show "\<exists>s'. cachedProcessName pid now resolve s = Some (n, s') \<and> rs_view s' = (rs_view s)(pid \<mapsto> (n, now))"
    if "pid \<noteq> 0" "\<And>n t. rs_view s pid = Some (n, t) \<Longrightarrow> pidNameCacheTTL \<le> time_sub now t" "resolve pid = Some n"
    for pid s now resolve n
    using that(1,3) that(2) [of "pc_name (the (rs_pidCache s pid))" "pc_checkedAt (the (rs_pidCache s pid))"]
    by (auto simp: cachedProcessName_def rs_view_def fun_eq_iff split: option.split)
  show "cachedProcessName pid now resolve s = None"
    if "pid \<noteq> 0" "\<And>n t. rs_view s pid = Some (n, t) \<Longrightarrow> pidNameCacheTTL \<le> time_sub now t" "resolve pid = None"
    for pid s now resolve
    using that(1,3) that(2) [of "pc_name (the (rs_pidCache s pid))" "pc_checkedAt (the (rs_pidCache s pid))"]
    by (auto simp: cachedProcessName_def rs_view_def split: option.split)
qed

lemma cachedProcessName_frame:
  "cachedProcessName pid now nameOf r = Some (n, r') \<Longrightarrow>
   rs_flows r' = rs_flows r \<and> rs_udpFlows r' = rs_udpFlows r"
  by (auto simp: cachedProcessName_def bind_eq_Some_conv split: if_splits option.splits)

lemma name_rows_frame:
  "names.name_rows now nameOf rows r = Some (xs, r') \<Longrightarrow>
   rs_flows r' = rs_flows r \<and> rs_udpFlows r' = rs_udpFlows r"
  by (induction rows arbitrary: r xs)
    (auto split: option.splits prod.splits dest: cachedProcessName_frame)

section \<open>A refreshed table\<close>

text \<open>
  A row of the TCP table (\<open>MIB_TCPROW_OWNER_PID\<close>): state, local address and port, remote address and
  port, pid. The two other words are the unused halves of the port fields.
\<close>

type_synonym tcp4_row = "u32 \<times> Flow \<times> u32 \<times> u16 \<times> u16"

definition tcp4_bytes :: "tcp4_row \<Rightarrow> byte list" where
  "tcp4_bytes = (\<lambda>(state, flow, pid, junk, junk').
     le32 state @ le32 (fl_LocalIP flow) @ le32 (port_field junk (fl_LocalPort flow)) @
     le32 (fl_RemoteIP flow) @ le32 (port_field junk' (fl_RemotePort flow)) @ le32 pid)"

definition live_rows :: "tcp4_row list \<Rightarrow> (Flow \<times> u32) list" where
  "live_rows rows = map (\<lambda>(state, flow, pid, _). (flow, pid)) (filter (\<lambda>(state, _). state \<noteq> 1) rows)"

definition entry_of :: "Flow \<times> u32 \<times> string \<Rightarrow> Flow \<times> Entry" where
  "entry_of = (\<lambda>(flow, pid, name). (flow, \<lparr>en_Flow = flow, en_PID = pid, en_Name = name\<rparr>))"

lemma length_tcp4_bytes [simp]: "length (tcp4_bytes row) = 24"
  by (simp add: tcp4_bytes_def split: prod.split)

lemma tcp4_fields:
  "peek32 (tcp4_bytes (state, flow, pid, j, j')) 0 = Some state"
  "peek32 (tcp4_bytes (state, flow, pid, j, j')) 4 = Some (fl_LocalIP flow)"
  "peek32 (tcp4_bytes (state, flow, pid, j, j')) 8 = Some (port_field j (fl_LocalPort flow))"
  "peek32 (tcp4_bytes (state, flow, pid, j, j')) 12 = Some (fl_RemoteIP flow)"
  "peek32 (tcp4_bytes (state, flow, pid, j, j')) 16 = Some (port_field j' (fl_RemotePort flow))"
  "peek32 (tcp4_bytes (state, flow, pid, j, j')) 20 = Some pid"
  unfolding peek32_def tcp4_bytes_def prod.case
  by (rule le32_at_le32 [of _ "[]"], simp, simp)
    (rule le32_at_le32 [of _ "le32 _"], simp, simp,
     rule le32_at_le32 [of _ "le32 _ @ le32 _"], simp, simp,
     rule le32_at_le32 [of _ "le32 _ @ le32 _ @ le32 _"], simp, simp,
     rule le32_at_le32 [of _ "le32 _ @ le32 _ @ le32 _ @ le32 _"], simp, simp,
     rule le32_at_le32 [of _ "le32 _ @ le32 _ @ le32 _ @ le32 _ @ le32 _" _ "[]"], simp, simp)

lemma tcp_row_bytes:
  "tcp_row nameOf now (tcp4_bytes (state, flow, pid, j, j')) (r, flows, seen) =
     (if state = 1 then Some (r, flows, seen) else
      case cachedProcessName pid now nameOf r of None \<Rightarrow> None
      | Some (name, r) \<Rightarrow> Some (r, flows(flow \<mapsto> \<lparr>en_Flow = flow, en_PID = pid, en_Name = name\<rparr>), insert pid seen))"
  by (cases flow) (simp add: tcp_row_def tcp4_fields Let_def split: option.split)

lemma tcp_rows_fold:
  "fold_rows (tcp_row nameOf now) (map tcp4_bytes rows) (r, flows, seen) =
     (case names.name_rows now nameOf (live_rows rows) r of None \<Rightarrow> None
      | Some (xs, r') \<Rightarrow> Some (r', flows ++ map_of (rev (map entry_of xs)), seen \<union> set (map snd (live_rows rows))))"
proof (induction rows arbitrary: r flows seen)
  case (Cons row rows)
  obtain state flow pid j j' where row: "row = (state, flow, pid, j, j')"
    by (cases row) auto
  show ?case
  proof (cases "state = 1")
    case True
    then have live: "live_rows (row # rows) = live_rows rows"
      by (simp add: row live_rows_def)
    show ?thesis
      unfolding live using True Cons.IH by (simp add: row tcp_row_bytes)
  next
    case False
    then have live: "live_rows (row # rows) = (flow, pid) # live_rows rows"
      by (simp add: row live_rows_def)
    show ?thesis
      unfolding live using False Cons.IH
      by (auto simp: row tcp_row_bytes entry_of_def split: option.split)
  qed
qed (simp add: live_rows_def)

lemma map_of_entries:
  assumes "map (\<lambda>(k, pid, n). (k, pid)) xs = rows"
  shows "map_option en_PID (map_of (rev (map entry_of xs)) f) = map_of (rev rows) f"
proof -
  have "map (\<lambda>(k, e). (k, en_PID e)) (rev (map entry_of xs)) = rev rows"
    unfolding assms [symmetric] by (simp add: rev_map entry_of_def case_prod_unfold)
  then show ?thesis
    by (metis map_of_map comp_apply)
qed

lemma refreshTCP_rows:
  assumes "length (win_rows (map tcp4_bytes rows) rest) + 24 < 4294967296"
  shows "refreshTCP (Inr (win_rows (map tcp4_bytes rows) rest)) nameOf now r =
    (case names.name_rows now nameOf (live_rows rows) r of None \<Rightarrow> None
     | Some (xs, r') \<Rightarrow> Some (None, r'\<lparr>rs_pidCache :=
         map_keep (\<lambda>pid _. pid \<in> set (map snd (live_rows rows))) (rs_pidCache r'),
         rs_flows := map_of (rev (map entry_of xs))\<rparr>))"
proof -
  have loop: "row_loop 24 (win_rows (map tcp4_bytes rows) rest) (of_nat (length rows)) (tcp_row nameOf now) 0
      (r, Map.empty, {}) = fold_rows (tcp_row nameOf now) (map tcp4_bytes rows) (r, Map.empty, {})"
    using assms by (subst length_map [of tcp4_bytes, symmetric], intro row_loop_win_rows) auto
  have count: "peek32 (win_rows (map tcp4_bytes rows) rest) 0 = Some (of_nat (length rows))"
    using win_rows_count [of "map tcp4_bytes rows" rest] by simp
  show ?thesis
    by (simp add: refreshTCP_def count loop tcp_rows_fold split: option.split)
qed

lemma pc_ex: "(\<exists>t. z = \<lparr>pc_name = n, pc_checkedAt = t\<rparr> \<and> P t) \<longleftrightarrow> pc_name z = n \<and> P (pc_checkedAt z)"
  by (cases z) auto

section \<open>Properties\<close>

text \<open>C32. \<open>refreshTCP\<close> on a table of rows in the system's layout: every flow of a row that is not closed
  is in the new table, with the pid of the last such row, and nothing else is; each entry is stored
  under its own flow, and its name is the one the cache holds for its pid, not older than two
  seconds (so rows of one process agree on its name; pid 0 has none). The UDP table is untouched.\<close>

theorem refresh_tcp_exact:
  assumes "length (win_rows (map tcp4_bytes rows) rest) + 24 < 4294967296" "\<And>pid. nameOf pid \<noteq> None"
  shows "\<exists>r'. refreshTCP (Inr (win_rows (map tcp4_bytes rows) rest)) nameOf now r = Some (None, r') \<and>
    (\<forall>f. map_option en_PID (rs_flows r' f) = map_of (rev (live_rows rows)) f) \<and>
    (\<forall>f e. rs_flows r' f = Some e \<longrightarrow> en_Flow e = f \<and>
       (if en_PID e = 0 then en_Name e = ''''
        else \<exists>t. rs_pidCache r' (en_PID e) = Some \<lparr>pc_name = en_Name e, pc_checkedAt = t\<rparr> \<and> time_sub now t < 2 * second)) \<and>
    rs_udpFlows r' = rs_udpFlows r"
proof -
  obtain xs r1 where n: "names.name_rows now nameOf (live_rows rows) r = Some (xs, r1)"
    and xs: "map (\<lambda>(k, pid, n). (k, pid)) xs = live_rows rows"
    using names.name_rows_runs [of nameOf now "live_rows rows" r] assms(2) by blast
  have name: "names.fresh now pid name r1 \<and> pid \<in> set (map snd (live_rows rows))" if "(f, pid, name) \<in> set xs" for f pid name
    using names.name_rows_fresh [OF n that] that unfolding xs [symmetric] by force
  have entry: "en_Flow e = f \<and> (f, en_PID e, en_Name e) \<in> set xs"
    if "map_of (rev (map entry_of xs)) f = Some e" for f e
    using map_of_SomeD [OF that] by (auto simp: entry_of_def)
  obtain r2 where r2: "r2 = r1\<lparr>rs_pidCache := map_keep (\<lambda>pid _. pid \<in> set (map snd (live_rows rows))) (rs_pidCache r1),
      rs_flows := map_of (rev (map entry_of xs))\<rparr>" by simp
  have named: "if en_PID e = 0 then en_Name e = []
      else \<exists>t. rs_pidCache r2 (en_PID e) = Some \<lparr>pc_name = en_Name e, pc_checkedAt = t\<rparr> \<and> time_sub now t < 2 * second"
    if "(f, en_PID e, en_Name e) \<in> set xs" for f e
    using name [OF that] unfolding pidNameCacheTTL_def [symmetric]
    by (auto simp: names.fresh_def rs_view_def r2 pc_ex)
  have "refreshTCP (Inr (win_rows (map tcp4_bytes rows) rest)) nameOf now r = Some (None, r2)"
    unfolding refreshTCP_rows [OF assms(1)] n r2 by simp
  moreover have "map_option en_PID (rs_flows r2 f) = map_of (rev (live_rows rows)) f" for f
    using map_of_entries [OF xs] by (simp add: r2)
  moreover have "rs_udpFlows r2 = rs_udpFlows r"
    using name_rows_frame [OF n] by (simp add: r2)
  moreover have "en_Flow e = f \<and> (f, en_PID e, en_Name e) \<in> set xs" if "rs_flows r2 f = Some e" for f e
    using that by (intro entry) (simp add: r2)
  ultimately show ?thesis
    using named by blast
qed

theorem refresh_tcp_exact_witness:
  "let f = \<lparr>fl_LocalIP = 0x0100000A, fl_LocalPort = 50000, fl_RemoteIP = 0x04030201, fl_RemotePort = 443\<rparr>;
       rows = [(5, f, 7, 0, 9), (1, f\<lparr>fl_LocalPort := 1\<rparr>, 8, 0, 0)]
   in \<exists>r. refreshTCP (Inr (win_rows (map tcp4_bytes rows) [1, 2])) (\<lambda>_. Some ''a'') 0 NewResolver = Some (None, r) \<and>
      map_option en_PID (rs_flows r f) = Some 7"
proof -
  obtain f where f: "f = \<lparr>fl_LocalIP = 0x0100000A, fl_LocalPort = 50000, fl_RemoteIP = 0x04030201, fl_RemotePort = 443\<rparr>"
    by simp
  let ?rows = "[(5, f, 7, 0, 9), (1, f\<lparr>fl_LocalPort := 1\<rparr>, 8, 0, 0)] :: tcp4_row list"
  have "length (win_rows (map tcp4_bytes ?rows) [1, 2]) + 24 < 4294967296"
    by (simp add: win_rows_def)
  from refresh_tcp_exact [OF this, of "\<lambda>_. Some ''a''" 0 NewResolver] obtain r where
    r: "refreshTCP (Inr (win_rows (map tcp4_bytes ?rows) [1, 2])) (\<lambda>_. Some ''a'') 0 NewResolver = Some (None, r)"
    "\<forall>g. map_option en_PID (rs_flows r g) = map_of (rev (live_rows ?rows)) g" by blast
  have "live_rows ?rows = [(f, 7)]" by (simp add: live_rows_def)
  then have "map_option en_PID (rs_flows r f) = Some 7"
    using spec [OF r(2), of f] by simp
  with r(1) show ?thesis
    unfolding Let_def f [symmetric] by blast
qed

text \<open>A query result the refreshes can read: an error, no table, or a table with its count and offsets
  that stay below \<open>2^32\<close>.\<close>

definition readable :: "query_error + byte list \<Rightarrow> bool" where
  "readable q \<longleftrightarrow> (case q of Inl _ \<Rightarrow> True | Inr buf \<Rightarrow> buf = [] \<or> 4 \<le> length buf \<and> length buf + 24 < 4294967296)"

lemma tcp_row_runs:
  assumes "length row = 24" "\<And>pid. nameOf pid \<noteq> None"
  shows "runs (\<lambda>_. True) (tcp_row nameOf now row s)"
proof -
  have "\<exists>n r'. cachedProcessName pid now nameOf r = Some (n, r')" for pid r
    by (rule names.get_runs [OF assms(2)])
  then have n: "runs (\<lambda>_. True) (cachedProcessName pid now nameOf r)" for pid r
    by (auto simp: runs_def)
  show ?thesis
    using assms(1)
    by (auto simp: tcp_row_def peek32_def Let_def split: prod.split
        intro!: go_runs runs_bind [OF n])
qed

lemma udp_row_runs:
  assumes "length row = 12" "\<And>pid. nameOf pid \<noteq> None"
  shows "runs (\<lambda>(r, _). rs_flows r = rs_flows (fst s)) (udp_row nameOf now row s)"
proof -
  have n: "runs (\<lambda>(_, r'). rs_flows r' = rs_flows r) (cachedProcessName pid now nameOf r)" for pid r
    using names.get_runs [of nameOf pid now r, OF assms(2)] cachedProcessName_frame by (auto simp: runs_def)
  show ?thesis
    using assms(1)
    by (auto simp: udp_row_def peek32_def Let_def split: prod.split
        intro!: go_runs runs_bind [OF n])
qed

lemma refreshTCP_runs:
  assumes "readable q" "\<And>pid. nameOf pid \<noteq> None"
  shows "runs (\<lambda>(err, r'). case q of Inl e \<Rightarrow> err = Some e \<and> r' = r | Inr _ \<Rightarrow> err = None) (refreshTCP q nameOf now r)"
proof (cases q)
  case (Inr buf)
  show ?thesis
  proof (cases "buf = []")
    case False
    with assms(1) Inr have len: "4 \<le> length buf" "length buf + 24 < 4294967296"
      by (auto simp: readable_def)
    have loop: "runs (\<lambda>_. True) (row_loop 24 buf count (tcp_row nameOf now) 0 s)" for count s
      using len assms(2) length_table_row [of _ 24 buf]
      by (subst row_loop_rows) (auto intro!: fold_rows_runs tcp_row_runs)
    show ?thesis
      using len False Inr
      by (auto simp: refreshTCP_def peek32_def split: prod.split intro!: go_runs runs_bind [OF loop])
  qed (simp add: Inr refreshTCP_def runs_def)
qed (simp add: refreshTCP_def runs_def)

lemma refreshUDP_runs:
  assumes "readable q" "\<And>pid. nameOf pid \<noteq> None"
  shows "runs (\<lambda>(err, r'). rs_flows r' = rs_flows r) (refreshUDP q nameOf now r)"
proof (cases q)
  case (Inr buf)
  show ?thesis
  proof (cases "buf = []")
    case False
    with assms(1) Inr have len: "4 \<le> length buf" "length buf + 24 < 4294967296"
      by (auto simp: readable_def)
    have loop: "runs (\<lambda>(r', _). rs_flows r' = rs_flows r) (row_loop 12 buf count (udp_row nameOf now) 0 (r, m))" for count m
    proof -
      have "runs (\<lambda>(r', _). rs_flows r' = rs_flows r) (udp_row nameOf now row s)"
        if "length row = 12" "case s of (r', _) \<Rightarrow> rs_flows r' = rs_flows r" for row s
        using that by (intro runs_weaken [OF udp_row_runs [OF that(1) assms(2)]]) auto
      then show ?thesis
        using len length_table_row [of _ 12 buf]
        by (subst row_loop_rows) (auto intro!: fold_rows_runs)
    qed
    show ?thesis
      using len False Inr
      by (auto simp: refreshUDP_def peek32_def split: prod.split intro!: go_runs runs_bind [OF loop])
  qed (simp add: Inr refreshUDP_def runs_def)
qed (simp add: refreshUDP_def runs_def)

lemma Refresh_runs:
  assumes "readable (queryWinTable (os_tcp4 os))" "readable (queryWinTable (os_udp4 os))"
  shows "runs (\<lambda>(err, r'). case queryWinTable (os_tcp4 os) of
      Inl e \<Rightarrow> err = Some e \<and> rs_flows r' = rs_flows r | Inr _ \<Rightarrow> err = None) (Refresh os now r)"
proof -
  have total: "processName api pid \<noteq> None" for api pid
    using processName_runs [of api pid] by (auto simp: runs_def)
  show ?thesis
    unfolding Refresh_def
    by (rule runs_bind [OF refreshTCP_runs [OF assms(1) total]], clarsimp,
        rule runs_bind [OF refreshUDP_runs [OF assms(2) total]])
      (auto simp: runs_def split: sum.splits)
qed

text \<open>\<open>LookupWithRefresh\<close> always returns. An entry the table already has is returned as it is and
  nothing is refreshed, also when it appeared while waiting for the other refresh; otherwise the
  tables are read once: if the TCP table cannot be read the flow counts as unknown and the old
  table stays, and if it can the answer is what the new table says.\<close>

theorem lookup_with_refresh_total:
  assumes "readable (queryWinTable (os_tcp4 os))" "readable (queryWinTable (os_udp4 os))"
  shows "\<exists>e r'. LookupWithRefresh os now wait flow r = Some (e, r') \<and>
    (case rs_flows r flow of Some x \<Rightarrow> e = Some x \<and> r' = r
     | None \<Rightarrow> (case rs_flows (wait r) flow of Some x \<Rightarrow> e = Some x \<and> r' = wait r
        | None \<Rightarrow> (case queryWinTable (os_tcp4 os) of
             Inl _ \<Rightarrow> e = None \<and> rs_flows r' = rs_flows (wait r)
           | Inr _ \<Rightarrow> e = rs_flows r' flow)))"
proof -
  obtain err r1 where r1: "Refresh os now (wait r) = Some (err, r1)"
    "case queryWinTable (os_tcp4 os) of Inl e \<Rightarrow> err = Some e \<and> rs_flows r1 = rs_flows (wait r) | Inr _ \<Rightarrow> err = None"
    using Refresh_runs [OF assms, of "wait r" now] by (auto simp: runs_def)
  show ?thesis
    using r1 by (cases "rs_flows r flow"; cases "rs_flows (wait r) flow")
      (auto simp: LookupWithRefresh_def Lookup_def split: sum.splits)
qed

theorem lookup_with_refresh_total_witness:
  "let t = \<lparr>wt_probe = (5, 0), wt_fetch = \<lambda>_ _. (0, [], 0)\<rparr>;
       os = \<lparr>os_tcp4 = t, os_udp4 = t, os_tcp6 = t, os_udp6 = t,
             os_proc = \<lparr>pa_open = \<lambda>_. 0, pa_query = \<lambda>_ _. (False, [], 0, 5)\<rparr>\<rparr>
   in \<forall>flow. \<exists>r. LookupWithRefresh os (0, 0) (\<lambda>r. r) flow NewResolver = Some (None, r)"
proof -
  obtain t where t: "t = \<lparr>wt_probe = (5 :: u64, 0 :: u32), wt_fetch = \<lambda>_ _. (0 :: u64, [] :: byte list, 0 :: u32)\<rparr>" by simp
  obtain os where os: "os = \<lparr>os_tcp4 = t, os_udp4 = t, os_tcp6 = t, os_udp6 = t,
             os_proc = \<lparr>pa_open = \<lambda>_. 0, pa_query = \<lambda>_ _. (False, [], 0, 5)\<rparr>\<rparr>" by simp
  have q: "queryWinTable (os_tcp4 os) = Inl (ProbeFailed 5)" "queryWinTable (os_udp4 os) = Inl (ProbeFailed 5)"
    by (simp_all add: os t queryWinTable_def errorInsufficientBuffer_def)
  then have "readable (queryWinTable (os_tcp4 os))" "readable (queryWinTable (os_udp4 os))"
    by (simp_all add: readable_def)
  from lookup_with_refresh_total [OF this, of "(0, 0)" "\<lambda>r. r" _ NewResolver] show ?thesis
    unfolding Let_def t [symmetric] os [symmetric] q by (auto simp: NewResolver_def)
qed

end
