(* ===== verification/Ipv6Tables.thy ===== *)
theory Ipv6Tables
  imports Resolver
begin

text \<open>
  The IPv6 side of process lookup (\<open>internal/process/pidnamecache_windows.go\<close>, \<open>ipv6_windows.go\<close>,
  \<open>ipv6refresh_windows.go\<close>): the shared cache of process names with its sweep, the gate that rate
  limits the refreshes, and the two resolvers that parse a table and replace their map.
\<close>

section \<open>The cache of process names\<close>

record pidNameCache =
  pn_entries :: "u32 \<rightharpoonup> pidCacheEntry"

definition newPIDNameCache :: pidNameCache where
  "newPIDNameCache = \<lparr>pn_entries = Map.empty\<rparr>"

definition pn_get :: "u32 \<Rightarrow> time \<Rightarrow> (u32 \<Rightarrow> string option) \<Rightarrow> pidNameCache \<Rightarrow> (string \<times> pidNameCache) option" where
  "pn_get pid now resolve c =
     (if pid = 0 then Some ('''', c) else
      let hit = (case pn_entries c pid of Some e \<Rightarrow> time_sub now (pc_checkedAt e) < pidNameCacheTTL | None \<Rightarrow> False) in
      if hit then Some (pc_name (the (pn_entries c pid)), c)
      else do { name \<leftarrow> resolve pid;
        Some (name, c\<lparr>pn_entries := (pn_entries c)(pid \<mapsto> \<lparr>pc_name = name, pc_checkedAt = now\<rparr>)\<rparr>) })"

definition pn_sweep :: "time \<Rightarrow> u32 list \<Rightarrow> pidNameCache \<Rightarrow> pidNameCache" where
  "pn_sweep now pids c = c\<lparr>pn_entries :=
     range_delete (\<lambda>pid e. \<not> pidNameCacheTTL \<le> time_sub now (pc_checkedAt e)) pids (pn_entries c)\<rparr>"

text \<open>The sweep in an arbitrary order of the range.\<close>

definition pn_swept :: "time \<Rightarrow> pidNameCache \<Rightarrow> pidNameCache" where
  "pn_swept now c = c\<lparr>pn_entries :=
     map_keep (\<lambda>pid e. time_sub now (pc_checkedAt e) < pidNameCacheTTL) (pn_entries c)\<rparr>"

lemma pn_sweep_any_order: "dom (pn_entries c) \<subseteq> set pids \<Longrightarrow> pn_sweep now pids c = pn_swept now c"
  by (simp add: pn_sweep_def pn_swept_def range_delete_any_order linorder_not_le)

section \<open>The refresh gate\<close>

definition ipv6RefreshMinInterval :: int where "ipv6RefreshMinInterval = 200 * millisecond"

record refreshGate =
  rg_last :: time

text \<open>
  \<open>run\<close> holds the gate's mutex throughout: \<open>start\<close> is the time \<open>Since\<close> reads, \<open>finish\<close> the time it
  stores when \<open>work\<close> brought a new snapshot. \<open>work\<close> maps the rest of the state.
\<close>

definition gate_run :: "int \<Rightarrow> time \<Rightarrow> time \<Rightarrow> ('s \<Rightarrow> (bool \<times> 's) option) \<Rightarrow> refreshGate \<Rightarrow> 's \<Rightarrow> (refreshGate \<times> 's) option" where
  "gate_run interval start finish work g s =
     (if time_sub start (rg_last g) < interval then Some (g, s)
      else do { (done, s) \<leftarrow> work s;
        if \<not> done then Some (g, s) else Some (g\<lparr>rg_last := finish\<rparr>, s) })"

section \<open>Parsing the tables\<close>

text \<open>An address is the list of its sixteen bytes.\<close>

record IPv6TCPFlow =
  t6_LocalIP :: "byte list"
  t6_LocalPort :: u16
  t6_RemoteIP :: "byte list"
  t6_RemotePort :: u16

record IPv6UDPFlow =
  u6_LocalIP :: "byte list"
  u6_LocalPort :: u16

text \<open>\<open>nameOf\<close> threads the cache it names processes with. A \<open>nil\<close> map reads like an empty one.\<close>

type_synonym 'c namer = "u32 \<Rightarrow> 'c \<Rightarrow> (string \<times> 'c) option"

definition tcp6_row :: "'c namer \<Rightarrow> byte list \<Rightarrow> 'c \<times> (IPv6TCPFlow \<rightharpoonup> string) \<Rightarrow> ('c \<times> (IPv6TCPFlow \<rightharpoonup> string)) option" where
  "tcp6_row nameOf row = (\<lambda>(c, flows). do {
     state \<leftarrow> le32_at row 48;
     if state = 1 then Some (c, flows) else do {
       localIP \<leftarrow> subslice row 0 16;
       remoteIP \<leftarrow> subslice row 24 40;
       lp \<leftarrow> le32_at row 20;
       rp \<leftarrow> le32_at row 44;
       pid \<leftarrow> le32_at row 52;
       (name, c) \<leftarrow> nameOf pid c;
       if name = '''' then Some (c, flows)
       else Some (c, flows(\<lparr>t6_LocalIP = localIP, t6_LocalPort = row_port lp,
              t6_RemoteIP = remoteIP, t6_RemotePort = row_port rp\<rparr> \<mapsto> name)) } })"

definition parseIPv6TCPRows :: "'c namer \<Rightarrow> byte list \<Rightarrow> 'c \<Rightarrow> ('c \<times> (IPv6TCPFlow \<rightharpoonup> string)) option" where
  "parseIPv6TCPRows nameOf buf c =
     (if length buf < 4 then Some (c, Map.empty) else do {
        count \<leftarrow> le32_at buf 0;
        row_loop 56 buf count (tcp6_row nameOf) 0 (c, Map.empty) })"

definition udp6_row :: "'c namer \<Rightarrow> byte list \<Rightarrow> 'c \<times> (IPv6UDPFlow \<rightharpoonup> string) \<Rightarrow> ('c \<times> (IPv6UDPFlow \<rightharpoonup> string)) option" where
  "udp6_row nameOf row = (\<lambda>(c, flows). do {
     localIP \<leftarrow> subslice row 0 16;
     lp \<leftarrow> le32_at row 20;
     pid \<leftarrow> le32_at row 24;
     (name, c) \<leftarrow> nameOf pid c;
     if name = '''' then Some (c, flows)
     else Some (c, flows(\<lparr>u6_LocalIP = localIP, u6_LocalPort = row_port lp\<rparr> \<mapsto> name)) })"

definition parseIPv6UDPRows :: "'c namer \<Rightarrow> byte list \<Rightarrow> 'c \<Rightarrow> ('c \<times> (IPv6UDPFlow \<rightharpoonup> string)) option" where
  "parseIPv6UDPRows nameOf buf c =
     (if length buf < 4 then Some (c, Map.empty) else do {
        count \<leftarrow> le32_at buf 0;
        row_loop 28 buf count (udp6_row nameOf) 0 (c, Map.empty) })"

section \<open>The resolvers\<close>

text \<open>
  The cache \<open>ipv6PIDNames\<close> is shared by both resolvers, so a refresh takes and returns it. \<open>now\<close> is
  the clock inside the work, and \<open>pids\<close> the order in which the sweep ranges over the cache.
\<close>

record ipv6TCPResolver =
  t6_flows :: "IPv6TCPFlow \<rightharpoonup> string"
  t6_gate :: refreshGate

record ipv6UDPResolver =
  u6_m :: "IPv6UDPFlow \<rightharpoonup> string"
  u6_gate :: refreshGate

definition refreshWith_work :: "(('c namer \<Rightarrow> byte list \<Rightarrow> 'c \<Rightarrow> ('c \<times> 'm) option)) \<Rightarrow> (time \<Rightarrow> (u32 \<Rightarrow> string option) \<Rightarrow> 'c namer) \<Rightarrow>
    (time \<Rightarrow> 'c \<Rightarrow> 'c) \<Rightarrow> query_error + byte list \<Rightarrow> (u32 \<Rightarrow> string option) \<Rightarrow> time \<Rightarrow> 'm \<times> 'c \<Rightarrow> (bool \<times> ('m \<times> 'c)) option" where
  "refreshWith_work parse get sweep query resolve now = (\<lambda>(m, c).
     case query of
       Inl err \<Rightarrow> Some (False, (m, c))
     | Inr buf \<Rightarrow>
         if buf = [] then Some (False, (m, c)) else do {
           let c = sweep now c;
           (c, flows) \<leftarrow> parse (get now resolve) buf c;
           Some (True, (flows, c)) })"

definition refreshTCP6With :: "query_error + byte list \<Rightarrow> (u32 \<Rightarrow> string option) \<Rightarrow> time \<times> time \<times> time \<Rightarrow> u32 list \<Rightarrow>
    ipv6TCPResolver \<times> pidNameCache \<Rightarrow> (ipv6TCPResolver \<times> pidNameCache) option" where
  "refreshTCP6With query resolve clock pids = (\<lambda>(r, c). do {
     let (start, now, finish) = clock;
     (g, (m, c)) \<leftarrow> gate_run ipv6RefreshMinInterval start finish
        (refreshWith_work parseIPv6TCPRows (\<lambda>now resolve pid. pn_get pid now resolve) (\<lambda>now. pn_sweep now pids) query resolve now)
        (t6_gate r) (t6_flows r, c);
     Some (r\<lparr>t6_flows := m, t6_gate := g\<rparr>, c) })"

definition refreshUDP6With :: "query_error + byte list \<Rightarrow> (u32 \<Rightarrow> string option) \<Rightarrow> time \<times> time \<times> time \<Rightarrow> u32 list \<Rightarrow>
    ipv6UDPResolver \<times> pidNameCache \<Rightarrow> (ipv6UDPResolver \<times> pidNameCache) option" where
  "refreshUDP6With query resolve clock pids = (\<lambda>(r, c). do {
     let (start, now, finish) = clock;
     (g, (m, c)) \<leftarrow> gate_run ipv6RefreshMinInterval start finish
        (refreshWith_work parseIPv6UDPRows (\<lambda>now resolve pid. pn_get pid now resolve) (\<lambda>now. pn_sweep now pids) query resolve now)
        (u6_gate r) (u6_m r, c);
     Some (r\<lparr>u6_m := m, u6_gate := g\<rparr>, c) })"

text \<open>
  What the process asks Windows: the two table functions with order, address family, table class and
  the reserved argument, and the process calls. The tables of \<open>process_os\<close> are these functions at the
  arguments of the four callers.
\<close>

definition afInet :: nat where "afInet = 2"
definition afInet6 :: nat where "afInet6 = 23"
definition tcpTableOwnerPidAll :: nat where "tcpTableOwnerPidAll = 5"
definition udpTableOwnerPid :: nat where "udpTableOwnerPid = 1"

record windows_api =
  getExtendedTCPTable :: "nat \<Rightarrow> nat \<Rightarrow> nat \<Rightarrow> nat \<Rightarrow> win_table"
  getExtendedUDPTable :: "nat \<Rightarrow> nat \<Rightarrow> nat \<Rightarrow> nat \<Rightarrow> win_table"
  processApi :: process_api

record ipv6RefreshDeps =
  rd_query :: "query_error + byte list"
  rd_resolve :: "u32 \<Rightarrow> string option"

definition liveIPv6TCPDeps :: "windows_api \<Rightarrow> ipv6RefreshDeps" where
  "liveIPv6TCPDeps api = \<lparr>rd_query = queryWinTable (getExtendedTCPTable api 1 afInet6 tcpTableOwnerPidAll 0),
     rd_resolve = processName (processApi api)\<rparr>"

definition liveIPv6UDPDeps :: "windows_api \<Rightarrow> ipv6RefreshDeps" where
  "liveIPv6UDPDeps api = \<lparr>rd_query = queryWinTable (getExtendedUDPTable api 1 afInet6 udpTableOwnerPid 0),
     rd_resolve = processName (processApi api)\<rparr>"

definition live_os :: "windows_api \<Rightarrow> process_os" where
  "live_os api = \<lparr>os_tcp4 = getExtendedTCPTable api 0 afInet tcpTableOwnerPidAll 0,
     os_udp4 = getExtendedUDPTable api 0 afInet udpTableOwnerPid 0,
     os_tcp6 = getExtendedTCPTable api 1 afInet6 tcpTableOwnerPidAll 0,
     os_udp6 = getExtendedUDPTable api 1 afInet6 udpTableOwnerPid 0, os_proc = processApi api\<rparr>"

text \<open>The live refreshes: the system's tables and names.\<close>

definition RefreshIPv6TCP :: "process_os \<Rightarrow> time \<times> time \<times> time \<Rightarrow> u32 list \<Rightarrow>
    ipv6TCPResolver \<times> pidNameCache \<Rightarrow> (ipv6TCPResolver \<times> pidNameCache) option" where
  "RefreshIPv6TCP os = refreshTCP6With (queryWinTable (os_tcp6 os)) (processName (os_proc os))"

definition RefreshIPv6UDP :: "process_os \<Rightarrow> time \<times> time \<times> time \<Rightarrow> u32 list \<Rightarrow>
    ipv6UDPResolver \<times> pidNameCache \<Rightarrow> (ipv6UDPResolver \<times> pidNameCache) option" where
  "RefreshIPv6UDP os = refreshUDP6With (queryWinTable (os_udp6 os)) (processName (os_proc os))"

lemma RefreshIPv6_live:
  "RefreshIPv6TCP (live_os api) = refreshTCP6With (rd_query (liveIPv6TCPDeps api)) (rd_resolve (liveIPv6TCPDeps api))"
  "RefreshIPv6UDP (live_os api) = refreshUDP6With (rd_query (liveIPv6UDPDeps api)) (rd_resolve (liveIPv6UDPDeps api))"
  by (simp_all add: RefreshIPv6TCP_def RefreshIPv6UDP_def live_os_def liveIPv6TCPDeps_def liveIPv6UDPDeps_def)

definition LookupIPv6TCP :: "IPv6TCPFlow \<Rightarrow> ipv6TCPResolver \<Rightarrow> string option" where
  "LookupIPv6TCP flow r = t6_flows r flow"

definition LookupIPv6UDP :: "IPv6UDPFlow \<Rightarrow> ipv6UDPResolver \<Rightarrow> string option" where
  "LookupIPv6UDP flow r = u6_m r flow"

section \<open>Contracts\<close>

interpretation pid_sweep: sweeping pn_entries "\<lambda>now c pid e. time_sub now (pc_checkedAt e) < pidNameCacheTTL" pn_swept
  by unfold_locales (simp add: pn_swept_def)

definition pn_view :: "pidNameCache \<Rightarrow> u32 \<Rightarrow> (string \<times> time) option" where
  "pn_view c pid = map_option (\<lambda>e. (pc_name e, pc_checkedAt e)) (pn_entries c pid)"

interpretation names6: name_cache pn_view pn_get pidNameCacheTTL
proof
  show "0 < pidNameCacheTTL" by (simp add: pidNameCacheTTL_def)
  show "pn_get 0 now resolve s = Some ([], s)" for now resolve s
    by (simp add: pn_get_def)
  show "pn_get pid now resolve s = Some (n, s)"
    if "pid \<noteq> 0" "pn_view s pid = Some (n, t)" "time_sub now t < pidNameCacheTTL" for pid s n t now resolve
    using that by (auto simp: pn_get_def pn_view_def)
  show "\<exists>s'. pn_get pid now resolve s = Some (n, s') \<and> pn_view s' = (pn_view s)(pid \<mapsto> (n, now))"
    if "pid \<noteq> 0" "\<And>n t. pn_view s pid = Some (n, t) \<Longrightarrow> pidNameCacheTTL \<le> time_sub now t" "resolve pid = Some n"
    for pid s now resolve n
    using that(1,3) that(2) [of "pc_name (the (pn_entries s pid))" "pc_checkedAt (the (pn_entries s pid))"]
    by (auto simp: pn_get_def pn_view_def fun_eq_iff split: option.split)
  show "pn_get pid now resolve s = None"
    if "pid \<noteq> 0" "\<And>n t. pn_view s pid = Some (n, t) \<Longrightarrow> pidNameCacheTTL \<le> time_sub now t" "resolve pid = None"
    for pid s now resolve
    using that(1,3) that(2) [of "pc_name (the (pn_entries s pid))" "pc_checkedAt (the (pn_entries s pid))"]
    by (auto simp: pn_get_def pn_view_def split: option.split)
qed

section \<open>A parsed table\<close>

text \<open>
  A row of \<open>MIB_TCP6ROW_OWNER_PID\<close>: local address, scope and port, remote address, scope and port,
  state, pid.
\<close>

type_synonym tcp6_entry = "IPv6TCPFlow \<times> u32 \<times> u32 \<times> (u32 \<times> u32 \<times> u16 \<times> u16)"

definition tcp6_bytes :: "tcp6_entry \<Rightarrow> byte list" where
  "tcp6_bytes = (\<lambda>(flow, state, pid, (scope, scope', junk, junk')).
     t6_LocalIP flow @ le32 scope @ le32 (port_field junk (t6_LocalPort flow)) @
     t6_RemoteIP flow @ le32 scope' @ le32 (port_field junk' (t6_RemotePort flow)) @
     le32 state @ le32 pid)"

definition addr_ok :: "tcp6_entry \<Rightarrow> bool" where
  "addr_ok = (\<lambda>(flow, _). length (t6_LocalIP flow) = 16 \<and> length (t6_RemoteIP flow) = 16)"

definition live6 :: "tcp6_entry list \<Rightarrow> (IPv6TCPFlow \<times> u32) list" where
  "live6 rows = map (\<lambda>(flow, state, pid, _). (flow, pid)) (filter (\<lambda>(_, state, _). state \<noteq> 1) rows)"

lemma length_tcp6_bytes: "addr_ok row \<Longrightarrow> length (tcp6_bytes row) = 56"
  by (auto simp: tcp6_bytes_def addr_ok_def)

lemma tcp6_fields:
  assumes "length (t6_LocalIP flow) = 16" "length (t6_RemoteIP flow) = 16"
    and row: "row = tcp6_bytes (flow, state, pid, s, s', j, j')"
  shows "le32_at row 48 = Some state" "subslice row 0 16 = Some (t6_LocalIP flow)"
    "subslice row 24 40 = Some (t6_RemoteIP flow)" "le32_at row 20 = Some (port_field j (t6_LocalPort flow))"
    "le32_at row 44 = Some (port_field j' (t6_RemotePort flow))" "le32_at row 52 = Some pid"
proof -
  let ?l = "t6_LocalIP flow @ le32 s" and ?p = "le32 (port_field j (t6_LocalPort flow))"
  let ?r = "t6_RemoteIP flow @ le32 s'" and ?q = "le32 (port_field j' (t6_RemotePort flow))"
  have row: "row = (?l @ ?p @ ?r @ ?q) @ le32 state @ le32 pid" by (simp add: row tcp6_bytes_def)
  note sizes = assms(1,2)
  show "le32_at row 48 = Some state" by (rule le32_at_le32 [OF row]) (simp add: sizes)
  show "subslice row 0 16 = Some (t6_LocalIP flow)" by (simp add: row sizes slice_Some)
  show "subslice row 24 40 = Some (t6_RemoteIP flow)" by (simp add: row sizes slice_Some)
  show "le32_at row 20 = Some (port_field j (t6_LocalPort flow))"
    by (rule le32_at_le32 [of _ ?l]) (simp_all add: row sizes)
  show "le32_at row 44 = Some (port_field j' (t6_RemotePort flow))"
    by (rule le32_at_le32 [of _ "?l @ ?p @ ?r"]) (simp_all add: row sizes)
  show "le32_at row 52 = Some pid"
    by (rule le32_at_le32 [of _ "?l @ ?p @ ?r @ ?q @ le32 state" _ "[]"]) (simp_all add: row sizes)
qed

lemma tcp6_row_bytes:
  assumes "addr_ok (flow, state, pid, x)"
  shows "tcp6_row nameOf (tcp6_bytes (flow, state, pid, x)) (c, flows) =
     (if state = 1 then Some (c, flows) else
      case nameOf pid c of None \<Rightarrow> None
      | Some (name, c) \<Rightarrow> Some (c, if name = [] then flows else flows(flow \<mapsto> name)))"
proof -
  obtain s s' j j' where x: "x = (s, s', j, j')" by (cases x) auto
  have len: "length (t6_LocalIP flow) = 16" "length (t6_RemoteIP flow) = 16"
    using assms by (simp_all add: addr_ok_def)
  have eta: "\<lparr>t6_LocalIP = t6_LocalIP flow, t6_LocalPort = t6_LocalPort flow,
      t6_RemoteIP = t6_RemoteIP flow, t6_RemotePort = t6_RemotePort flow\<rparr> = flow" by (cases flow) simp
  show ?thesis
    unfolding tcp6_row_def x prod.case tcp6_fields [OF len refl] bind.bind_lunit
    by (cases "nameOf pid c") (simp_all add: eta split: prod.split)
qed

text \<open>Rows whose owner has no name leave no trace.\<close>

definition named6 :: "(IPv6TCPFlow \<times> u32 \<times> string) list \<Rightarrow> (IPv6TCPFlow \<times> string) list" where
  "named6 xs = map (\<lambda>(flow, pid, name). (flow, name)) (filter (\<lambda>(flow, pid, name). name \<noteq> []) xs)"

lemma tcp6_rows_fold:
  assumes "\<forall>row \<in> set rows. addr_ok row"
  shows "fold_rows (tcp6_row (\<lambda>pid. pn_get pid now resolve)) (map tcp6_bytes rows) (c, flows) =
     (case names6.name_rows now resolve (live6 rows) c of None \<Rightarrow> None
      | Some (xs, c') \<Rightarrow> Some (c', flows ++ map_of (rev (named6 xs))))"
  using assms
proof (induction rows arbitrary: c flows)
  case (Cons row rows)
  obtain flow state pid x where row: "row = (flow, state, pid, x)"
    by (cases row) auto
  have ok: "addr_ok (flow, state, pid, x)" using Cons.prems row by simp
  show ?case
  proof (cases "state = 1")
    case True
    then have live: "live6 (row # rows) = live6 rows"
      by (simp add: row live6_def)
    show ?thesis
      unfolding row list.map fold_rows.simps tcp6_row_bytes [OF ok]
      using True Cons live by (simp add: row)
  next
    case False
    then have live: "live6 (row # rows) = (flow, pid) # live6 rows"
      by (simp add: row live6_def)
    show ?thesis
      unfolding live using False Cons.IH Cons.prems
      by (auto simp: row tcp6_row_bytes [OF ok] named6_def split: option.split)
  qed
qed (simp add: live6_def named6_def)

section \<open>Properties\<close>

text \<open>C33. \<open>parseIPv6TCPRows\<close> reads a table in the system's layout back exactly: the map holds the flow of
  every row that is not closed and whose owner has a name, with that name (the last such row wins),
  and nothing else; the names are the ones the cache holds afterwards, none older than two seconds.\<close>

theorem parse_ipv6_tcp_roundtrip:
  assumes "length (win_rows (map tcp6_bytes rows) rest) + 56 < 4294967296"
    and "\<forall>row \<in> set rows. addr_ok row" "\<And>pid. resolve pid \<noteq> None"
  shows "\<exists>xs c'. parseIPv6TCPRows (\<lambda>pid. pn_get pid now resolve) (win_rows (map tcp6_bytes rows) rest) c =
      Some (c', map_of (rev (named6 xs))) \<and>
    map (\<lambda>(flow, pid, name). (flow, pid)) xs = live6 rows \<and>
    (\<forall>(flow, pid, name) \<in> set xs. if pid = 0 then name = ''''
       else \<exists>t. pn_entries c' pid = Some \<lparr>pc_name = name, pc_checkedAt = t\<rparr> \<and> time_sub now t < 2 * second)"
proof -
  let ?buf = "win_rows (map tcp6_bytes rows) rest" and ?get = "\<lambda>pid. pn_get pid now resolve"
  obtain xs c' where n: "names6.name_rows now resolve (live6 rows) c = Some (xs, c')"
    and xs: "map (\<lambda>(k, pid, n). (k, pid)) xs = live6 rows"
    using names6.name_rows_runs [of resolve now "live6 rows" c] assms(3) by blast
  have "row_loop 56 ?buf (of_nat (length rows)) (tcp6_row ?get) 0 (c, Map.empty) =
      fold_rows (tcp6_row ?get) (map tcp6_bytes rows) (c, Map.empty)"
    using assms(1,2) length_tcp6_bytes
    by (subst length_map [of tcp6_bytes, symmetric], intro row_loop_win_rows) auto
  then have loop: "row_loop 56 ?buf (of_nat (length rows)) (tcp6_row ?get) 0 (c, Map.empty) =
      Some (c', map_of (rev (named6 xs)))"
    by (simp add: tcp6_rows_fold [OF assms(2)] n)
  have "le32_at ?buf 0 = Some (of_nat (length rows))"
    using win_rows_count [of "map tcp6_bytes rows" rest] by (simp add: peek32_def)
  then have "parseIPv6TCPRows ?get ?buf c = Some (c', map_of (rev (named6 xs)))"
    using loop by (simp add: parseIPv6TCPRows_def win_rows_def)
  moreover have "if pid = 0 then name = []
       else \<exists>t. pn_entries c' pid = Some \<lparr>pc_name = name, pc_checkedAt = t\<rparr> \<and> time_sub now t < 2 * second"
    if "(flow, pid, name) \<in> set xs" for flow pid name
    using names6.name_rows_fresh [OF n that] unfolding pidNameCacheTTL_def [symmetric]
    by (auto simp: names6.fresh_def pn_view_def pc_ex)
  ultimately show ?thesis using xs by blast
qed

theorem parse_ipv6_tcp_roundtrip_witness:
  "let f = \<lparr>t6_LocalIP = replicate 16 1, t6_LocalPort = 50000, t6_RemoteIP = replicate 16 2, t6_RemotePort = 443\<rparr>;
       rows = [(f, 5, 7, 0, 0, 3, 0), (f\<lparr>t6_LocalPort := 1\<rparr>, 1, 9, 0, 0, 0, 0)]
   in \<exists>name c. parseIPv6TCPRows (\<lambda>pid. pn_get pid 0 (\<lambda>_. Some ''a'')) (win_rows (map tcp6_bytes rows) []) newPIDNameCache =
      Some (c, map_of (rev (named6 [(f, 7, name)])))"
proof -
  obtain f where f: "f = \<lparr>t6_LocalIP = replicate 16 1, t6_LocalPort = 50000, t6_RemoteIP = replicate 16 2, t6_RemotePort = 443\<rparr>"
    by simp
  let ?rows = "[(f, 5, 7, 0, 0, 3, 0), (f\<lparr>t6_LocalPort := 1\<rparr>, 1, 9, 0, 0, 0, 0)] :: tcp6_entry list"
  have ok: "\<forall>row \<in> set ?rows. addr_ok row" by (simp add: addr_ok_def f)
  then have "length (win_rows (map tcp6_bytes ?rows) []) + 56 < 4294967296"
    by (simp add: win_rows_def length_tcp6_bytes)
  from parse_ipv6_tcp_roundtrip [OF this ok, of "\<lambda>_. Some ''a''" 0 newPIDNameCache] obtain xs c' where
    r: "parseIPv6TCPRows (\<lambda>pid. pn_get pid 0 (\<lambda>_. Some ''a'')) (win_rows (map tcp6_bytes ?rows) []) newPIDNameCache =
      Some (c', map_of (rev (named6 xs)))" "map (\<lambda>(flow, pid, name). (flow, pid)) xs = live6 ?rows" by blast
  have "live6 ?rows = [(f, 7)]" by (simp add: live6_def)
  then obtain name where "xs = [(f, 7, name)]"
    using r(2) by (auto simp: map_eq_Cons_conv)
  with r(1) show ?thesis
    unfolding Let_def f [symmetric] by blast
qed

text \<open>A sequence of runs of one gate, each with its clock readings and work, and the times at which a
  run started and committed a new snapshot.\<close>

fun gate_commits :: "int \<Rightarrow> (time \<times> time \<times> bool) list \<Rightarrow> refreshGate \<Rightarrow> (time \<times> time) list" where
  "gate_commits interval [] g = []"
| "gate_commits interval ((start, finish, ok) # tries) g =
     (case gate_run interval start finish (\<lambda>n. Some (ok, n + 1)) g (0 :: nat) of
        None \<Rightarrow> []
      | Some (g', n) \<Rightarrow>
          (if n = 1 \<and> ok then [(start, finish)] else []) @ gate_commits interval tries g')"

lemma gate_commits_after:
  assumes "0 < interval" "interval \<le> max_dur" "sorted (concat (map (\<lambda>(start, finish, _). [start, finish]) tries))"
  shows "sorted_wrt (\<lambda>(s, f) (s', f'). interval \<le> s' - f) (gate_commits interval tries g) \<and>
    (\<forall>(s, f) \<in> set (gate_commits interval tries g). interval \<le> s - rg_last g)"
  using assms
proof (induction tries arbitrary: g)
  case (Cons run tries)
  obtain start finish ok where run: "run = (start, finish, ok)" by (cases run) auto
  have rest: "sorted (concat (map (\<lambda>(start, finish, _). [start, finish]) tries))" "start \<le> finish"
    using Cons.prems(3) by (auto simp: run)
  note IH = Cons.IH [OF assms(1,2) rest(1)]
  show ?case
  proof (cases "time_sub start (rg_last g) < interval \<or> \<not> ok")
    case True
    then show ?thesis using IH [of g] by (auto simp: run gate_run_def)
  next
    case False
    have first: "interval \<le> start - rg_last g"
      using False assms(1,2) by (simp add: time_sub_less linorder_not_less)
    have later: "\<forall>(s, f) \<in> set (gate_commits interval tries (g\<lparr>rg_last := finish\<rparr>)). interval \<le> s - finish"
      using IH [of "g\<lparr>rg_last := finish\<rparr>"] by simp
    have eq: "gate_commits interval (run # tries) g =
        (start, finish) # gate_commits interval tries (g\<lparr>rg_last := finish\<rparr>)"
      using False by (simp add: run gate_run_def)
    have "interval \<le> s - rg_last g" if "(s, f) \<in> set (gate_commits interval tries (g\<lparr>rg_last := finish\<rparr>))" for s f
      using later that first rest(2) assms(1) by fastforce
    then show ?thesis
      unfolding eq using IH [of "g\<lparr>rg_last := finish\<rparr>"] first later by auto
  qed
qed simp

text \<open>C38. Through one gate, however many goroutines ask and whichever refreshes fail, two refreshes that
  bring a snapshot are at least 200 ms apart: the later one starts that long after the earlier one
  was committed. (A refresh that fails does not count and the next may try at once.)\<close>

theorem gate_spaces_refreshes:
  assumes "sorted (concat (map (\<lambda>(start, finish, _). [start, finish]) tries))"
  shows "sorted_wrt (\<lambda>(s, f) (s', f'). 200 * millisecond \<le> s' - f) (gate_commits ipv6RefreshMinInterval tries g)"
  using gate_commits_after [of ipv6RefreshMinInterval tries g] assms
  by (simp add: ipv6RefreshMinInterval_def)

theorem gate_spaces_refreshes_witness:
  "let g = \<lparr>rg_last = 0\<rparr>; ms = millisecond;
       tries = [(300 * ms, 310 * ms, False), (320 * ms, 330 * ms, True), (400 * ms, 410 * ms, True), (600 * ms, 610 * ms, True)]
   in gate_commits ipv6RefreshMinInterval tries g = [(320 * ms, 330 * ms), (600 * ms, 610 * ms)] \<and>
      sorted_wrt (\<lambda>(s, f) (s', f'). 200 * millisecond \<le> s' - f) (gate_commits ipv6RefreshMinInterval tries g)"
  unfolding Let_def
  by (rule conjI, simp add: gate_run_def ipv6RefreshMinInterval_def time_sub_def, rule gate_spaces_refreshes) simp

section \<open>The refreshes return\<close>

definition readable6 :: "query_error + byte list \<Rightarrow> bool" where
  "readable6 q \<longleftrightarrow> (case q of Inl _ \<Rightarrow> True | Inr buf \<Rightarrow> length buf + 56 < 4294967296)"

definition names_total :: "'c namer \<Rightarrow> bool" where
  "names_total nameOf \<longleftrightarrow> (\<forall>pid c. nameOf pid c \<noteq> None)"

lemma tcp6_row_runs:
  assumes "length row = 56" "names_total nameOf"
  shows "runs (\<lambda>_. True) (tcp6_row nameOf row s)"
proof -
  have n: "runs (\<lambda>_. True) (nameOf pid c)" for pid c
    using assms(2) by (auto simp: runs_def names_total_def)
  show ?thesis
    using assms(1) by (auto simp: tcp6_row_def split: prod.split intro!: go_runs runs_bind [OF n])
qed

lemma udp6_row_runs:
  assumes "length row = 28" "names_total nameOf"
  shows "runs (\<lambda>_. True) (udp6_row nameOf row s)"
proof -
  have n: "runs (\<lambda>_. True) (nameOf pid c)" for pid c
    using assms(2) by (auto simp: runs_def names_total_def)
  show ?thesis
    using assms(1) by (auto simp: udp6_row_def split: prod.split intro!: go_runs runs_bind [OF n])
qed

lemma row_loop_runs:
  assumes "4 \<le> length buf" "length buf + unat R < 4294967296" "0 < unat R"
    and "\<And>row s. length row = unat R \<Longrightarrow> runs (\<lambda>_. True) (body row s)"
  shows "runs (\<lambda>_. True) (row_loop R buf count body 0 s)"
  using assms length_table_row [of _ "unat R" buf]
  by (subst row_loop_rows) (auto intro!: fold_rows_runs)

lemma parseIPv6TCPRows_runs:
  assumes "length buf + 56 < 4294967296" "names_total nameOf"
  shows "runs (\<lambda>_. True) (parseIPv6TCPRows nameOf buf c)"
proof (cases "length buf < 4")
  case False
  with assms show ?thesis
    by (auto simp: parseIPv6TCPRows_def intro!: go_runs row_loop_runs tcp6_row_runs)
qed (simp add: parseIPv6TCPRows_def runs_def)

lemma parseIPv6UDPRows_runs:
  assumes "length buf + 56 < 4294967296" "names_total nameOf"
  shows "runs (\<lambda>_. True) (parseIPv6UDPRows nameOf buf c)"
proof (cases "length buf < 4")
  case False
  with assms show ?thesis
    by (auto simp: parseIPv6UDPRows_def intro!: go_runs row_loop_runs udp6_row_runs)
qed (simp add: parseIPv6UDPRows_def runs_def)

lemma pn_get_total: "names_total (\<lambda>pid. pn_get pid now (processName api))"
proof -
  have "processName api pid \<noteq> None" for pid
    using processName_runs [of api pid] by (auto simp: runs_def)
  then have "\<exists>n c'. pn_get pid now (processName api) c = Some (n, c')" for pid c
    by (rule names6.get_runs)
  then show ?thesis
    unfolding names_total_def by (metis not_None_eq)
qed

lemma refreshWith_work_runs:
  assumes "\<And>buf c. q = Inr buf \<Longrightarrow> runs (\<lambda>_. True) (parse (get now resolve) buf c)"
  shows "runs (\<lambda>_. True) (refreshWith_work parse get sweep q resolve now s)"
proof (cases q)
  case (Inr buf)
  show ?thesis
    by (auto simp: refreshWith_work_def Inr split: prod.split
        intro!: go_runs runs_bind [OF assms [OF Inr]])
qed (cases s, simp add: refreshWith_work_def runs_Some)

lemma gate_run_runs:
  "(\<And>s. runs (\<lambda>_. True) (work s)) \<Longrightarrow> runs (\<lambda>_. True) (gate_run interval start finish work g s)"
  unfolding gate_run_def
  by (intro runs_if runs_Some runs_bind [where Q = "\<lambda>_. True" and m = "work s"])
    (auto intro!: go_runs)

lemma RefreshIPv6TCP_runs:
  assumes "readable6 (queryWinTable (os_tcp6 os))"
  shows "runs (\<lambda>_. True) (RefreshIPv6TCP os clock pids s)"
proof -
  have w: "runs (\<lambda>_. True) (refreshWith_work parseIPv6TCPRows (\<lambda>now resolve pid. pn_get pid now resolve) sw
      (queryWinTable (os_tcp6 os)) (processName (os_proc os)) now x)" for sw now x
    using assms by (intro refreshWith_work_runs parseIPv6TCPRows_runs pn_get_total) (simp_all add: readable6_def)
  show ?thesis
    unfolding RefreshIPv6TCP_def refreshTCP6With_def
    by (auto split: prod.split intro!: go_runs runs_bind [OF gate_run_runs [OF w]])
qed

lemma RefreshIPv6UDP_runs:
  assumes "readable6 (queryWinTable (os_udp6 os))"
  shows "runs (\<lambda>_. True) (RefreshIPv6UDP os clock pids s)"
proof -
  have w: "runs (\<lambda>_. True) (refreshWith_work parseIPv6UDPRows (\<lambda>now resolve pid. pn_get pid now resolve) sw
      (queryWinTable (os_udp6 os)) (processName (os_proc os)) now x)" for sw now x
    using assms by (intro refreshWith_work_runs parseIPv6UDPRows_runs pn_get_total) (simp_all add: readable6_def)
  show ?thesis
    unfolding RefreshIPv6UDP_def refreshUDP6With_def
    by (auto split: prod.split intro!: go_runs runs_bind [OF gate_run_runs [OF w]])
qed

end
