(* ===== verification/Interceptor.thy ===== *)
theory Interceptor
  imports FlowPolicy Rewrite Ipv6Tables
begin

text \<open>
  The packet path (\<open>internal/engine/windivert.go\<close>): the interceptor's state, the decision on a new
  flow, the handlers of IPv4 and IPv6 packets, the hijack towards the TProxy and the way back, the
  queue of packets to reinject, the splitting of a batch, and the receive loop. A handler maps the
  state, the queue and the calls made to the driver so far; \<open>None\<close> is a run-time panic. Handling one
  packet is one step with respect to the other goroutines. Logging has no effect on the state but
  for \<open>lastLookupFailLog\<close>.
\<close>

section \<open>State\<close>

text \<open>\<open>proxy4\<close> and \<open>proxy4ok\<close> are one option; a handle is open or nil; \<open>closeOnce\<close> and the closed
  \<open>stopCh\<close> are one flag. The IPv6 tables, package
  variables of \<open>internal/process\<close>, are part of the state the packet path reads and writes.\<close>

record Interceptor =
  ic_handle :: bool
  ic_closed :: bool
  ic_tracker :: ConnTracker
  ic_proxyIP :: string
  ic_proxyPort :: u16
  ic_proxy4 :: "(byte \<times> byte \<times> byte \<times> byte) option"
  ic_tproxyPort :: u16
  ic_resolver :: Resolver
  ic_whitelist :: "string set"
  ic_policies :: flowPolicies
  ic_state :: string
  ic_stateMsg :: string
  ic_lastLookupFailLog :: time
  ic_tcp6 :: ipv6TCPResolver
  ic_udp6 :: ipv6UDPResolver
  ic_names6 :: pidNameCache

abbreviation "stateStopped \<equiv> ''stopped''"
abbreviation "stateRunning \<equiv> ''running''"
abbreviation "stateError \<equiv> ''error''"

text \<open>What one packet meets: the clock, the driver, the system's tables with the clocks of a refresh,
  and what other goroutines do while it waits for the resolver's fallback mutex.\<close>

record packet_env =
  ev_now :: time
  ev_driver :: driver
  ev_os :: process_os
  ev_clock :: "time \<times> time"
  ev_wait :: "Resolver \<Rightarrow> Resolver"
  ev_clock6 :: "time \<times> time \<times> time"
  ev_pids6 :: "u32 list"

text \<open>The queue is nil (\<open>None\<close>) when packets are sent one by one.\<close>

record world =
  w_ic :: Interceptor
  w_q :: "sendQueue option"
  w_calls :: "driver_call list"

definition on_ic :: "(Interceptor \<Rightarrow> Interceptor) \<Rightarrow> world \<Rightarrow> world" where
  "on_ic f w = w\<lparr>w_ic := f (w_ic w)\<rparr>"

definition State :: "Interceptor \<Rightarrow> string \<times> string" where
  "State i = (ic_state i, ic_stateMsg i)"

definition setState :: "string \<Rightarrow> string \<Rightarrow> Interceptor \<Rightarrow> Interceptor" where
  "setState st msg i = i\<lparr>ic_state := st, ic_stateMsg := msg\<rparr>"

section \<open>Settings\<close>

definition SetWhitelist :: "string list \<Rightarrow> Interceptor \<Rightarrow> Interceptor" where
  "SetWhitelist names i = i\<lparr>ic_whitelist := set (filter (\<lambda>n. n \<noteq> '''') (map (\<lambda>n. TrimSpace (ToLower n)) names))\<rparr>"

text \<open>The order in which Go ranges over the map is a parameter.\<close>

definition GetWhitelist :: "(string set \<Rightarrow> string list) \<Rightarrow> Interceptor \<Rightarrow> string list" where
  "GetWhitelist order i = order (ic_whitelist i)"

definition isWhitelisted :: "string \<Rightarrow> Interceptor \<Rightarrow> bool" where
  "isWhitelisted name i \<longleftrightarrow> ToLower name \<in> ic_whitelist i"

definition parseIPv4Bytes :: "string \<Rightarrow> (byte \<times> byte \<times> byte \<times> byte) option" where
  "parseIPv4Bytes s = (if s = '''' then None else
     case ParseIP s of None \<Rightarrow> None
     | Some v \<Rightarrow> (case To4 v of None \<Rightarrow> None | Some v4 \<Rightarrow> Some (v4 ! 0, v4 ! 1, v4 ! 2, v4 ! 3)))"

definition SetProxyAddr :: "string \<Rightarrow> u16 \<Rightarrow> Interceptor \<Rightarrow> Interceptor" where
  "SetProxyAddr ip port i = i\<lparr>ic_proxyIP := ip, ic_proxyPort := port, ic_proxy4 := parseIPv4Bytes ip\<rparr>"

definition NewInterceptor :: "ConnTracker \<Rightarrow> string \<Rightarrow> u16 \<Rightarrow> u16 \<Rightarrow> string list \<Rightarrow> Interceptor" where
  "NewInterceptor tracker proxyIP proxyPort tproxyPort names =
     SetWhitelist names (setState stateStopped '''' (SetProxyAddr proxyIP proxyPort
       \<lparr>ic_handle = False, ic_closed = False, ic_tracker = tracker, ic_proxyIP = '''', ic_proxyPort = 0, ic_proxy4 = None,
        ic_tproxyPort = tproxyPort, ic_resolver = NewResolver, ic_whitelist = {}, ic_policies = newFlowPolicies,
        ic_state = '''', ic_stateMsg = '''', ic_lastLookupFailLog = 0,
        ic_tcp6 = \<lparr>t6_flows = Map.empty, t6_gate = \<lparr>rg_last = 0\<rparr>\<rparr>,
        ic_udp6 = \<lparr>u6_m = Map.empty, u6_gate = \<lparr>rg_last = 0\<rparr>\<rparr>, ic_names6 = newPIDNameCache\<rparr>))"

definition exempt_proxy :: "string \<Rightarrow> string" where
  "exempt_proxy proxyIP = (case ParseIP proxyIP of None \<Rightarrow> ''''
     | Some pip \<Rightarrow> (case To4 pip of None \<Rightarrow> ''''
        | Some v4 \<Rightarrow> if IsLoopback pip then '''' else '' and ip.DstAddr != '' @ IP_String v4))"

definition buildFilter :: "Interceptor \<Rightarrow> string" where
  "buildFilter i =
     (let tcp = ''(outbound and ip and tcp and ip.DstAddr != 127.0.0.1'' @ exempt_proxy (ic_proxyIP i) @ '')'';
          quic = ''(outbound and ip and udp and udp.DstPort == 443 and ip.DstAddr != 127.0.0.1'' @
                 exempt_proxy (ic_proxyIP i) @ '')''
      in tcp @ '' or '' @ quic @ '' or (outbound and ipv6) or (outbound and ip and tcp and tcp.SrcPort == '' @
         nat_dec (unat (ic_tproxyPort i)) @ '')'')"

section \<open>Reinjection\<close>

text \<open>\<open>CalcChecksums\<close>: the helper rewrites packet and address in place.\<close>

datatype calc_error = HandleNotReady | EmptyPacket | CalcFailed | SendError send_error

definition CalcChecksums :: "driver \<Rightarrow> byte list \<Rightarrow> winDivertAddress \<Rightarrow> calc_error + (byte list \<times> winDivertAddress)" where
  "CalcChecksums d pkt addr = (if length pkt = 0 then Inl EmptyPacket
     else case drv_calc d pkt addr of None \<Rightarrow> Inl CalcFailed | Some r \<Rightarrow> Inr r)"

definition flushQueue :: "packet_env \<Rightarrow> world \<Rightarrow> world option" where
  "flushQueue e w = (case w_q w of None \<Rightarrow> Some w
     | Some q \<Rightarrow>
         if sq_count q = 0 then Some w
         else if \<not> ic_handle (w_ic w) then Some (w\<lparr>w_q := Some (sq_reset q)\<rparr>)
         else do {
           (_, calls) \<leftarrow> SendBatch (ev_driver e) q;
           Some (w\<lparr>w_q := Some (sq_reset q), w_calls := w_calls w @ calls\<rparr>) })"

definition sendPass :: "packet_env \<Rightarrow> byte list \<Rightarrow> winDivertAddress \<Rightarrow> world \<Rightarrow> world option" where
  "sendPass e pkt addr w = (case w_q w of
       None \<Rightarrow> Some (if ic_handle (w_ic w) then w\<lparr>w_calls := w_calls w @ snd (Send (ev_driver e) pkt addr)\<rparr> else w)
     | Some q \<Rightarrow> do {
         w \<leftarrow> if sq_wouldOverflow (length pkt) q then flushQueue e w else Some w;
         Some (w\<lparr>w_q := map_option (sq_push pkt addr) (w_q w)\<rparr>) })"

definition calcAndSend :: "packet_env \<Rightarrow> byte list \<Rightarrow> winDivertAddress \<Rightarrow> world \<Rightarrow> calc_error option \<times> world" where
  "calcAndSend e pkt addr w =
     (if \<not> ic_handle (w_ic w) then (Some HandleNotReady, w)
      else case CalcChecksums (ev_driver e) pkt addr of
        Inl err \<Rightarrow> (Some err, w)
      | Inr (pkt, addr) \<Rightarrow>
          (case w_q w of
             None \<Rightarrow> (let (err, calls) = Send (ev_driver e) pkt addr
                      in (map_option SendError err, w\<lparr>w_calls := w_calls w @ calls\<rparr>))
           | Some q \<Rightarrow> (None, w\<lparr>w_q := Some (sq_push pkt addr q)\<rparr>)))"

section \<open>Hijacking and the way back\<close>

definition hijackTCP :: "packet_env \<Rightarrow> byte list \<Rightarrow> winDivertAddress \<Rightarrow> IP \<Rightarrow> IP \<Rightarrow> u16 \<Rightarrow> u16 \<Rightarrow> nat \<Rightarrow> world \<Rightarrow>
    (u16 \<times> world) option" where
  "hijackTCP e pkt addr origSrcIP origDstIP srcPort dstPort ihl w =
     (let (tracker, r) = ct_Set (ev_now e) origSrcIP srcPort origDstIP dstPort (wa_IfIdx addr) (wa_SubIfIdx addr)
                           (ic_tracker (w_ic w));
          w = on_ic (ic_tracker_update (\<lambda>_. tracker)) w
      in case r of
           None \<Rightarrow> do { w \<leftarrow> sendPass e pkt addr w; Some (0, w) }
         | Some mappedPort \<Rightarrow> do {
             (pkt, addr) \<leftarrow> rewriteHijack pkt addr ihl mappedPort (ic_tproxyPort (w_ic w));
             case calcAndSend e pkt addr w of
               (None, w) \<Rightarrow> Some (mappedPort, w)
             | (Some err, w) \<Rightarrow> Some (0, on_ic (ic_tracker_update (ct_Delete ''127.0.0.1'' mappedPort)) w) })"

definition hijackWithPort :: "packet_env \<Rightarrow> byte list \<Rightarrow> winDivertAddress \<Rightarrow> u16 \<Rightarrow> u16 \<Rightarrow> nat \<Rightarrow> world \<Rightarrow> world option" where
  "hijackWithPort e pkt addr mappedPort tproxyPort ihl w = do {
     (pkt, addr) \<leftarrow> rewriteHijack pkt addr ihl mappedPort tproxyPort;
     Some (snd (calcAndSend e pkt addr w)) }"

definition reverseNAT :: "packet_env \<Rightarrow> byte list \<Rightarrow> winDivertAddress \<Rightarrow> nat \<Rightarrow> world \<Rightarrow> world option" where
  "reverseNAT e pkt addr ihl w = do {
     d \<leftarrow> subslice pkt 16 20;
     let ipKey = (if d ! 0 \<noteq> 127 \<or> d ! 1 \<noteq> 0 \<or> d ! 2 \<noteq> 0 \<or> d ! 3 \<noteq> 1 then IP_String d else ''127.0.0.1'');
     dstPort \<leftarrow> be16_at pkt (ihl + 2);
     case ct_Get ipKey dstPort (ic_tracker (w_ic w)) of
       None \<Rightarrow> sendPass e pkt addr w
     | Some target \<Rightarrow> do {
         (pkt, addr) \<leftarrow> rewriteReply pkt addr ihl target;
         Some (snd (calcAndSend e pkt addr w)) } }"

section \<open>Decisions\<close>

text \<open>A look-up of a process name: it may refresh tables, and finds a name or not.\<close>

type_synonym name_lookup = "Interceptor \<Rightarrow> (string option \<times> Interceptor) option"

definition decideNewFlow :: "time \<Rightarrow> bool \<Rightarrow> name_lookup \<Rightarrow> Interceptor \<Rightarrow> (policyKind \<times> Interceptor) option" where
  "decideNewFlow now isStart lookup i =
     (if \<not> isStart then Some (policyPass, i) else do {
        (r, i) \<leftarrow> lookup i;
        case r of
          None \<Rightarrow> Some (policyUndecided,
            if second < time_sub now (ic_lastLookupFailLog i) then i\<lparr>ic_lastLookupFailLog := now\<rparr> else i)
        | Some name \<Rightarrow> Some (if isWhitelisted name i then policyIntercept else policyPass, i) })"

definition lookupName :: "packet_env \<Rightarrow> Flow \<Rightarrow> name_lookup" where
  "lookupName e f i = do {
     (r, resolver) \<leftarrow> LookupWithRefresh (ev_os e) (ev_clock e) (ev_wait e) f (ic_resolver i);
     Some (case r of None \<Rightarrow> None | Some entry \<Rightarrow> if en_Name entry = '''' then None else Some (en_Name entry),
           i\<lparr>ic_resolver := resolver\<rparr>) }"

definition refresh_tcp6 :: "packet_env \<Rightarrow> Interceptor \<Rightarrow> Interceptor option" where
  "refresh_tcp6 e i = do {
     (t, c) \<leftarrow> RefreshIPv6TCP (ev_os e) (ev_clock6 e) (ev_pids6 e) (ic_tcp6 i, ic_names6 i);
     Some (i\<lparr>ic_tcp6 := t, ic_names6 := c\<rparr>) }"

definition refresh_udp6 :: "packet_env \<Rightarrow> Interceptor \<Rightarrow> Interceptor option" where
  "refresh_udp6 e i = do {
     (t, c) \<leftarrow> RefreshIPv6UDP (ev_os e) (ev_clock6 e) (ev_pids6 e) (ic_udp6 i, ic_names6 i);
     Some (i\<lparr>ic_udp6 := t, ic_names6 := c\<rparr>) }"

definition lookupName6 :: "packet_env \<Rightarrow> IPv6TCPFlow \<Rightarrow> name_lookup" where
  "lookupName6 e f i = do {
     i \<leftarrow> (if LookupIPv6TCP f (ic_tcp6 i) = None then refresh_tcp6 e i else Some i);
     let r = LookupIPv6TCP f (ic_tcp6 i);
     Some (if r = Some '''' then None else r, i) }"

section \<open>Packet handlers\<close>

text \<open>The address bytes at an offset, as the code compares and passes them.\<close>

definition quad_at :: "byte list \<Rightarrow> nat \<Rightarrow> (byte \<times> byte \<times> byte \<times> byte) option" where
  "quad_at pkt i = do { a \<leftarrow> idx pkt i; b \<leftarrow> idx pkt (i + 1); c \<leftarrow> idx pkt (i + 2); d \<leftarrow> idx pkt (i + 3); Some (a, b, c, d) }"

definition local4 :: "byte \<times> byte \<times> byte \<times> byte \<Rightarrow> bool" where
  "local4 = (\<lambda>(a, b, c, d). isPrivateOrLocal4 a b c d)"

definition ip4 :: "byte \<times> byte \<times> byte \<times> byte \<Rightarrow> IP" where
  "ip4 = (\<lambda>(a, b, c, d). IPv4 a b c d)"

definition handleIPv4UDP :: "packet_env \<Rightarrow> byte list \<Rightarrow> winDivertAddress \<Rightarrow> nat \<Rightarrow> world \<Rightarrow> world option" where
  "handleIPv4UDP e pkt addr ihl w =
     (if length pkt < ihl + 8 then sendPass e pkt addr w else do {
        srcPort \<leftarrow> be16_at pkt ihl;
        dstPort \<leftarrow> be16_at pkt (ihl + 2);
        if dstPort \<noteq> 443 then sendPass e pkt addr w else do {
          dst \<leftarrow> quad_at pkt 16;
          if local4 dst then sendPass e pkt addr w else do {
            srcIP \<leftarrow> le32_at pkt 12;
            if ic_proxy4 (w_ic w) = Some dst then sendPass e pkt addr w else do {
              (r, resolver) \<leftarrow> LookupUDPWithRefresh (ev_os e) (ev_clock e) (ev_wait e)
                 \<lparr>uf_LocalIP = srcIP, uf_LocalPort = srcPort\<rparr> (ic_resolver (w_ic w));
              let w = on_ic (ic_resolver_update (\<lambda>_. resolver)) w;
              if (case r of None \<Rightarrow> False | Some entry \<Rightarrow> isWhitelisted (ue_Name entry) (w_ic w)) then Some w
              else sendPass e pkt addr w } } } })"

text \<open>Registering the flow and rewriting the packet, and what is then recorded as its policy.\<close>

definition hijack_flow :: "packet_env \<Rightarrow> byte list \<Rightarrow> winDivertAddress \<Rightarrow> nat \<Rightarrow> flowKey \<Rightarrow>
    byte \<times> byte \<times> byte \<times> byte \<Rightarrow> byte \<times> byte \<times> byte \<times> byte \<Rightarrow> u16 \<Rightarrow> u16 \<Rightarrow> world \<Rightarrow> world option" where
  "hijack_flow e pkt addr ihl key src dst srcPort dstPort w = do {
     (m, w) \<leftarrow> hijackTCP e pkt addr (ip4 src) (ip4 dst) srcPort dstPort ihl w;
     Some (on_ic (ic_policies_update
       (if m \<noteq> 0 then fp_Set (ev_now e) key policyIntercept m else fp_Set (ev_now e) key policyPass 0)) w) }"

text \<open>The flow has no policy (any more): decide, unless it is closing.\<close>

definition new_flow4 :: "packet_env \<Rightarrow> byte list \<Rightarrow> winDivertAddress \<Rightarrow> nat \<Rightarrow> flowKey \<Rightarrow> Flow \<Rightarrow>
    byte \<times> byte \<times> byte \<times> byte \<Rightarrow> byte \<times> byte \<times> byte \<times> byte \<Rightarrow> byte \<Rightarrow> world \<Rightarrow> world option" where
  "new_flow4 e pkt addr ihl key flow src dst flags w =
     (if flags AND (tcpFIN OR tcpRST) \<noteq> 0 then sendPass e pkt addr w else do {
        (kind, i) \<leftarrow> decideNewFlow (ev_now e) (isConnectionStart flags) (lookupName e flow) (w_ic w);
        let w = w\<lparr>w_ic := i\<rparr>;
        if kind = policyIntercept then hijack_flow e pkt addr ihl key src dst (fl_LocalPort flow) (fl_RemotePort flow) w
        else sendPass e pkt addr (on_ic (ic_policies_update (fp_Set (ev_now e) key kind 0)) w) })"

definition handleIPv4TCP :: "packet_env \<Rightarrow> byte list \<Rightarrow> winDivertAddress \<Rightarrow> nat \<Rightarrow> world \<Rightarrow> world option" where
  "handleIPv4TCP e pkt addr ihl w =
     (if length pkt < ihl + 20 then sendPass e pkt addr w else do {
        srcPort \<leftarrow> be16_at pkt ihl;
        dstPort \<leftarrow> be16_at pkt (ihl + 2);
        flags \<leftarrow> idx pkt (ihl + 13);
        if srcPort = ic_tproxyPort (w_ic w) then reverseNAT e pkt addr ihl w else do {
          src \<leftarrow> quad_at pkt 12;
          dst \<leftarrow> quad_at pkt 16;
          if ic_proxy4 (w_ic w) = Some dst then sendPass e pkt addr w
          else if local4 dst then sendPass e pkt addr w
          else do {
            srcU32 \<leftarrow> le32_at pkt 12;
            dstU32 \<leftarrow> le32_at pkt 16;
            let key = flowKeyV4 srcU32 dstU32 srcPort dstPort;
            let flow = \<lparr>fl_LocalIP = srcU32, fl_LocalPort = srcPort, fl_RemoteIP = dstU32, fl_RemotePort = dstPort\<rparr>;
            case fp_Get key (ic_policies (w_ic w)) of
              Some (kind, mapped) \<Rightarrow>
                if flags AND (tcpFIN OR tcpRST) \<noteq> 0 \<or> kind = policyUndecided \<and> isConnectionStart flags
                then new_flow4 e pkt addr ihl key flow src dst flags (on_ic (ic_policies_update (fp_Delete key)) w)
                else if kind = policyIntercept then
                  (if mapped \<noteq> 0 \<and> ct_HasMapped mapped (ic_tracker (w_ic w))
                   then hijackWithPort e pkt addr mapped (ic_tproxyPort (w_ic w)) ihl w
                   else hijack_flow e pkt addr ihl key src dst srcPort dstPort w)
                else sendPass e pkt addr w
            | None \<Rightarrow> new_flow4 e pkt addr ihl key flow src dst flags w } } })"

definition new_flow6 :: "packet_env \<Rightarrow> byte list \<Rightarrow> winDivertAddress \<Rightarrow> flowKey \<Rightarrow> byte \<Rightarrow> world \<Rightarrow> world option" where
  "new_flow6 e pkt addr key flags w =
     (if flags AND (tcpFIN OR tcpRST) \<noteq> 0 then sendPass e pkt addr w else do {
        (kind, i) \<leftarrow> decideNewFlow (ev_now e) (isConnectionStart flags)
           (lookupName6 e \<lparr>t6_LocalIP = fk_srcIP key, t6_LocalPort = fk_srcPort key,
                           t6_RemoteIP = fk_dstIP key, t6_RemotePort = fk_dstPort key\<rparr>) (w_ic w);
        let w = on_ic (ic_policies_update (fp_Set (ev_now e) key kind 0)) (w\<lparr>w_ic := i\<rparr>);
        if kind = policyIntercept then Some w else sendPass e pkt addr w })"

definition handleIPv6TCP :: "packet_env \<Rightarrow> byte list \<Rightarrow> winDivertAddress \<Rightarrow> world \<Rightarrow> world option" where
  "handleIPv6TCP e pkt addr w =
     (if length pkt < 60 then sendPass e pkt addr w else do {
        srcPort \<leftarrow> be16_at pkt 40;
        dstPort \<leftarrow> be16_at pkt 42;
        srcIP \<leftarrow> subslice pkt 8 24;
        dstIP \<leftarrow> subslice pkt 24 40;
        if isPrivateOrLocalV6 dstIP then sendPass e pkt addr w else do {
          flags \<leftarrow> idx pkt 53;
          let key = \<lparr>fk_srcIP = srcIP, fk_dstIP = dstIP, fk_srcPort = srcPort, fk_dstPort = dstPort, fk_ver = 6\<rparr>;
          case fp_Get key (ic_policies (w_ic w)) of
            Some (kind, _) \<Rightarrow>
              if flags AND (tcpFIN OR tcpRST) \<noteq> 0 \<or> kind = policyUndecided \<and> isConnectionStart flags
              then new_flow6 e pkt addr key flags (on_ic (ic_policies_update (fp_Delete key)) w)
              else if kind = policyIntercept then Some w
              else sendPass e pkt addr w
          | None \<Rightarrow> new_flow6 e pkt addr key flags w } })"

definition handleIPv6UDP :: "packet_env \<Rightarrow> byte list \<Rightarrow> winDivertAddress \<Rightarrow> world \<Rightarrow> world option" where
  "handleIPv6UDP e pkt addr w =
     (if length pkt < 48 then sendPass e pkt addr w else do {
        dstPort \<leftarrow> be16_at pkt 42;
        if dstPort \<noteq> 443 then sendPass e pkt addr w else do {
          dst6 \<leftarrow> subslice pkt 24 40;
          if isPrivateOrLocalV6 dst6 then sendPass e pkt addr w else do {
            localIP \<leftarrow> subslice pkt 8 24;
            srcPort \<leftarrow> be16_at pkt 40;
            let flow = \<lparr>u6_LocalIP = localIP, u6_LocalPort = srcPort\<rparr>;
            i \<leftarrow> (if LookupIPv6UDP flow (ic_udp6 (w_ic w)) = None then refresh_udp6 e (w_ic w) else Some (w_ic w));
            let w = w\<lparr>w_ic := i\<rparr>;
            if (case LookupIPv6UDP flow (ic_udp6 i) of None \<Rightarrow> False | Some name \<Rightarrow> isWhitelisted name i) then Some w
            else sendPass e pkt addr w } } })"

definition handleIPv6 :: "packet_env \<Rightarrow> byte list \<Rightarrow> winDivertAddress \<Rightarrow> world \<Rightarrow> world option" where
  "handleIPv6 e pkt addr w =
     (if length pkt < 40 then sendPass e pkt addr w else do {
        nxt \<leftarrow> idx pkt 6;
        if nxt = 6 then handleIPv6TCP e pkt addr w
        else if nxt = 17 then handleIPv6UDP e pkt addr w
        else sendPass e pkt addr w })"

definition handlePacket :: "packet_env \<Rightarrow> byte list \<Rightarrow> winDivertAddress \<Rightarrow> world \<Rightarrow> world option" where
  "handlePacket e pkt addr w =
     (if length pkt < 1 then Some w else do {
        b \<leftarrow> idx pkt 0;
        let version = drop_bit 4 b;
        if version = 6 then handleIPv6 e pkt addr w
        else if version \<noteq> 4 then Some w
        else if length pkt < 20 then Some w
        else let ihl = unat (b AND 0x0f) * 4 in
          if ihl < 20 \<or> length pkt < ihl then Some w
          else do {
            proto \<leftarrow> idx pkt 9;
            if proto = 17 then handleIPv4UDP e pkt addr ihl w
            else if proto \<noteq> 6 then Some w
            else if length pkt < ihl + 4 then Some w
            else handleIPv4TCP e pkt addr ihl w } })"

section \<open>Batches and the receive loop\<close>

datatype batch_error =
    CannotSplit nat nat split_error
  | PacketBeyondEnd nat nat nat
  | BytesLeft nat nat
  | AddressesLeft nat nat

text \<open>The loop of \<open>processBatch\<close>: \<open>e p\<close> is what the p-th packet meets.\<close>

primrec batch_loop :: "(nat \<Rightarrow> packet_env) \<Rightarrow> byte list \<Rightarrow> winDivertAddress list \<Rightarrow> nat \<Rightarrow> nat \<Rightarrow> world \<Rightarrow>
    ((batch_error + (nat \<times> nat)) \<times> world) option" where
  "batch_loop e buf [] off p w = Some (Inr (off, p), w)"
| "batch_loop e buf (addr # addrs) off p w =
     (if \<not> off < length buf then Some (Inr (off, p), w) else do {
        rest \<leftarrow> subslice buf off (length buf);
        r \<leftarrow> packetLen rest;
        case r of
          Inl err \<Rightarrow> Some (Inl (CannotSplit p off err), w)
        | Inr n \<Rightarrow>
            if length buf < off + n then Some (Inl (PacketBeyondEnd p off n), w) else do {
              pkt \<leftarrow> subslice buf off (off + n);
              w \<leftarrow> handlePacket (e p) pkt addr w;
              batch_loop e buf addrs (off + n) (p + 1) w } })"

definition processBatch :: "(nat \<Rightarrow> packet_env) \<Rightarrow> byte list \<Rightarrow> winDivertAddress list \<Rightarrow> world \<Rightarrow>
    (batch_error option \<times> world) option" where
  "processBatch e buf addrs w = do {
     (r, w) \<leftarrow> batch_loop e buf addrs 0 0 w;
     case r of
       Inl err \<Rightarrow> Some (Some err, w)
     | Inr (off, p) \<Rightarrow>
         if off \<noteq> length buf then Some (Some (BytesLeft (length addrs) off), w)
         else if p \<noteq> length addrs then Some (Some (AddressesLeft (length addrs) p), w)
         else Some (None, w) }"

text \<open>
  One turn of the receive loop: whether the stop channel is closed at its top and after a failed
  receive, what is in the receive buffer and the address array after the call, and what the
  packets meet. The result tells whether the loop goes on.
\<close>

record turn =
  tn_stop :: bool
  tn_stop_late :: bool
  tn_driver :: driver
  tn_bytes :: "byte list"
  tn_addrs :: "winDivertAddress list"
  tn_env :: "nat \<Rightarrow> packet_env"
  tn_message :: string

record receiver =
  rc_world :: world
  rc_fails :: int
  rc_errored :: bool

definition start_turn :: "turn \<Rightarrow> receiver \<Rightarrow> (bool \<times> receiver) option" where
  "start_turn t s =
     (let w = rc_world s in
      if tn_stop t then do {
        w \<leftarrow> flushQueue (tn_env t 0) w;
        Some (False, s\<lparr>rc_world := on_ic (setState stateStopped '''') w\<rparr>) }
      else if \<not> ic_handle (w_ic w) then Some (False, s\<lparr>rc_world := on_ic (setState stateStopped '''') w\<rparr>)
      else case RecvBatch (tn_driver t) recvBufSize batchPackets of
        Inl err \<Rightarrow>
          if tn_stop_late t then Some (False, s\<lparr>rc_world := on_ic (setState stateStopped '''') w\<rparr>)
          else let fails = rc_fails s + 1 in
            Some (True, if 20 \<le> fails \<and> \<not> rc_errored s
              then s\<lparr>rc_fails := fails, rc_errored := True, rc_world := on_ic (setState stateError (tn_message t)) w\<rparr>
              else s\<lparr>rc_fails := fails\<rparr>)
      | Inr (nBytes, nPkts) \<Rightarrow> do {
          let s = s\<lparr>rc_fails := 0\<rparr>;
          let s = (if rc_errored s then s\<lparr>rc_errored := False, rc_world := on_ic (setState stateRunning '''') w\<rparr> else s);
          if 0 < nBytes \<and> 0 < nPkts then do {
            buf \<leftarrow> subslice (tn_bytes t) 0 nBytes;
            addrs \<leftarrow> subslice (tn_addrs t) 0 nPkts;
            (_, w) \<leftarrow> processBatch (tn_env t) buf addrs (rc_world s);
            w \<leftarrow> flushQueue (tn_env t 0) w;
            Some (True, s\<lparr>rc_world := w\<rparr>) }
          else Some (True, s) })"

text \<open>The loop over the turns that happen; it ends at the first that says so.\<close>

primrec start_loop :: "turn list \<Rightarrow> receiver \<Rightarrow> receiver option" where
  "start_loop [] s = Some s"
| "start_loop (t # ts) s = do { (go, s) \<leftarrow> start_turn t s; if go then start_loop ts s else Some s }"

text \<open>\<open>Start\<close> up to the loop: \<open>opened\<close> is the error of \<open>wdOpen\<close>, if any.\<close>

definition Start :: "packet_env \<Rightarrow> string option \<Rightarrow> Interceptor \<Rightarrow> (string option \<times> receiver option \<times> Interceptor) option" where
  "Start e opened i = (case opened of
       Some err \<Rightarrow> Some (Some err, None, setState stateError err i)
     | None \<Rightarrow> do {
         let i = setState stateRunning '''' (i\<lparr>ic_handle := True\<rparr>);
         (_, r) \<leftarrow> Refresh (ev_os e) (ev_clock e) (ic_resolver i);
         i \<leftarrow> refresh_tcp6 e (i\<lparr>ic_resolver := r\<rparr>);
         i \<leftarrow> refresh_udp6 e i;
         Some (None, Some \<lparr>rc_world = \<lparr>w_ic = i, w_q = Some newSendQueue, w_calls = []\<rparr>, rc_fails = 0, rc_errored = False\<rparr>, i) })"

text \<open>One tick of \<open>refreshLoop\<close>.\<close>

definition refresh_tick :: "packet_env \<Rightarrow> Interceptor \<Rightarrow> Interceptor option" where
  "refresh_tick e i = do {
     (_, r) \<leftarrow> Refresh (ev_os e) (ev_clock e) (ic_resolver i);
     i \<leftarrow> refresh_tcp6 e (i\<lparr>ic_resolver := r\<rparr>);
     refresh_udp6 e i }"

text \<open>\<open>refreshLoop\<close> itself; \<open>None\<close> is a panic in a refresh.\<close>

definition refreshLoop :: "(packet_env, Interceptor option) loop_event list \<Rightarrow> Interceptor \<Rightarrow> Interceptor option \<times> bool" where
  "refreshLoop es i = ticker_loop (\<lambda>e s. Option.bind s (refresh_tick e)) es (Some i)"

definition Close :: "Interceptor \<Rightarrow> Interceptor" where
  "Close i = (if ic_closed i then i
     else (setState stateStopped '''' i)\<lparr>ic_closed := True, ic_policies := fp_Close (ic_policies i), ic_handle := False\<rparr>)"

end
