(* ===== verification/PacketPath.thy ===== *)
theory PacketPath
  imports Interceptor
begin

text \<open>
  What the packet path guarantees: no handler panics, each packet is reinjected at most once and in
  order, and a batch is split exactly into its packets. The lemmas follow the handlers from the
  bottom up with the rules of \<open>runs\<close>.
\<close>

section \<open>One packet in, at most one packet out\<close>

text \<open>What the packets leave alone: whether the handle is open, and the reported state.\<close>

definition status :: "Interceptor \<Rightarrow> bool \<times> string" where
  "status i = (ic_handle i, ic_state i)"

definition io :: "world \<Rightarrow> sendQueue option \<times> driver_call list \<times> bool \<times> string" where
  "io w = (w_q w, w_calls w, status (w_ic w))"

definition room :: "byte list \<Rightarrow> world \<Rightarrow> bool" where
  "room pkt w \<longleftrightarrow> (\<exists>q. w_q w = Some q \<and> length (sq_buf q) + length pkt \<le> sq_cap q)"

text \<open>After a packet the queue is the old one, or the old one with one packet of the same length; no
  call went to the driver.\<close>

definition emitted :: "byte list \<Rightarrow> world \<Rightarrow> world \<Rightarrow> bool" where
  "emitted pkt w w' \<longleftrightarrow> w_calls w' = w_calls w \<and> status (w_ic w') = status (w_ic w) \<and>
     (\<exists>q. w_q w = Some q \<and> (w_q w' = Some q \<or> (\<exists>p a. length p = length pkt \<and> w_q w' = Some (sq_push p a q))))"

text \<open>The checksum helper works in place, so it keeps the length; the tables can be read.\<close>

definition calc_ok :: "driver \<Rightarrow> bool" where
  "calc_ok d \<longleftrightarrow> (\<forall>p a p' a'. drv_calc d p a = Some (p', a') \<longrightarrow> length p' = length p)"

definition os_ok :: "process_os \<Rightarrow> bool" where
  "os_ok os \<longleftrightarrow> readable (queryWinTable (os_tcp4 os)) \<and> readable (queryWinTable (os_udp4 os)) \<and>
     readable6 (queryWinTable (os_tcp6 os)) \<and> readable6 (queryWinTable (os_udp6 os))"

definition env_ok :: "packet_env \<Rightarrow> bool" where
  "env_ok e \<longleftrightarrow> calc_ok (ev_driver e) \<and> os_ok (ev_os e)"

lemma status_update [simp]:
  "status (ic_tracker_update f i) = status i" "status (ic_policies_update g i) = status i"
  "status (ic_resolver_update h i) = status i" "status (ic_lastLookupFailLog_update k i) = status i"
  "status (ic_tcp6_update l i) = status i" "status (ic_udp6_update m i) = status i" "status (ic_names6_update n i) = status i"
  by (simp_all add: status_def)

lemma io_on_ic [simp]: "(\<And>i. status (f i) = status i) \<Longrightarrow> io (on_ic f w) = io w"
  by (simp add: io_def on_ic_def)

lemma io_ic [simp]: "status i = status (w_ic w) \<Longrightarrow> io (w\<lparr>w_ic := i\<rparr>) = io w"
  by (simp add: io_def)

lemma emitted_io: "io w = io w0 \<Longrightarrow> emitted pkt w w' \<longleftrightarrow> emitted pkt w0 w'"
  by (simp add: emitted_def io_def)

lemma emitted_on_ic [simp]: "(\<And>i. status (f i) = status i) \<Longrightarrow> emitted pkt w (on_ic f w') \<longleftrightarrow> emitted pkt w w'"
  by (simp add: emitted_def on_ic_def)

lemma room_io: "io w = io w0 \<Longrightarrow> room pkt w \<longleftrightarrow> room pkt w0"
  by (simp add: room_def io_def)

lemma emitted_none: "io w = io w0 \<Longrightarrow> room pkt w0 \<Longrightarrow> emitted pkt w0 w"
  by (auto simp: emitted_def room_def io_def)

lemma sendPass_room:
  "w_q w = Some q \<Longrightarrow> length (sq_buf q) + length pkt \<le> sq_cap q \<Longrightarrow>
   sendPass e pkt addr w = Some (w\<lparr>w_q := Some (sq_push pkt addr q)\<rparr>)"
  by (simp add: sendPass_def sq_wouldOverflow_def)

lemma sendPass_runs:
  assumes "io w = io w0" "room pkt w0"
  shows "runs (emitted pkt w0) (sendPass e pkt addr w)"
proof -
  obtain q where q: "w_q w = Some q" "length (sq_buf q) + length pkt \<le> sq_cap q" and q0: "w_q w0 = Some q"
    using assms by (auto simp: room_def io_def)
  have "emitted pkt w0 (w\<lparr>w_q := Some (sq_push pkt addr q)\<rparr>)"
    using assms(1) q0 by (auto simp: emitted_def io_def)
  then show ?thesis
    by (simp add: sendPass_room [OF q] runs_def)
qed

lemma calcAndSend_emits:
  assumes "io w = io w0" "room pkt0 w0" "calc_ok (ev_driver e)" "length pkt = length pkt0"
    and "calcAndSend e pkt addr w = (r, w')"
  shows "emitted pkt0 w0 w'"
proof -
  obtain q where q: "w_q w0 = Some q" "w_q w = Some q"
    using assms(1,2) by (auto simp: room_def io_def)
  show ?thesis
    using assms q
    by (auto simp: calcAndSend_def CalcChecksums_def emitted_def io_def calc_ok_def
        split: if_splits sum.splits option.splits) metis+
qed

lemma length_rewriteHijack: "rewriteHijack pkt addr ihl mp tp = Some (p, a) \<Longrightarrow> length p = length pkt"
  by (auto simp: rewriteHijack_def bind_eq_Some_conv dest!: length_copy_to length_put16)

lemma length_rewriteReply: "rewriteReply pkt addr ihl t = Some (p, a) \<Longrightarrow> length p = length pkt"
  by (auto simp: rewriteReply_def Let_def bind_eq_Some_conv dest!: length_copy_to length_put16)

lemma copy_to_runs: "a \<le> b \<Longrightarrow> b \<le> length xs \<Longrightarrow> runs (\<lambda>ys. length ys = length xs) (copy_to xs a b src)"
  by (auto simp: copy_to_def runs_def Let_def)

lemma put16_runs: "i + 2 \<le> length xs \<Longrightarrow> runs (\<lambda>ys. length ys = length xs) (put16 xs i v)"
  unfolding put16_def by (rule copy_to_runs) simp_all

lemma rewriteReply_runs:
  assumes "20 \<le> ihl" "ihl + 4 \<le> length pkt"
  shows "runs (\<lambda>_. True) (rewriteReply pkt addr ihl t)"
  unfolding rewriteReply_def Let_def
  using assms
  by (auto intro!: runs_bind [OF copy_to_runs] runs_bind [OF put16_runs] runs_Some)

lemma hijackWithPort_runs:
  assumes "io w = io w0" "room pkt w0" "calc_ok (ev_driver e)" "20 \<le> ihl" "ihl + 4 \<le> length pkt"
  shows "runs (emitted pkt w0) (hijackWithPort e pkt addr mp tp ihl w)"
proof -
  obtain p a where p: "rewriteHijack pkt addr ihl mp tp = Some (p, a)"
    using rewriteHijack_tuple [OF assms(4,5)] by simp
  obtain err w2 where c: "calcAndSend e p a w = (err, w2)" by fastforce
  show ?thesis
    using calcAndSend_emits [OF assms(1-3) length_rewriteHijack [OF p] c]
    by (simp add: hijackWithPort_def p c runs_def)
qed

lemma hijackTCP_runs:
  assumes "io w = io w0" "room pkt w0" "calc_ok (ev_driver e)" "20 \<le> ihl" "ihl + 4 \<le> length pkt"
  shows "runs (\<lambda>(m, w'). emitted pkt w0 w') (hijackTCP e pkt addr src dst sp dp ihl w)"
proof -
  obtain tracker r where s: "ct_Set (ev_now e) src sp dst dp (wa_IfIdx addr) (wa_SubIfIdx addr) (ic_tracker (w_ic w)) = (tracker, r)"
    by fastforce
  obtain w1 where w1: "w1 = on_ic (ic_tracker_update (\<lambda>_. tracker)) w" by simp
  have io: "io w1 = io w0" using assms(1) by (simp add: w1)
  show ?thesis
  proof (cases r)
    case None
    show ?thesis
      by (auto simp: hijackTCP_def s None w1 [symmetric]
          intro!: runs_bind [OF sendPass_runs [OF io assms(2)]] runs_Some)
  next
    case (Some mp)
    obtain p a where p: "rewriteHijack pkt addr ihl mp (ic_tproxyPort (w_ic w1)) = Some (p, a)"
      using rewriteHijack_tuple [OF assms(4,5)] by simp
    obtain err w2 where c: "calcAndSend e p a w1 = (err, w2)" by fastforce
    have "emitted pkt w0 w2"
      using calcAndSend_emits [OF io assms(2,3) length_rewriteHijack [OF p] c] .
    then show ?thesis
      by (auto simp: hijackTCP_def s Some w1 [symmetric] p c runs_def split: option.split)
  qed
qed

lemma hijack_flow_runs:
  assumes "io w = io w0" "room pkt w0" "calc_ok (ev_driver e)" "20 \<le> ihl" "ihl + 4 \<le> length pkt"
  shows "runs (emitted pkt w0) (hijack_flow e pkt addr ihl key src dst sp dp w)"
  unfolding hijack_flow_def
  by (rule runs_bind [OF hijackTCP_runs [OF assms]])
    (auto intro!: runs_Some)

section \<open>No handler panics\<close>

lemma runs_quad_at [go_runs]:
  "i + 4 \<le> length pkt \<Longrightarrow> (\<And>q. quad_at pkt i = Some q \<Longrightarrow> runs P (f q)) \<Longrightarrow> runs P (Option.bind (quad_at pkt i) f)"
  by (simp add: quad_at_def idx_def)

lemma LookupWithRefresh_runs:
  assumes "os_ok os"
  shows "runs (\<lambda>_. True) (LookupWithRefresh os now wait flow r)"
proof -
  have ref: "runs (\<lambda>_. True) (Refresh os now x)" for x
    using assms by (intro runs_weaken [OF Refresh_runs]) (simp_all add: os_ok_def)
  show ?thesis
    by (auto simp: LookupWithRefresh_def split: option.split intro!: go_runs runs_bind [OF ref])
qed

lemma LookupUDPWithRefresh_runs:
  assumes "os_ok os"
  shows "runs (\<lambda>_. True) (LookupUDPWithRefresh os now wait flow r)"
proof -
  have ref: "runs (\<lambda>_. True) (Refresh os now x)" for x
    using assms by (intro runs_weaken [OF Refresh_runs]) (simp_all add: os_ok_def)
  show ?thesis
    by (auto simp: LookupUDPWithRefresh_def split: option.split intro!: go_runs runs_bind [OF ref])
qed

text \<open>What a look-up leaves alone: everything but the tables it may refresh.\<close>

definition keeps :: "Interceptor \<Rightarrow> Interceptor \<Rightarrow> bool" where
  "keeps i i' \<longleftrightarrow> status i' = status i \<and> ic_tracker i' = ic_tracker i \<and> ic_policies i' = ic_policies i \<and>
     ic_whitelist i' = ic_whitelist i \<and> ic_tproxyPort i' = ic_tproxyPort i \<and> ic_proxy4 i' = ic_proxy4 i"

lemma lookupName_runs:
  assumes "os_ok (ev_os e)"
  shows "runs (\<lambda>(_, i'). keeps i i') (lookupName e f i)"
  unfolding lookupName_def
  by (auto simp: keeps_def status_def intro!: runs_bind [OF LookupWithRefresh_runs [OF assms]] runs_Some)

lemma refresh_tcp6_runs:
  assumes "os_ok (ev_os e)"
  shows "runs (keeps i) (refresh_tcp6 e i)"
  unfolding refresh_tcp6_def using assms
  by (auto simp: keeps_def status_def os_ok_def intro!: runs_bind [OF RefreshIPv6TCP_runs] runs_Some)

lemma refresh_udp6_runs:
  assumes "os_ok (ev_os e)"
  shows "runs (keeps i) (refresh_udp6 e i)"
  unfolding refresh_udp6_def using assms
  by (auto simp: keeps_def status_def os_ok_def intro!: runs_bind [OF RefreshIPv6UDP_runs] runs_Some)

lemma keeps_refl [simp]: "keeps i i"
  by (simp add: keeps_def)

lemma lookupName6_runs:
  assumes "os_ok (ev_os e)"
  shows "runs (\<lambda>(_, i'). keeps i i') (lookupName6 e f i)"
proof -
  have "runs (keeps i) (if LookupIPv6TCP f (ic_tcp6 i) = None then refresh_tcp6 e i else Some i)"
    using refresh_tcp6_runs [OF assms, of i] by (simp add: runs_Some)
  then show ?thesis
    unfolding lookupName6_def Let_def by (auto intro!: runs_bind [where Q = "keeps i"] runs_Some)
qed

lemma decideNewFlow_runs:
  assumes "runs (\<lambda>(_, i'). keeps i i') (lookup i)"
  shows "runs (\<lambda>(_, i'). keeps i i') (decideNewFlow now start lookup i)"
proof (cases start)
  case True
  show ?thesis
    unfolding decideNewFlow_def
    by (auto simp: True keeps_def Let_def intro!: runs_bind [OF assms] runs_Some split: option.split)
qed (simp add: decideNewFlow_def runs_Some)

lemma new_flow4_runs:
  assumes "io w = io w0" "room pkt w0" "env_ok e" "20 \<le> ihl" "ihl + 4 \<le> length pkt"
  shows "runs (emitted pkt w0) (new_flow4 e pkt addr ihl key flow src dst flags w)"
proof -
  have ok: "os_ok (ev_os e)" "calc_ok (ev_driver e)" using assms(3) by (simp_all add: env_ok_def)
  show ?thesis
    unfolding new_flow4_def Let_def
    by (auto simp: assms keeps_def ok intro!: go_runs sendPass_runs hijack_flow_runs
        runs_bind [OF decideNewFlow_runs [OF lookupName_runs [OF ok(1)]]])
qed

lemma new_flow6_runs:
  assumes "io w = io w0" "room pkt w0" "env_ok e"
  shows "runs (emitted pkt w0) (new_flow6 e pkt addr key flags w)"
proof -
  have ok: "os_ok (ev_os e)" using assms(3) by (simp add: env_ok_def)
  show ?thesis
    unfolding new_flow6_def Let_def
    by (auto simp: assms keeps_def intro!: go_runs sendPass_runs emitted_none
        runs_bind [OF decideNewFlow_runs [OF lookupName6_runs [OF ok]]])
qed

lemma reverseNAT_runs:
  assumes "io w = io w0" "room pkt w0" "calc_ok (ev_driver e)" "20 \<le> ihl" "ihl + 4 \<le> length pkt"
  shows "runs (emitted pkt w0) (reverseNAT e pkt addr ihl w)"
proof -
  have reply: "runs (emitted pkt w0) (do { (p, a) \<leftarrow> rewriteReply pkt addr ihl t; Some (snd (calcAndSend e p a w)) })" for t
  proof -
    obtain p a where p: "rewriteReply pkt addr ihl t = Some (p, a)"
      using rewriteReply_runs [OF assms(4,5), of addr t] by (auto simp: runs_def)
    obtain err w2 where c: "calcAndSend e p a w = (err, w2)" by fastforce
    show ?thesis
      using calcAndSend_emits [OF assms(1-3) length_rewriteReply [OF p] c] by (simp add: p c runs_def)
  qed
  show ?thesis
    unfolding reverseNAT_def Let_def
    using assms reply by (auto intro!: go_runs sendPass_runs split: option.split)
qed

lemma handleIPv4TCP_runs:
  assumes "room pkt w" "env_ok e" "20 \<le> ihl"
  shows "runs (emitted pkt w) (handleIPv4TCP e pkt addr ihl w)"
proof (cases "length pkt < ihl + 20")
  case True
  then show ?thesis
    using sendPass_runs [OF refl assms(1)] by (simp add: handleIPv4TCP_def)
next
  case False
  have ok: "calc_ok (ev_driver e)" using assms(2) by (simp add: env_ok_def)
  have len: "ihl + 4 \<le> length pkt" using False by simp
  note steps = reverseNAT_runs [OF _ assms(1) ok assms(3) len] sendPass_runs [OF _ assms(1)]
    new_flow4_runs [OF _ assms(1-3) len] hijackWithPort_runs [OF _ assms(1) ok assms(3) len]
    hijack_flow_runs [OF _ assms(1) ok assms(3) len]
  show ?thesis
    unfolding handleIPv4TCP_def Let_def
    using False assms(3) by (auto intro!: go_runs steps split: option.split)
qed

lemma handleIPv4UDP_runs:
  assumes "room pkt w" "env_ok e" "20 \<le> ihl"
  shows "runs (emitted pkt w) (handleIPv4UDP e pkt addr ihl w)"
proof -
  have ok: "os_ok (ev_os e)" using assms(2) by (simp add: env_ok_def)
  show ?thesis
    unfolding handleIPv4UDP_def Let_def
    using assms(3)
    by (auto intro!: go_runs runs_bind [OF LookupUDPWithRefresh_runs [OF ok]] sendPass_runs [OF _ assms(1)] emitted_none [OF _ assms(1)])
qed

lemma handleIPv6TCP_runs:
  assumes "room pkt w" "env_ok e"
  shows "runs (emitted pkt w) (handleIPv6TCP e pkt addr w)"
  unfolding handleIPv6TCP_def Let_def
  by (auto intro!: go_runs new_flow6_runs [OF _ assms] sendPass_runs [OF _ assms(1)] emitted_none [OF _ assms(1)]
      split: option.split)

lemma handleIPv6UDP_runs:
  assumes "room pkt w" "env_ok e"
  shows "runs (emitted pkt w) (handleIPv6UDP e pkt addr w)"
proof -
  have ok: "os_ok (ev_os e)" using assms(2) by (simp add: env_ok_def)
  have look: "runs (keeps (w_ic w)) (if LookupIPv6UDP f (ic_udp6 (w_ic w)) = None then refresh_udp6 e (w_ic w) else Some (w_ic w))" for f
    using refresh_udp6_runs [OF ok, of "w_ic w"] by (simp add: runs_Some)
  show ?thesis
    unfolding handleIPv6UDP_def Let_def
    by (auto simp: keeps_def status_def intro!: go_runs runs_bind [OF look] sendPass_runs [OF _ assms(1)] emitted_none [OF _ assms(1)])
qed

lemma handlePacket_runs:
  assumes "room pkt w" "env_ok e"
  shows "runs (emitted pkt w) (handlePacket e pkt addr w)"
  unfolding handlePacket_def handleIPv6_def Let_def
  using assms(1)
  by (auto intro!: go_runs emitted_none [OF refl] handleIPv4TCP_runs [OF assms] handleIPv4UDP_runs [OF assms]
      handleIPv6TCP_runs [OF assms] handleIPv6UDP_runs [OF assms] sendPass_runs [OF refl assms(1)])

section \<open>Batches\<close>

primrec handle_all :: "(nat \<Rightarrow> packet_env) \<Rightarrow> nat \<Rightarrow> (byte list \<times> winDivertAddress) list \<Rightarrow> world \<Rightarrow> world option" where
  "handle_all e p [] w = Some w"
| "handle_all e p (x # xs) w = do { w \<leftarrow> handlePacket (e p) (fst x) (snd x) w; handle_all e (p + 1) xs w }"

lemma batch_loop_whole:
  assumes "\<forall>x \<in> set xs. whole_packet (fst x)" "buf = pre @ concat (map fst xs)"
  shows "batch_loop e buf (map snd xs) (length pre) p w =
    do { w \<leftarrow> handle_all e p xs w; Some (Inr (length buf, p + length xs), w) }"
  using assms
proof (induction xs arbitrary: pre p w)
  case (Cons x xs)
  obtain pkt addr where x: "x = (pkt, addr)" by (cases x)
  have whole: "whole_packet pkt" using Cons.prems(1) x by simp
  have buf: "buf = pre @ pkt @ concat (map fst xs)" using Cons.prems(2) x by simp
  have ne: "length pre < length buf" using whole_packet_bounds [OF whole] by (cases pkt) (simp_all add: buf)
  have rest: "subslice buf (length pre) (length buf) = Some (pkt @ concat (map fst xs))"
    by (simp add: buf slice_Some)
  have cut: "subslice buf (length pre) (length pre + length pkt) = Some pkt"
    by (simp add: buf slice_Some)
  have IH: "batch_loop e buf (map snd xs) (length (pre @ pkt)) (p + 1) w' =
      do { w \<leftarrow> handle_all e (p + 1) xs w'; Some (Inr (length buf, p + 1 + length xs), w) }" for w'
    using Cons.prems by (intro Cons.IH) (simp_all add: buf)
  have "batch_loop e buf (map snd (x # xs)) (length pre) p w =
      do { w \<leftarrow> handlePacket (e p) pkt addr w; batch_loop e buf (map snd xs) (length (pre @ pkt)) (p + 1) w }"
    using ne rest cut by (simp add: x whole_packet_append [OF whole] buf)
  then show ?case
    unfolding IH by (cases "handlePacket (e p) pkt addr w") (simp_all add: x)
qed simp

text \<open>The queue after a part of a batch that starts with an empty one: its bytes are at most those
  read so far, its capacity is untouched, and nothing was sent on the way.\<close>

definition within :: "nat \<Rightarrow> nat \<Rightarrow> world \<Rightarrow> world \<Rightarrow> bool" where
  "within bytes packets w0 w \<longleftrightarrow> w_calls w = w_calls w0 \<and> status (w_ic w) = status (w_ic w0) \<and>
     (\<exists>q. w_q w = Some q \<and> sq_inv q \<and> length (sq_buf q) \<le> bytes \<and> sq_count q \<le> packets \<and> sq_cap q = recvBufSize)"

lemma within_emitted:
  assumes "within off p w0 w" "emitted pkt w w'" "off + length pkt \<le> recvBufSize"
  shows "within (off + length pkt) (p + 1) w0 w'"
proof -
  obtain q where q: "w_q w = Some q" "sq_inv q" "length (sq_buf q) \<le> off" "sq_count q \<le> p" "sq_cap q = recvBufSize"
    using assms(1) by (auto simp: within_def)
  have "sq_count (sq_push pk a q) \<le> p + 1" for pk a
    using q(4) by (simp add: sq_push_def sq_count_def)
  moreover have "sq_cap (sq_push pk a q) = recvBufSize" if "length pk = length pkt" for pk a
    using q that assms(3) by (subst sq_cap_push) auto
  ultimately show ?thesis
    using assms(1,2) q by (auto simp: within_def emitted_def sq_inv_push sq_buf_push)
qed

lemma within_room: "within off p w0 w \<Longrightarrow> off + length pkt \<le> recvBufSize \<Longrightarrow> room pkt w"
  by (auto simp: within_def room_def)

lemma batch_loop_within:
  assumes "within off p w0 w" "off \<le> length buf" "length buf \<le> recvBufSize" "\<And>i. env_ok (e i)"
  shows "runs (\<lambda>(_, w'). within (length buf) (p + length addrs) w0 w') (batch_loop e buf addrs off p w)"
  using assms(1,2)
proof (induction addrs arbitrary: off p w)
  case Nil
  then show ?case by (auto simp: within_def runs_def)
next
  case (Cons addr addrs)
  show ?case
  proof (cases "off < length buf")
    case False
    then show ?thesis using Cons.prems by (auto simp: within_def runs_def)
  next
    case True
    obtain r where r: "packetLen (drop off buf) = Some r" using packetLen_no_panic by blast
    show ?thesis
    proof (cases r)
      case (Inl err)
      then show ?thesis using Cons.prems True r by (auto simp: within_def runs_def slice_Some)
    next
      case (Inr n)
      have n: "n \<le> length buf - off"
        using packetLen_bounds [of "drop off buf" n] r Inr by simp
      let ?pkt = "take n (drop off buf)"
      have len: "length ?pkt = n" using n by simp
      have "room ?pkt w"
        using Cons.prems n assms(3) len by (intro within_room [OF Cons.prems(1)]) linarith
      from handlePacket_runs [OF this assms(4)] obtain w1 where
        w1: "handlePacket (e p) ?pkt addr w = Some w1" "emitted ?pkt w w1"
        by (auto simp: runs_def)
      have "within (off + n) (p + 1) w0 w1"
        using within_emitted [OF Cons.prems(1) w1(2)] n assms(3) len True by simp
      from Cons.IH [OF this] have "runs (\<lambda>(_, w'). within (length buf) (p + length (addr # addrs)) w0 w')
          (batch_loop e buf addrs (off + n) (p + 1) w1)"
        using True n by simp
      moreover have "\<not> length buf < off + n" using True n by simp
      ultimately show ?thesis
        using True r Inr w1(1) by (simp add: slice_Some)
    qed
  qed
qed

section \<open>An environment for examples\<close>

text \<open>A driver whose calls succeed, tables that cannot be read, and a fixed clock.\<close>

definition plain_driver :: driver where
  "plain_driver = \<lparr>drv_recv = \<lambda>_. None, drv_recvEx = None, drv_send = \<lambda>_ _. True, drv_sendEx = None,
     drv_calc = \<lambda>p a. Some (p, a)\<rparr>"

definition quiet_table :: win_table where
  "quiet_table = \<lparr>wt_probe = (5, 0), wt_fetch = \<lambda>_ _. (0, [], 0)\<rparr>"

definition quiet_env :: packet_env where
  "quiet_env = \<lparr>ev_now = 0, ev_driver = plain_driver,
     ev_os = \<lparr>os_tcp4 = quiet_table, os_udp4 = quiet_table, os_tcp6 = quiet_table, os_udp6 = quiet_table,
              os_proc = \<lparr>pa_open = \<lambda>_. 0, pa_query = \<lambda>_ _. (False, [], 0, 5)\<rparr>\<rparr>,
     ev_clock = (0, 0), ev_wait = \<lambda>r. r, ev_clock6 = (0, 0, 0), ev_pids6 = []\<rparr>"

lemma quiet_query: "queryWinTable quiet_table = Inl (ProbeFailed 5)"
  by (simp add: quiet_table_def queryWinTable_def errorInsufficientBuffer_def)

lemma quiet_ok [simp]: "env_ok quiet_env"
  by (simp add: env_ok_def calc_ok_def os_ok_def quiet_env_def plain_driver_def quiet_query readable_def readable6_def)

definition idle_world :: world where
  "idle_world = \<lparr>w_ic = (NewInterceptor (NewConnTracker 15 30 7893) '''' 0 7893 [])\<lparr>ic_handle := True\<rparr>,
     w_q = Some newSendQueue, w_calls = []\<rparr>"

definition some_address :: winDivertAddress where
  "some_address = \<lparr>wa_Timestamp = 0, wa_Bits = 0, wa_Reserved2 = 0, wa_IfIdx = 3, wa_SubIfIdx = 0, wa_Data = replicate 56 0\<rparr>"

lemma idle_world_simps [simp]:
  "w_q idle_world = Some newSendQueue" "w_calls idle_world = []" "ic_handle (w_ic idle_world) = True"
  "ic_tracker (w_ic idle_world) = NewConnTracker 15 30 7893" "ic_tproxyPort (w_ic idle_world) = 7893"
  "ic_policies (w_ic idle_world) = newFlowPolicies" "ic_proxy4 (w_ic idle_world) = None" "ic_whitelist (w_ic idle_world) = {}"
  by (simp_all add: idle_world_def NewInterceptor_def SetWhitelist_def setState_def SetProxyAddr_def parseIPv4Bytes_def)

lemma newSendQueue_simps [simp]: "sq_buf newSendQueue = []" "sq_cap newSendQueue = recvBufSize" "sq_lens newSendQueue = []"
  by (simp_all add: newSendQueue_def)

section \<open>Properties\<close>

text \<open>C6. No packet, whatever its bytes, makes a handler panic, and handling it hands the driver nothing
  by itself: the queue for reinjection is as before or has one more packet, of the same length. So
  a packet is never reinjected twice, and a handler never forgets what was queued before it.\<close>

theorem handle_packet_at_most_once:
  assumes "env_ok e" "w_q w = Some q" "length (sq_buf q) + length pkt \<le> sq_cap q"
  shows "\<exists>w'. handlePacket e pkt addr w = Some w' \<and> w_calls w' = w_calls w \<and>
    (w_q w' = Some q \<or> (\<exists>p a. length p = length pkt \<and> w_q w' = Some (sq_push p a q)))"
proof -
  have "room pkt w" using assms(2,3) by (simp add: room_def)
  from handlePacket_runs [OF this assms(1), of addr] show ?thesis
    using assms(2) by (auto simp: runs_def emitted_def)
qed

theorem handle_packet_at_most_once_witness:
  "\<exists>w'. handlePacket quiet_env (0x45 # replicate 39 0) some_address idle_world = Some w' \<and>
     w_calls w' = w_calls idle_world \<and>
     (w_q w' = Some newSendQueue \<or> (\<exists>p a. length p = 40 \<and> w_q w' = Some (sq_push p a newSendQueue)))"
  using handle_packet_at_most_once [of quiet_env idle_world newSendQueue "0x45 # replicate 39 0" some_address]
  by (simp add: recvBufSize_def batchPackets_def maxPacketSize_def)

text \<open>C14. \<open>processBatch\<close> cuts a batch exactly: from the concatenation of whole packets, with an address
  for each, it handles these packets, each with its own address, in their order, and reports no
  error.\<close>

theorem process_batch_splits:
  assumes "\<forall>x \<in> set xs. whole_packet (fst x)"
  shows "processBatch e (concat (map fst xs)) (map snd xs) w =
    do { w' \<leftarrow> handle_all e 0 xs w; Some (None, w') }"
  using batch_loop_whole [OF assms, of "concat (map fst xs)" "[]" e 0 w]
  by (cases "handle_all e 0 xs w") (simp_all add: processBatch_def)

theorem process_batch_splits_witness:
  "let p = 0x45 # 0 # 0 # 20 # replicate 16 0; r = 0x45 # 0 # 0 # 21 # replicate 17 1
   in processBatch (\<lambda>_. quiet_env) (p @ r) [some_address, some_address] idle_world =
     do { w' \<leftarrow> handle_all (\<lambda>_. quiet_env) 0 [(p, some_address), (r, some_address)] idle_world; Some (None, w') }"
proof -
  obtain p r where pr: "p = 0x45 # 0 # 0 # 20 # replicate 16 (0 :: byte)" "r = 0x45 # 0 # 0 # 21 # replicate 17 (1 :: byte)"
    by simp
  have "whole_packet p" "whole_packet r"
    by (simp_all add: whole_packet_def packetLen_Inr pr unat_word16)
  then show ?thesis
    using process_batch_splits [of "[(p, some_address), (r, some_address)]" "\<lambda>_. quiet_env" idle_world]
    unfolding Let_def pr [symmetric] by simp
qed

text \<open>C31. A batch that fits the receive buffer, whatever its bytes and however the lengths in it lie, is
  processed without a panic; the reinjection queue, empty at the start, stays within its reserved
  capacity, so it is neither reallocated nor flushed before the end of the batch, and holds at most
  one packet per address.\<close>

theorem process_batch_in_bounds:
  assumes "\<And>i. env_ok (e i)" "length buf \<le> recvBufSize" "w_q w = Some newSendQueue"
  shows "\<exists>r w' q. processBatch e buf addrs w = Some (r, w') \<and> w_calls w' = w_calls w \<and> w_q w' = Some q \<and>
    length (sq_buf q) \<le> length buf \<and> sq_cap q = recvBufSize \<and> sq_count q \<le> length addrs"
proof -
  have "within 0 0 w w"
    using assms(3) by (simp add: within_def sq_count_def)
  from batch_loop_within [OF this _ assms(2), of e addrs] assms(1) obtain r w' where
    r: "batch_loop e buf addrs 0 0 w = Some (r, w')" "within (length buf) (length addrs) w w'"
    by (auto simp: runs_def)
  then show ?thesis
    by (auto simp: processBatch_def within_def split: sum.split)
qed

theorem process_batch_in_bounds_witness:
  "\<exists>r w' q. processBatch (\<lambda>_. quiet_env) (replicate 100 0x45) [some_address] idle_world = Some (r, w') \<and>
     w_calls w' = w_calls idle_world \<and> w_q w' = Some q \<and> length (sq_buf q) \<le> 100 \<and> sq_count q \<le> 1"
proof -
  have "length (replicate 100 0x45 :: byte list) \<le> recvBufSize"
    by (simp add: recvBufSize_def batchPackets_def maxPacketSize_def)
  from process_batch_in_bounds [of "\<lambda>_. quiet_env" "replicate 100 0x45" idle_world "[some_address]", OF quiet_ok this]
  show ?thesis by fastforce
qed

end
