(* ===== verification/Routing.thy ===== *)
theory Routing
  imports PacketPath
begin

text \<open>
  How the IPv4 TCP handler routes: a decided flow keeps its route whatever is learnt about processes
  or changed in the whitelist, a flow first seen in its middle is never hijacked, what each outcome
  of a hijack leaves behind, what a closing packet does, and the way a hijacked connection goes out
  through the TProxy and comes back.
\<close>

section \<open>A TCP packet as the handler sees it\<close>

definition tcp4_packet :: "nat \<Rightarrow> byte list \<Rightarrow> byte \<times> byte \<times> byte \<times> byte \<Rightarrow> byte \<times> byte \<times> byte \<times> byte \<Rightarrow> u16 \<Rightarrow> u16 \<Rightarrow> byte \<Rightarrow> bool" where
  "tcp4_packet ihl pkt src dst sp dp flags \<longleftrightarrow> 20 \<le> ihl \<and> ihl + 20 \<le> length pkt \<and>
     quad_at pkt 12 = Some src \<and> quad_at pkt 16 = Some dst \<and>
     be16_at pkt ihl = Some sp \<and> be16_at pkt (ihl + 2) = Some dp \<and> idx pkt (ihl + 13) = Some flags"

definition u32_of :: "byte \<times> byte \<times> byte \<times> byte \<Rightarrow> u32" where
  "u32_of = (\<lambda>(a, b, c, d). word32 d c b a)"

definition key4 :: "byte \<times> byte \<times> byte \<times> byte \<Rightarrow> byte \<times> byte \<times> byte \<times> byte \<Rightarrow> u16 \<Rightarrow> u16 \<Rightarrow> flowKey" where
  "key4 src dst sp dp = flowKeyV4 (u32_of src) (u32_of dst) sp dp"

definition bytes4 :: "byte \<times> byte \<times> byte \<times> byte \<Rightarrow> byte list" where
  "bytes4 = (\<lambda>(a, b, c, d). [a, b, c, d])"

lemma length_bytes4 [simp]: "length (bytes4 q) = 4"
  by (simp add: bytes4_def split: prod.split)

lemma To4_ip4 [simp]: "To4 (ip4 q) = Some (bytes4 q)"
  by (simp add: ip4_def bytes4_def split: prod.split)

lemma quad_bytes: "quad_at pkt i = Some q \<longleftrightarrow> subslice pkt i (i + 4) = Some (bytes4 q)"
proof -
  have "take 4 (drop i pkt) = [pkt ! i, pkt ! (i + 1), pkt ! (i + 2), pkt ! (i + 3)]" if "i + 4 \<le> length pkt"
    using that by (intro nth_equalityI) (auto simp: less_Suc_eq numeral_eq_Suc)
  then show ?thesis
    by (cases q) (auto simp: quad_at_def bytes4_def subslice_def idx_def bind_eq_Some_conv)
qed

lemma le32_of_quad: "quad_at pkt i = Some q \<Longrightarrow> le32_at pkt i = Some (u32_of q)"
  by (cases q) (auto simp: quad_at_def idx_def u32_of_def le32_at_Some bind_eq_Some_conv split: if_splits)

text \<open>The handler on such a packet.\<close>

lemma handleIPv4TCP_packet:
  assumes "tcp4_packet ihl pkt src dst sp dp flags"
  shows "handleIPv4TCP e pkt addr ihl w =
    (let key = key4 src dst sp dp;
         flow = \<lparr>fl_LocalIP = u32_of src, fl_LocalPort = sp, fl_RemoteIP = u32_of dst, fl_RemotePort = dp\<rparr>
     in if sp = ic_tproxyPort (w_ic w) then reverseNAT e pkt addr ihl w
        else if ic_proxy4 (w_ic w) = Some dst \<or> local4 dst then sendPass e pkt addr w
        else case fp_Get key (ic_policies (w_ic w)) of
          Some (kind, mapped) \<Rightarrow>
            if flags AND (tcpFIN OR tcpRST) \<noteq> 0 \<or> kind = policyUndecided \<and> isConnectionStart flags
            then new_flow4 e pkt addr ihl key flow src dst flags (on_ic (ic_policies_update (fp_Delete key)) w)
            else if kind = policyIntercept then
              (if mapped \<noteq> 0 \<and> ct_HasMapped mapped (ic_tracker (w_ic w))
               then hijackWithPort e pkt addr mapped (ic_tproxyPort (w_ic w)) ihl w
               else hijack_flow e pkt addr ihl key src dst sp dp w)
            else sendPass e pkt addr w
        | None \<Rightarrow> new_flow4 e pkt addr ihl key flow src dst flags w)"
  using assms
  by (simp add: handleIPv4TCP_def tcp4_packet_def le32_of_quad key4_def Let_def)

section \<open>Decided flows\<close>

text \<open>The state with another whitelist and other knowledge of processes.\<close>

definition relearn :: "string set \<Rightarrow> Resolver \<Rightarrow> ipv6TCPResolver \<Rightarrow> Interceptor \<Rightarrow> Interceptor" where
  "relearn names r t i = i\<lparr>ic_whitelist := names, ic_resolver := r, ic_tcp6 := t\<rparr>"

lemma relearn_simps [simp]:
  "ic_handle (relearn n r t i) = ic_handle i" "ic_tracker (relearn n r t i) = ic_tracker i"
  "ic_policies (relearn n r t i) = ic_policies i" "ic_tproxyPort (relearn n r t i) = ic_tproxyPort i"
  "ic_proxy4 (relearn n r t i) = ic_proxy4 i"
  by (simp_all add: relearn_def)

lemma on_ic_simps [simp]:
  "w_q (on_ic f w) = w_q w" "w_calls (on_ic f w) = w_calls w" "w_ic (on_ic f w) = f (w_ic w)"
  "(on_ic f w)\<lparr>w_q := q\<rparr> = on_ic f (w\<lparr>w_q := q\<rparr>)" "(on_ic f w)\<lparr>w_calls := c\<rparr> = on_ic f (w\<lparr>w_calls := c\<rparr>)"
  by (simp_all add: on_ic_def)

lemma relearn_on_ic [simp]:
  "on_ic (ic_tracker_update g) (on_ic (relearn n r t) w) = on_ic (relearn n r t) (on_ic (ic_tracker_update g) w)"
  "on_ic (ic_policies_update h) (on_ic (relearn n r t) w) = on_ic (relearn n r t) (on_ic (ic_policies_update h) w)"
  by (simp_all add: on_ic_def relearn_def)

lemma flushQueue_relearn:
  "flushQueue e (on_ic (relearn n r t) w) = map_option (on_ic (relearn n r t)) (flushQueue e w)"
  by (auto simp: flushQueue_def option.map_comp o_def Option.map_conv_bind_option split: option.split bind_splits)

lemma sendPass_relearn:
  "sendPass e pkt addr (on_ic (relearn n r t) w) = map_option (on_ic (relearn n r t)) (sendPass e pkt addr w)"
  by (cases "w_q w"; cases "flushQueue e w") (simp_all add: sendPass_def flushQueue_relearn)

lemma calcAndSend_relearn:
  "calcAndSend e pkt addr (on_ic (relearn n r t) w) =
     (case calcAndSend e pkt addr w of (err, w') \<Rightarrow> (err, on_ic (relearn n r t) w'))"
  by (auto simp: calcAndSend_def split: sum.split option.split prod.split)

lemma hijackWithPort_relearn:
  "hijackWithPort e pkt addr mp tp ihl (on_ic (relearn n r t) w) =
     map_option (on_ic (relearn n r t)) (hijackWithPort e pkt addr mp tp ihl w)"
  by (cases "rewriteHijack pkt addr ihl mp tp")
    (auto simp: hijackWithPort_def calcAndSend_relearn split: prod.split)

lemma hijackTCP_relearn:
  "hijackTCP e pkt addr src dst sp dp ihl (on_ic (relearn n r t) w) =
     map_option (\<lambda>(m, w'). (m, on_ic (relearn n r t) w')) (hijackTCP e pkt addr src dst sp dp ihl w)"
proof -
  obtain tracker res where s: "ct_Set (ev_now e) src sp dst dp (wa_IfIdx addr) (wa_SubIfIdx addr) (ic_tracker (w_ic w)) = (tracker, res)"
    by fastforce
  obtain w1 where w1: "w1 = on_ic (ic_tracker_update (\<lambda>_. tracker)) w" by simp
  have tp: "ic_tproxyPort (w_ic w1) = ic_tproxyPort (w_ic w)" by (simp add: w1)
  show ?thesis
  proof (cases res)
    case None
    then show ?thesis
      by (cases "sendPass e pkt addr w1") (simp_all add: hijackTCP_def s w1 [symmetric] sendPass_relearn)
  next
    case (Some mp)
    then show ?thesis
      by (cases "rewriteHijack pkt addr ihl mp (ic_tproxyPort (w_ic w1))")
        (auto simp: hijackTCP_def s w1 [symmetric] calcAndSend_relearn split: prod.split option.split)
  qed
qed

lemma hijack_flow_relearn:
  "hijack_flow e pkt addr ihl key src dst sp dp (on_ic (relearn n r t) w) =
     map_option (on_ic (relearn n r t)) (hijack_flow e pkt addr ihl key src dst sp dp w)"
  by (cases "hijackTCP e pkt addr (ip4 src) (ip4 dst) sp dp ihl w")
    (auto simp: hijack_flow_def hijackTCP_relearn)

lemma reverseNAT_relearn:
  "reverseNAT e pkt addr ihl (on_ic (relearn n r t) w) = map_option (on_ic (relearn n r t)) (reverseNAT e pkt addr ihl w)"
  by (auto simp: reverseNAT_def Let_def sendPass_relearn calcAndSend_relearn option.map_comp o_def
      split: option.split prod.split bind_splits)

section \<open>Outcomes of a hijack\<close>

lemma ct_reserve_port:
  assumes "ct_inv ct" "ct_reserve t ct = (ct', Some m)"
  shows "m \<noteq> 0 \<and> ct_inv ct' \<and> (\<exists>g. ct_lookup ct' m = Some g \<and> orig_key g = orig_key t)"
proof -
  obtain g where g: "ct_lookup ct' m = Some g" "orig_key g = orig_key t"
    using ct.reserve_leases [OF assms] by blast
  have inv: "ct_inv ct'" using assms by (rule ct_inv_reserve)
  have "m \<noteq> 0"
    using ct_inv_entry [OF inv] g(1) by (fastforce simp: ct_lookup_entries loopback_key_def)
  with g inv show ?thesis by blast
qed

lemma calcAndSend_queue:
  "w_q w = Some q \<Longrightarrow> ic_handle (w_ic w) \<Longrightarrow> CalcChecksums (ev_driver e) pkt addr = Inr (p, a) \<Longrightarrow>
   calcAndSend e pkt addr w = (None, w\<lparr>w_q := Some (sq_push p a q)\<rparr>)"
  by (simp add: calcAndSend_def)

lemma calcAndSend_fails:
  "w_q w = Some q \<Longrightarrow> \<not> ic_handle (w_ic w) \<or> CalcChecksums (ev_driver e) pkt addr = Inl err \<Longrightarrow>
   \<exists>err'. calcAndSend e pkt addr w = (Some err', w)"
  by (auto simp: calcAndSend_def split: sum.split)

text \<open>A lease that is given back leaves nothing of its flow in the index.\<close>

lemma ct_release_orig:
  assumes "ct_inv ct" "ct_lookup ct m = Some g"
  shows "ct_orig (ct_release m ct) (orig_key g) = None"
proof (rule ccontr)
  assume "ct_orig (ct_release m ct) (orig_key g) \<noteq> None"
  then obtain k where "ct_orig (ct_release m ct) (orig_key g) = Some k" by auto
  moreover have "ct_inv (ct_release m ct)"
    using assms(1) by (simp add: ct_release_def ct_inv_Delete)
  ultimately obtain h where "ct_entries (ct_release m ct) k = Some h" "orig_key h = orig_key g"
    using ct_inv_orig by blast
  then have "ct_entries ct k = Some h" "k \<noteq> loopback_key m" "orig_key h = orig_key g"
    by (auto simp: ct_release_entries split: if_splits)
  then show False
    using ct_inv_unique [of ct] assms by (metis ct_lookup_entries)
qed

text \<open>The lease a hijack asks for.\<close>

definition wanted :: "packet_env \<Rightarrow> winDivertAddress \<Rightarrow> byte \<times> byte \<times> byte \<times> byte \<Rightarrow> byte \<times> byte \<times> byte \<times> byte \<Rightarrow>
    u16 \<Rightarrow> u16 \<Rightarrow> ConnTarget" where
  "wanted e addr src dst sp dp = \<lparr>OrigSrcIP = ip4 src, OrigSrcPort = sp, OrigDstIP = ip4 dst, OrigDstPort = dp,
     OrigIfIdx = wa_IfIdx addr, OrigSubIfIdx = wa_SubIfIdx addr, CreatedAt = ev_now e\<rparr>"

lemma calcAndSend_ic: "w_ic (snd (calcAndSend e p a x)) = w_ic x"
  by (auto simp: calcAndSend_def Let_def split: sum.split prod.split option.split)

lemma hijackTCP_leased:
  assumes "ct_inv (ic_tracker (w_ic w))"
    and "hijackTCP e pkt addr (ip4 src) (ip4 dst) sp dp ihl w = Some (m, w1)" "m \<noteq> 0"
  obtains g where "ct_lookup (ic_tracker (w_ic w1)) m = Some g" "orig_key g = orig_key (wanted e addr src dst sp dp)"
proof -
  obtain tracker res where s: "ct_reserve (wanted e addr src dst sp dp) (ic_tracker (w_ic w)) = (tracker, res)" by fastforce
  have "res = Some m \<and> ic_tracker (w_ic w1) = tracker"
  proof (cases res)
    case None
    then show ?thesis
      using assms(2,3) s by (auto simp: hijackTCP_def ct_Set_reserve wanted_def bind_eq_Some_conv)
  next
    case (Some p)
    obtain pk a where "rewriteHijack pkt addr ihl p (ic_tproxyPort (w_ic w)) = Some (pk, a)"
      using assms(2) s by (auto simp: hijackTCP_def ct_Set_reserve wanted_def Some bind_eq_Some_conv)
    moreover obtain err w3 where "calcAndSend e pk a (on_ic (ic_tracker_update (\<lambda>_. tracker)) w) = (err, w3)"
      by fastforce
    ultimately show ?thesis
      using assms(2,3) s calcAndSend_ic [of e pk a "on_ic (ic_tracker_update (\<lambda>_. tracker)) w"]
      by (auto simp: hijackTCP_def ct_Set_reserve wanted_def Some split: option.splits)
  qed
  then show thesis
    using ct_reserve_port [OF assms(1), of _ tracker m] s that by auto
qed

lemma leased_target:
  assumes "orig_key g = orig_key (wanted e addr src dst sp dp)"
  shows "To4 (OrigSrcIP g) = Some (bytes4 src)" "To4 (OrigDstIP g) = Some (bytes4 dst)"
    "OrigSrcPort g = sp" "OrigDstPort g = dp" "IP_String (OrigDstIP g) = dotted (bytes4 dst)"
proof -
  have same: "To4 ip = Some (bytes4 q)" if "IP_String ip = IP_String (ip4 q)" for ip q
    using that by (cases q) (auto simp: ip4_def bytes4_def intro: To4_of_dotted)
  have "IP_String (ip4 dst) = dotted (bytes4 dst)"
    by (simp add: ip4_def bytes4_def split: prod.split)
  then show "To4 (OrigSrcIP g) = Some (bytes4 src)" "To4 (OrigDstIP g) = Some (bytes4 dst)"
    "OrigSrcPort g = sp" "OrigDstPort g = dp" "IP_String (OrigDstIP g) = dotted (bytes4 dst)"
    using assms by (simp_all add: orig_key_def wanted_def same)
qed

lemma hijackTCP_queued:
  assumes "ct_inv (ic_tracker (w_ic w))" "w_q w = Some q" "20 \<le> ihl" "ihl + 4 \<le> length pkt" "ic_handle (w_ic w)"
    and "ct_reserve (wanted e addr src dst sp dp) (ic_tracker (w_ic w)) = (tracker, Some m)"
    and "CalcChecksums (ev_driver e) (with_tuple pkt ihl loopbackV4 loopbackV4 m (ic_tproxyPort (w_ic w)))
        (addr\<lparr>wa_Bits := wa_Bits addr OR (flagOutbound OR flagLoopback)\<rparr>) = Inr (p, a)"
  shows "hijackTCP e pkt addr (ip4 src) (ip4 dst) sp dp ihl w =
    Some (m, (on_ic (ic_tracker_update (\<lambda>_. tracker)) w)\<lparr>w_q := Some (sq_push p a q)\<rparr>)"
proof -
  obtain w1 where w1: "w1 = on_ic (ic_tracker_update (\<lambda>_. tracker)) w" by simp
  have "calcAndSend e (with_tuple pkt ihl loopbackV4 loopbackV4 m (ic_tproxyPort (w_ic w)))
      (addr\<lparr>wa_Bits := wa_Bits addr OR (flagOutbound OR flagLoopback)\<rparr>) w1 = (None, w1\<lparr>w_q := Some (sq_push p a q)\<rparr>)"
    using assms by (intro calcAndSend_queue) (simp_all add: w1)
  then show ?thesis
    using assms(6) rewriteHijack_tuple [OF assms(3,4), of addr m "ic_tproxyPort (w_ic w)"]
    by (simp add: hijackTCP_def ct_Set_reserve wanted_def w1)
qed

section \<open>An example packet\<close>

text \<open>A bare TCP segment from 10.0.0.5 port 50000 to 1.2.3.4 port 443 with the given flags.\<close>

definition segment :: "byte \<Rightarrow> byte list" where
  "segment flags = [0x45, 0, 0, 40, 0, 0, 0, 0, 64, 6, 0, 0, 10, 0, 0, 5, 1, 2, 3, 4] @
     port_bytes 50000 @ port_bytes 443 @ replicate 9 0 @ [flags] @ replicate 6 0"

abbreviation "peer_a \<equiv> (10 :: byte, 0 :: byte, 0 :: byte, 5 :: byte)"
abbreviation "peer_b \<equiv> (1 :: byte, 2 :: byte, 3 :: byte, 4 :: byte)"

lemma segment_packet: "tcp4_packet 20 (segment flags) peer_a peer_b 50000 443 flags"
proof -
  have "be16_at (segment flags) 20 = Some 50000" "be16_at (segment flags) 22 = Some 443"
    by (simp_all add: segment_def port_bytes_def be16_at_Some)
  then show ?thesis
    by (simp add: tcp4_packet_def quad_at_def idx_def segment_def port_bytes_def nth_append)
qed

lemma segment_not_local [simp]: "\<not> local4 peer_b"
  by (simp add: local4_def isPrivateOrLocal4_def word_le_nat_alt)

lemma flags_simps [simp]:
  "tcpACK AND (tcpFIN OR tcpRST) = 0" "\<not> isConnectionStart tcpACK" "tcpFIN AND (tcpFIN OR tcpRST) \<noteq> 0"
  by (simp_all add: tcpACK_def tcpFIN_def tcpRST_def tcpSYN_def isConnectionStart_def)

section \<open>Properties\<close>

text \<open>C8. Once a flow is decided its route does not change while it lives: whatever happens to the
  whitelist and to what is known about processes, a packet of it that neither closes it nor retries
  an undecided handshake has exactly the same effect on the queue, the driver, the tracker and the
  policies.\<close>

theorem decided_flow_keeps_route:
  assumes "tcp4_packet ihl pkt src dst sp dp flags"
    and "fp_Get (key4 src dst sp dp) (ic_policies (w_ic w)) = Some (kind, m)"
    and "flags AND (tcpFIN OR tcpRST) = 0" "kind \<noteq> policyUndecided \<or> \<not> isConnectionStart flags"
  shows "handleIPv4TCP e pkt addr ihl (on_ic (relearn names r t) w) =
    map_option (on_ic (relearn names r t)) (handleIPv4TCP e pkt addr ihl w)"
  using assms(2-4)
  by (auto simp: handleIPv4TCP_packet [OF assms(1)] Let_def reverseNAT_relearn sendPass_relearn
      hijackWithPort_relearn hijack_flow_relearn)

theorem decided_flow_keeps_route_witness:
  "let w = on_ic (ic_policies_update (fp_Set 0 (key4 peer_a peer_b 50000 443) policyPass 0)) idle_world
   in handleIPv4TCP quiet_env (segment tcpACK) some_address 20 (on_ic (relearn {''a''} NewResolver (ic_tcp6 (w_ic w))) w) =
     map_option (on_ic (relearn {''a''} NewResolver (ic_tcp6 (w_ic w)))) (handleIPv4TCP quiet_env (segment tcpACK) some_address 20 w)"
proof -
  obtain w where w: "w = on_ic (ic_policies_update (fp_Set 0 (key4 peer_a peer_b 50000 443) policyPass 0)) idle_world"
    by simp
  have "fp_Get (key4 peer_a peer_b 50000 443) (ic_policies (w_ic w)) = Some (policyPass, 0)"
    by (simp add: w fp_Get_def fp_Set_def)
  from decided_flow_keeps_route [OF segment_packet this, where e = quiet_env and addr = some_address] show ?thesis
    unfolding Let_def w [symmetric] by simp
qed

text \<open>A connection the proxy first sees in its middle is never hijacked: a packet of an unknown flow
  that is neither a connection start nor closing passes unchanged, and the flow is fixed as passing,
  whichever process it belongs to.\<close>

theorem midstream_flow_passes:
  assumes "tcp4_packet ihl pkt src dst sp dp flags" "fp_Get (key4 src dst sp dp) (ic_policies (w_ic w)) = None"
    and "\<not> isConnectionStart flags" "flags AND (tcpFIN OR tcpRST) = 0"
    and "sp \<noteq> ic_tproxyPort (w_ic w)" "ic_proxy4 (w_ic w) \<noteq> Some dst" "\<not> local4 dst"
  shows "handleIPv4TCP e pkt addr ihl w = sendPass e pkt addr
    (on_ic (ic_policies_update (fp_Set (ev_now e) (key4 src dst sp dp) policyPass 0)) w)"
  using assms(2-) by (simp add: handleIPv4TCP_packet [OF assms(1)] Let_def new_flow4_def decideNewFlow_def)

theorem midstream_flow_passes_witness:
  "handleIPv4TCP quiet_env (segment tcpACK) some_address 20 idle_world = sendPass quiet_env (segment tcpACK) some_address
     (on_ic (ic_policies_update (fp_Set 0 (key4 peer_a peer_b 50000 443) policyPass 0)) idle_world)"
proof -
  have "fp_Get (key4 peer_a peer_b 50000 443) (ic_policies (w_ic idle_world)) = None"
    by (simp add: fp_Get_def newFlowPolicies_def)
  from midstream_flow_passes [OF segment_packet this, where e = quiet_env and addr = some_address] show ?thesis
    by (simp add: quiet_env_def)
qed

text \<open>C21. A hijack has three outcomes and each leaves a consistent state: the rewritten packet is queued,
  the flow is fixed as intercepted with the port the tracker leased to it; or the port pool is
  exhausted, the packet is queued as it came and the flow is fixed as passing; or the rewritten
  packet cannot be finished, it is dropped (never sent half changed), the lease is given back and the
  flow is fixed as passing.\<close>

theorem hijack_outcomes:
  assumes "ct_inv (ic_tracker (w_ic w))" "w_q w = Some q" "length (sq_buf q) + length pkt \<le> sq_cap q"
    and "20 \<le> ihl" "ihl + 4 \<le> length pkt"
  shows "\<exists>w' kind m. hijack_flow e pkt addr ihl key src dst sp dp w = Some w' \<and>
    fp_Get key (ic_policies (w_ic w')) = Some (kind, m) \<and>
    (kind = policyIntercept \<and> ct_HasMapped m (ic_tracker (w_ic w')) \<and>
       (\<exists>p a. CalcChecksums (ev_driver e) (with_tuple pkt ihl loopbackV4 loopbackV4 m (ic_tproxyPort (w_ic w)))
            (addr\<lparr>wa_Bits := wa_Bits addr OR (flagOutbound OR flagLoopback)\<rparr>) = Inr (p, a) \<and>
          w_q w' = Some (sq_push p a q))
     \<or> kind = policyPass \<and> m = 0 \<and> w_q w' = Some (sq_push pkt addr q) \<and> (\<forall>p. in_pool p \<longrightarrow> p = ct_reservedPort (ic_tracker (w_ic w)) \<or>
          ct_entries (ic_tracker (w_ic w)) (loopback_key p) \<noteq> None)
     \<or> kind = policyPass \<and> m = 0 \<and> w_q w' = Some q \<and> ct_orig (ic_tracker (w_ic w'))
          \<lparr>of_SrcIP = IP_String (ip4 src), of_SrcPort = sp, of_DstIP = IP_String (ip4 dst), of_DstPort = dp\<rparr> = None)"
proof -
  let ?t = "wanted e addr src dst sp dp"
  note set = ct_Set_reserve [of "ev_now e" "ip4 src" sp "ip4 dst" dp "wa_IfIdx addr" "wa_SubIfIdx addr", folded wanted_def]
  obtain tracker res where s: "ct_reserve ?t (ic_tracker (w_ic w)) = (tracker, res)" by fastforce
  obtain w1 where w1: "w1 = on_ic (ic_tracker_update (\<lambda>_. tracker)) w" by simp
  have tr: "ic_tracker (w_ic w1) = tracker" "w_q w1 = Some q" "ic_tproxyPort (w_ic w1) = ic_tproxyPort (w_ic w)"
    using assms(2) by (simp_all add: w1)
  show ?thesis
  proof (cases res)
    case None
    have "sendPass e pkt addr w1 = Some (w1\<lparr>w_q := Some (sq_push pkt addr q)\<rparr>)"
      by (rule sendPass_room [OF tr(2) assms(3)])
    moreover have "\<forall>p. in_pool p \<longrightarrow> \<not> port_free (ic_tracker (w_ic w)) p"
      using s None alloc_fails_iff [OF assms(1), of ?t] by (auto simp: ct_reserve_unfold [OF assms(1)] split: option.splits)
    ultimately show ?thesis
      by (auto simp: hijack_flow_def hijackTCP_def set s None w1 [symmetric] fp_Get_def fp_Set_def port_free_def)
  next
    case (Some m)
    note lease = ct_reserve_port [OF assms(1) s [unfolded Some]]
    let ?p = "with_tuple pkt ihl loopbackV4 loopbackV4 m (ic_tproxyPort (w_ic w))"
    let ?a = "addr\<lparr>wa_Bits := wa_Bits addr OR (flagOutbound OR flagLoopback)\<rparr>"
    show ?thesis
    proof (cases "ic_handle (w_ic w) \<and> (\<exists>r. CalcChecksums (ev_driver e) ?p ?a = Inr r)")
      case True
      then obtain p a where c: "CalcChecksums (ev_driver e) ?p ?a = Inr (p, a)" by auto
      have "hijackTCP e pkt addr (ip4 src) (ip4 dst) sp dp ihl w = Some (m, w1\<lparr>w_q := Some (sq_push p a q)\<rparr>)"
        unfolding w1 by (rule hijackTCP_queued [OF assms(1,2,4,5) _ s [unfolded Some] c]) (use True in simp)
      then show ?thesis
        using c lease
        by (intro exI [of _ "on_ic (ic_policies_update (fp_Set (ev_now e) key policyIntercept m)) (w1\<lparr>w_q := Some (sq_push p a q)\<rparr>)"]
              exI [of _ policyIntercept] exI [of _ m])
          (auto simp: hijack_flow_def fp_Get_def fp_Set_def tr ct_HasMapped_lookup)
    next
      case False
      have "\<exists>err. \<not> ic_handle (w_ic w1) \<or> CalcChecksums (ev_driver e) ?p ?a = Inl err"
        using False by (cases "CalcChecksums (ev_driver e) ?p ?a") (auto simp: w1)
      then obtain err where c: "calcAndSend e ?p ?a w1 = (Some err, w1)"
        using calcAndSend_fails [OF tr(2)] by blast
      have "orig_key ?t = \<lparr>of_SrcIP = IP_String (ip4 src), of_SrcPort = sp, of_DstIP = IP_String (ip4 dst), of_DstPort = dp\<rparr>"
        by (simp add: orig_key_def wanted_def)
      moreover have "ct_orig (ct_release m tracker) (orig_key ?t) = None"
        using lease ct_release_orig [of tracker m] by metis
      ultimately show ?thesis
        using c rewriteHijack_tuple [OF assms(4,5), of addr m "ic_tproxyPort (w_ic w)"]
        by (auto simp: hijack_flow_def hijackTCP_def set s Some w1 [symmetric] tr fp_Get_def fp_Set_def ct_release_def)
    qed
  qed
qed

theorem hijack_outcomes_witness:
  "\<exists>w' kind m. hijack_flow quiet_env (segment tcpSYN) some_address 20 (key4 peer_a peer_b 50000 443) peer_a peer_b 50000 443
       idle_world = Some w' \<and> fp_Get (key4 peer_a peer_b 50000 443) (ic_policies (w_ic w')) = Some (kind, m)"
proof -
  have "ct_inv (ic_tracker (w_ic idle_world))" by (simp add: ct_inv_New)
  from hijack_outcomes [OF this, of newSendQueue "segment tcpSYN" 20 quiet_env some_address "key4 peer_a peer_b 50000 443"
      peer_a peer_b 50000 443]
  show ?thesis
    by (auto simp: recvBufSize_def batchPackets_def maxPacketSize_def segment_def)
qed

text \<open>C1. What the TProxy sends back on a hijacked connection reaches the program as if it came from the
  server: after a hijack from \<open>src:sp\<close> to \<open>dst:dp\<close> over the mapped port \<open>m\<close>, as long as the tracker holds
  that lease, a packet to 127.0.0.1:\<open>m\<close> leaves \<open>reverseNAT\<close> with source \<open>dst:dp\<close>, destination \<open>src:sp\<close>
  and every other byte as it was (up to the checksums the driver sets), on the interface recorded
  with the lease.\<close>

theorem nat_round_trip:
  assumes "ct_inv (ic_tracker (w_ic w))"
    and "hijackTCP e pkt addr (ip4 src) (ip4 dst) sp dp ihl w = Some (m, w1)" "m \<noteq> 0"
    and "ct_lookup (ic_tracker (w_ic w2)) m = ct_lookup (ic_tracker (w_ic w1)) m"
    and "20 \<le> ihl'" "ihl' + 4 \<le> length reply" "quad_at reply 16 = Some (127, 0, 0, 1)" "be16_at reply (ihl' + 2) = Some m"
  shows "\<exists>g a. ct_lookup (ic_tracker (w_ic w2)) m = Some g \<and> wa_IfIdx a = OrigIfIdx g \<and> wa_SubIfIdx a = OrigSubIfIdx g \<and>
    reverseNAT e' reply addr' ihl' w2 =
    Some (snd (calcAndSend e' (with_tuple reply ihl' (bytes4 dst) (bytes4 src) dp sp) a w2))"
proof -
  obtain g where g: "ct_lookup (ic_tracker (w_ic w2)) m = Some g" "orig_key g = orig_key (wanted e addr src dst sp dp)"
    using hijackTCP_leased [OF assms(1-3)] assms(4) by metis
  note tgt = leased_target [OF g(2)]
  have "subslice reply 16 20 = Some [127, 0, 0, 1]"
    using assms(7) by (simp add: quad_bytes bytes4_def)
  then have "reverseNAT e' reply addr' ihl' w2 =
      do { (p, a) \<leftarrow> rewriteReply reply addr' ihl' g; Some (snd (calcAndSend e' p a w2)) }"
    using assms(8) g(1) by (simp add: reverseNAT_def ct_lookup_def)
  then show ?thesis
    using g(1) unfolding rewriteReply_tuple [OF assms(5,6) tgt(1,2)] tgt(3,4) bind.bind_lunit prod.case
    by (intro exI conjI) simp_all
qed

theorem nat_round_trip_witness:
  "let r = with_tuple (segment tcpACK) 20 loopbackV4 loopbackV4 7893 32768
   in \<exists>w a. reverseNAT quiet_env r some_address 20 w =
     Some (snd (calcAndSend quiet_env (with_tuple r 20 [1, 2, 3, 4] [10, 0, 0, 5] 443 50000) a w))"
proof -
  obtain r where r: "r = with_tuple (segment tcpACK) 20 loopbackV4 loopbackV4 7893 32768" by simp
  have len: "20 + 4 \<le> length (segment tcpACK)" "length r = 40" by (simp_all add: segment_def r length_with_tuple)
  note fields = with_tuple_fields [OF order_refl len(1), of loopbackV4 loopbackV4 7893 32768, folded r]
  have d: "quad_at r 16 = Some (127, 0, 0, 1)" "be16_at r (20 + 2) = Some 32768"
    using fields len by (simp_all add: quad_bytes bytes4_def slice_Some loopbackV4_def)
  obtain tr where set: "ct_Set 0 (ip4 peer_a) 50000 (ip4 peer_b) 443 3 0 (NewConnTracker 15 30 7893) = (tr, Some 32768)"
    using first_lease by (auto simp: ip4_def)
  obtain w1 where h: "hijackTCP quiet_env (segment tcpSYN) some_address (ip4 peer_a) (ip4 peer_b) 50000 443 20 idle_world = Some (32768, w1)"
  proof -
    have "20 + 4 \<le> length (segment tcpSYN)" by (simp add: segment_def)
    from rewriteHijack_tuple [OF order_refl this] show thesis
      using that set
      by (simp add: hijackTCP_def quiet_env_def some_address_def calcAndSend_def CalcChecksums_def plain_driver_def
          length_with_tuple segment_def)
  qed
  have inv: "ct_inv (ic_tracker (w_ic idle_world))" by (simp add: ct_inv_New)
  from nat_round_trip [OF inv h _ refl order_refl _ d, of quiet_env some_address] show ?thesis
    unfolding Let_def r [symmetric] by (auto simp: bytes4_def len)
qed

text \<open>A packet with FIN or RST of a hijacked connection is passed on unchanged, not towards the TProxy,
  and the decision on its flow is forgotten, so the packets after it are decided anew.\<close>

theorem closing_packet_leaves_route:
  assumes "tcp4_packet ihl pkt src dst sp dp flags"
    and "fp_Get (key4 src dst sp dp) (ic_policies (w_ic w)) = Some (policyIntercept, m)"
    and "flags AND (tcpFIN OR tcpRST) \<noteq> 0"
    and "sp \<noteq> ic_tproxyPort (w_ic w)" "ic_proxy4 (w_ic w) \<noteq> Some dst" "\<not> local4 dst"
  shows "handleIPv4TCP e pkt addr ihl w =
    sendPass e pkt addr (on_ic (ic_policies_update (fp_Delete (key4 src dst sp dp))) w)"
  using assms(2-) by (simp add: handleIPv4TCP_packet [OF assms(1)] Let_def new_flow4_def)

theorem closing_packet_leaves_route_witness:
  "let key = key4 peer_a peer_b 50000 443; w = on_ic (ic_policies_update (fp_Set 0 key policyIntercept 32768)) idle_world
   in handleIPv4TCP quiet_env (segment tcpFIN) some_address 20 w =
     sendPass quiet_env (segment tcpFIN) some_address (on_ic (ic_policies_update (fp_Delete key)) w)"
proof -
  obtain w where w: "w = on_ic (ic_policies_update (fp_Set 0 (key4 peer_a peer_b 50000 443) policyIntercept 32768)) idle_world"
    by simp
  have "fp_Get (key4 peer_a peer_b 50000 443) (ic_policies (w_ic w)) = Some (policyIntercept, 32768)"
    by (simp add: w fp_Get_def fp_Set_def)
  from closing_packet_leaves_route [OF segment_packet this flags_simps(3), where e = quiet_env and addr = some_address] show ?thesis
    unfolding Let_def w [symmetric] by (simp add: w)
qed

end
