(* ===== verification/Sni.thy ===== *)
theory Sni
  imports Prelude "HOL-Library.Sublist"
begin

text \<open>
  \<open>internal/engine/sni.go\<close>: the host name in the SNI extension of a TLS ClientHello. Every index and
  slice of the code is a checked one here; the outer \<open>option\<close> is the panic, the sum the error result.
\<close>

section \<open>The parser\<close>

datatype sni_error =
    NotHandshake | IncompleteRecord | NotClientHello | IncompleteClientHello | ClientHelloTooShort
  | BadSessionID | MissingCipherSuites | BadCipherSuites | MissingCompression | BadCompression
  | MissingExtensions | BadExtensions | BadExtension | BadServerName | SNINotFound

text \<open>The loop over the server names: \<open>Some None\<close> means that it ran to the end of the list.\<close>

function name_loop :: "byte list \<Rightarrow> (sni_error + byte list) option option" where
  "name_loop snList = (if 3 \<le> length snList then do {
       nameType \<leftarrow> idx snList 0;
       w \<leftarrow> be16_at snList 1;
       let nameLen = unat w;
       if length snList - 3 < nameLen then Some (Some (Inl BadServerName))
       else if nameType = 0 \<and> 0 < nameLen then do {
         h \<leftarrow> subslice snList 3 (3 + nameLen);
         Some (Some (Inr h))
       }
       else do {
         rest \<leftarrow> subslice snList (3 + nameLen) (length snList);
         name_loop rest
       }
     } else Some None)"
  by pat_completeness auto
termination
  by (relation "measure length") (auto dest!: length_slice)

text \<open>The loop over the extensions.\<close>

function ext_loop :: "byte list \<Rightarrow> (sni_error + byte list) option" where
  "ext_loop exts = (if 4 \<le> length exts then do {
       extType \<leftarrow> be16_at exts 0;
       w \<leftarrow> be16_at exts 2;
       let extLen = unat w;
       if length exts - 4 < extLen then Some (Inl BadExtension)
       else do {
         r \<leftarrow> (if extType = 0 then do {
                 snData \<leftarrow> subslice exts 4 (4 + extLen);
                 if 2 \<le> length snData then do {
                   lw \<leftarrow> be16_at snData 0;
                   let listLen = unat lw;
                   if listLen \<le> length snData - 2 then do {
                     snList \<leftarrow> subslice snData 2 (2 + listLen);
                     name_loop snList
                   } else Some None
                 } else Some None
               } else Some None);
         case r of Some result \<Rightarrow> Some result
         | None \<Rightarrow> do {
             rest \<leftarrow> subslice exts (4 + extLen) (length exts);
             ext_loop rest
           }
       }
     } else Some (Inl SNINotFound))"
  by pat_completeness auto
termination
  by (relation "measure length") (auto dest!: length_slice)

declare name_loop.simps [simp del] ext_loop.simps [simp del]

text \<open>A length-prefixed field of the ClientHello is skipped by these two steps.\<close>

definition ExtractSNI :: "byte list \<Rightarrow> (sni_error + byte list) option" where
  "ExtractSNI data =
    (if length data < 5 \<or> idx data 0 \<noteq> Some 22 then Some (Inl NotHandshake)
     else do {
       rw \<leftarrow> be16_at data 3;
       let recordLen = unat rw;
       if recordLen \<le> 0 \<or> length data < 5 + recordLen then Some (Inl IncompleteRecord)
       else do {
         rest \<leftarrow> subslice data 5 (5 + recordLen);
         if length rest < 4 \<or> idx rest 0 \<noteq> Some 1 then Some (Inl NotClientHello)
         else do {
           m1 \<leftarrow> idx rest 1; m2 \<leftarrow> idx rest 2; m3 \<leftarrow> idx rest 3;
           let msgLen = 65536 * unat m1 + 256 * unat m2 + unat m3;
           if msgLen < 34 \<or> length rest < 4 + msgLen then Some (Inl IncompleteClientHello)
           else let offset = 4 + 2 + 32 in
           if length rest \<le> offset then Some (Inl ClientHelloTooShort)
           else do {
             sid \<leftarrow> idx rest offset;
             let offset = offset + 1;
             if length rest < offset + unat sid then Some (Inl BadSessionID)
             else let offset = offset + unat sid in
             if length rest < offset + 2 then Some (Inl MissingCipherSuites)
             else do {
               cs \<leftarrow> be16_at rest offset;
               let offset = offset + 2;
               if length rest < offset + unat cs then Some (Inl BadCipherSuites)
               else let offset = offset + unat cs in
               if length rest \<le> offset then Some (Inl MissingCompression)
               else do {
                 cm \<leftarrow> idx rest offset;
                 let offset = offset + 1;
                 if length rest < offset + unat cm then Some (Inl BadCompression)
                 else let offset = offset + unat cm in
                 if length rest < offset + 2 then Some (Inl MissingExtensions)
                 else do {
                   el \<leftarrow> be16_at rest offset;
                   let offset = offset + 2;
                   if length rest < offset + unat el then Some (Inl BadExtensions)
                   else do {
                     exts \<leftarrow> subslice rest offset (offset + unat el);
                     ext_loop exts
                   }
                 }
               }
             }
           }
         }
       }
     })"

section \<open>No panic, and the result is part of the input\<close>

text \<open>A result of the parser that came from the bytes \<open>b\<close>.\<close>

definition good_result :: "byte list \<Rightarrow> (sni_error + byte list) \<Rightarrow> bool" where
  "good_result b r = (case r of Inl _ \<Rightarrow> True | Inr h \<Rightarrow> h \<noteq> [] \<and> length h < 65536 \<and> sublist h b)"

lemma sublist_slice: "subslice xs a b = Some ys \<Longrightarrow> sublist ys xs"
  by (metis slice_eq_Some sublist_take sublist_drop sublist_order.order_trans)

lemma good_result_slice: "good_result ys r \<Longrightarrow> subslice xs a b = Some ys \<Longrightarrow> good_result xs r"
  by (auto simp: good_result_def split: sum.splits dest: sublist_slice intro: sublist_order.order_trans)

lemma u16_less [simp]: "unat (w :: u16) < 65536"
  using unsigned_less [of w, where ?'a = nat] by simp

lemma name_loop_good: "\<exists>r. name_loop b = Some r \<and> (\<forall>x. r = Some x \<longrightarrow> good_result b x)"
proof (induction b rule: name_loop.induct)
  case (1 b)
  show ?case
  proof (cases "3 \<le> length b")
    case True
    then have "0 < length b" by linarith
    with True have i: "idx b 0 = Some (b ! 0)" "be16_at b 1 = Some (word16 (b ! 1) (b ! 2))"
      by (simp_all add: idx_def go_mem numeral_2_eq_2)
    let ?n = "unat (word16 (b ! 1) (b ! 2))"
    consider "length b - 3 < ?n" | "?n \<le> length b - 3" "b ! 0 = 0" "0 < ?n"
      | "?n \<le> length b - 3" "\<not> (b ! 0 = 0 \<and> 0 < ?n)"
      by linarith
    then show ?thesis
    proof cases
      case 1
      with True i show ?thesis by (subst name_loop.simps) (simp add: good_result_def)
    next
      case 2
      then have le: "3 + ?n \<le> length b" using True by linarith
      with 2 obtain h where h: "subslice b 3 (3 + ?n) = Some h" "length h = ?n"
        using slice_ex [of 3 "3 + ?n" b] le by auto
      with 2 have "good_result b (Inr h)"
        by (auto simp: good_result_def intro: sublist_slice)
      with True i 2 h show ?thesis by (subst name_loop.simps) simp
    next
      case 3
      then have "3 + ?n \<le> length b" using True by linarith
      then obtain rest where s: "subslice b (3 + ?n) (length b) = Some rest"
        using slice_ex [of "3 + ?n" "length b" b] by auto
      obtain r where "name_loop rest = Some r" "\<forall>x. r = Some x \<longrightarrow> good_result rest x"
        using "1.IH" [OF True i refl _ _ s] 3 by auto
      moreover have "name_loop b = name_loop rest"
        using True i 3 s by (subst name_loop.simps) auto
      ultimately show ?thesis using s by (auto intro: good_result_slice)
    qed
  next
    case False
    then show ?thesis by (subst name_loop.simps) simp
  qed
qed

lemma ext_loop_good: "\<exists>r. ext_loop b = Some r \<and> good_result b r"
proof (induction b rule: ext_loop.induct)
  case (1 b)
  show ?case
  proof (cases "4 \<le> length b")
    case False
    then show ?thesis by (subst ext_loop.simps) (simp add: good_result_def)
  next
    case True
    then have i: "be16_at b 0 = Some (word16 (b ! 0) (b ! 1))" "be16_at b 2 = Some (word16 (b ! 2) (b ! 3))"
      by (simp_all add: go_mem numeral_3_eq_3)
    let ?t = "word16 (b ! 0) (b ! 1)" and ?n = "unat (word16 (b ! 2) (b ! 3))"
    let ?names = "if ?t = 0 then do {
         snData \<leftarrow> subslice b 4 (4 + ?n);
         if 2 \<le> length snData then do {
           lw \<leftarrow> be16_at snData 0;
           let listLen = unat lw;
           if listLen \<le> length snData - 2 then do {
             snList \<leftarrow> subslice snData 2 (2 + listLen);
             name_loop snList
           } else Some None
         } else Some None
       } else Some None"
    show ?thesis
    proof (cases "length b - 4 < ?n")
      case True
      with \<open>4 \<le> length b\<close> i show ?thesis
        by (subst ext_loop.simps) (simp add: good_result_def)
    next
      case False
      then have le: "4 + ?n \<le> length b" using True by linarith
      have names: "\<exists>r. ?names = Some r \<and> (\<forall>x. r = Some x \<longrightarrow> good_result b x)"
      proof (cases "?t = 0")
        case t: True
        obtain sn where sn: "subslice b 4 (4 + ?n) = Some sn"
          using slice_ex [of 4 "4 + ?n" b] le by auto
        show ?thesis
        proof (cases "2 \<le> length sn \<and> unat (word16 (sn ! 0) (sn ! 1)) \<le> length sn - 2")
          case two: True
          then have "2 + unat (word16 (sn ! 0) (sn ! 1)) \<le> length sn" by linarith
          then obtain l where l: "subslice sn 2 (2 + unat (word16 (sn ! 0) (sn ! 1))) = Some l"
            using slice_ex [of 2 "2 + unat (word16 (sn ! 0) (sn ! 1))" sn] by auto
          obtain r where "name_loop l = Some r" "\<forall>x. r = Some x \<longrightarrow> good_result l x"
            using name_loop_good by blast
          with t sn two l show ?thesis
            by (auto simp: go_mem intro: good_result_slice)
        next
          case two: False
          with t sn show ?thesis by (auto simp: go_mem)
        qed
      qed simp
      then obtain r where r: "?names = Some r" and good: "\<forall>x. r = Some x \<longrightarrow> good_result b x"
        by blast
      show ?thesis
      proof (cases r)
        case (Some x)
        have "ext_loop b = Some x"
          using True False i r Some by (subst ext_loop.simps) (simp add: Let_def)
        with good Some show ?thesis by blast
      next
        case None
        obtain rest where s: "subslice b (4 + ?n) (length b) = Some rest"
          using slice_ex [of "4 + ?n" "length b" b] le by auto
        have "ext_loop b = ext_loop rest"
          using True False i r None s by (subst ext_loop.simps) (simp add: Let_def)
        moreover obtain x where "ext_loop rest = Some x" "good_result rest x"
          using "1.IH" [OF True i refl False r None s] by blast
        ultimately show ?thesis using good_result_slice s by auto
      qed
    qed
  qed
qed

lemma good_result_Inl [simp]: "good_result b (Inl e)"
  by (simp add: good_result_def)

lemma ext_loop_runs [go_runs]:
  "subslice rest a c = Some exts \<Longrightarrow> subslice data a' c' = Some rest \<Longrightarrow> runs (good_result data) (ext_loop exts)"
  unfolding runs_def using ext_loop_good [of exts] by (metis good_result_slice)

lemma ExtractSNI_runs: "runs (good_result data) (ExtractSNI data)"
  unfolding ExtractSNI_def
  by (intro go_runs) (simp_all add: length_slice idx_def)

section \<open>A ClientHello as RFC 8446 and RFC 6066 lay it out\<close>

definition enc16 :: "nat \<Rightarrow> byte list" where
  "enc16 n = [hi8 (of_nat n), lo8 (of_nat n)]"

definition enc24 :: "nat \<Rightarrow> byte list" where
  "enc24 n = [of_nat (n div 65536), of_nat (n div 256), of_nat n]"

definition tls_ext :: "u16 \<Rightarrow> byte list \<Rightarrow> byte list" where
  "tls_ext t body = [hi8 t, lo8 t] @ enc16 (length body) @ body"

definition server_name_ext :: "byte list \<Rightarrow> byte list" where
  "server_name_ext host = tls_ext 0 (enc16 (length host + 3) @ [0] @ enc16 (length host) @ host)"

definition hello_exts :: "(u16 \<times> byte list) list \<Rightarrow> byte list \<Rightarrow> byte list \<Rightarrow> byte list" where
  "hello_exts before host after =
     concat (map (\<lambda>(t, body). tls_ext t body) before) @ server_name_ext host @ after"

definition hello_message :: "byte list \<Rightarrow> byte list \<Rightarrow> byte list \<Rightarrow> byte list \<Rightarrow> byte list \<Rightarrow> byte list" where
  "hello_message start sid suites comps exts =
     start @ [of_nat (length sid)] @ sid @ enc16 (length suites) @ suites @
     [of_nat (length comps)] @ comps @ enc16 (length exts) @ exts"

definition client_hello :: "byte list \<Rightarrow> byte list \<Rightarrow> byte list \<Rightarrow> byte list \<Rightarrow> byte list \<Rightarrow> byte list" where
  "client_hello start sid suites comps exts =
     (let msg = hello_message start sid suites comps exts
      in [22, 3, 1] @ enc16 (4 + length msg) @ [1] @ enc24 (length msg) @ msg)"

lemma length_enc [simp]: "length (enc16 n) = 2" "length (enc24 n) = 3"
  by (simp_all add: enc16_def enc24_def)

lemma be16_at_enc16: "be16_at (xs @ enc16 n @ ys) (length xs) = Some (of_nat n)"
  by (simp add: be16_at_def be16_def subslice_def enc16_def idx_def)

lemma be16_at_enc16_0: "be16_at (enc16 n @ ys) 0 = Some (of_nat n)"
  using be16_at_enc16 [of "[]"] by simp

lemma idx_append: "idx (xs @ y # ys) (length xs) = Some y"
  by (simp add: idx_def)

lemma slice_append: "subslice (xs @ ys @ zs) (length xs) (length xs + length ys) = Some ys"
  by (simp add: subslice_def)

lemma slice_at: "b = xs @ ys @ zs \<Longrightarrow> i = length xs \<Longrightarrow> j = i + length ys \<Longrightarrow> subslice b i j = Some ys"
  by (simp add: slice_append)

lemma enc16_at: "b = xs @ enc16 n @ ys \<Longrightarrow> i = length xs \<Longrightarrow> be16_at b i = Some (of_nat n)"
  by (simp add: be16_at_enc16)

lemma idx_at: "b = xs @ y # ys \<Longrightarrow> i = length xs \<Longrightarrow> idx b i = Some y"
  by (simp add: idx_append)

lemma unat_of_nat16: "n < 65536 \<Longrightarrow> unat (of_nat n :: u16) = n"
  by (simp add: unat_of_nat take_bit_nat_eq_self)

lemma unat_of_nat8: "n < 256 \<Longrightarrow> unat (of_nat n :: byte) = n"
  by (simp add: unat_of_nat take_bit_nat_eq_self)

lemma enc24_value:
  assumes "n < 16777216"
  shows "65536 * unat (of_nat (n div 65536) :: byte) + 256 * unat (of_nat (n div 256) :: byte) + unat (of_nat n :: byte) = n"
proof -
  have "n div 65536 = n div 256 div 256"
    by (simp flip: div_mult2_eq)
  then have "65536 * unat (of_nat (n div 65536) :: byte) + 256 * unat (of_nat (n div 256) :: byte) + unat (of_nat n :: byte)
      = 65536 * (n div 256 div 256) + 256 * (n div 256 mod 256) + n mod 256"
    using assms by (simp add: unat_of_nat take_bit_eq_mod)
  with div_mult_mod_eq [of "n div 256" 256] div_mult_mod_eq [of n 256] show ?thesis
    by linarith
qed

lemma name_loop_host:
  assumes "host \<noteq> []" "length host < 65536"
  shows "name_loop ([0] @ enc16 (length host) @ host) = Some (Some (Inr host))"
proof -
  have "be16_at (0 # enc16 (length host) @ host) 1 = Some (of_nat (length host))"
    using be16_at_enc16 [of "[0]" "length host" host] by simp
  moreover have "subslice (0 # enc16 (length host) @ host) 3 (3 + length host) = Some host"
    using slice_append [of "0 # enc16 (length host)" host "[]"] by simp
  ultimately show ?thesis
    using assms by (subst name_loop.simps) (simp add: idx_def unat_of_nat16)
qed

lemma ext_loop_server_name:
  assumes "host \<noteq> []" "length host + 5 < 65536"
  shows "ext_loop (server_name_ext host @ after) = Some (Inr host)"
proof -
  let ?names = "[0] @ enc16 (length host) @ host"
  let ?body = "enc16 (length host + 3) @ ?names"
  have lb: "length ?body = length host + 5" by simp
  have e: "server_name_ext host @ after = [0, 0] @ enc16 (length host + 5) @ ?body @ after"
    unfolding lb [symmetric] by (simp add: server_name_ext_def tls_ext_def hi8_def lo8_def)
  have "be16_at (server_name_ext host @ after) 0 = Some 0"
    by (simp add: e be16_at_def be16_def subslice_def idx_def word16_def)
  moreover have "be16_at (server_name_ext host @ after) 2 = Some (of_nat (length host + 5))"
    by (rule enc16_at [of _ "[0, 0]" _ "?body @ after"]) (simp_all add: e)
  moreover have "subslice (server_name_ext host @ after) 4 (4 + (length host + 5)) = Some ?body"
    by (rule slice_at [of _ "[0, 0] @ enc16 (length host + 5)" _ after]) (simp_all add: e)
  moreover have "be16_at ?body 0 = Some (of_nat (length host + 3))"
    by (rule be16_at_enc16_0)
  moreover have "subslice ?body 2 (2 + (length host + 3)) = Some ?names"
    by (rule slice_at [of _ "enc16 (length host + 3)" _ "[]"]) simp_all
  moreover have "length (server_name_ext host @ after) = 9 + length host + length after"
    by (simp add: e)
  moreover have "unat (of_nat (length host + 5) :: u16) = length host + 5"
    "unat (of_nat (length host + 3) :: u16) = length host + 3"
    using assms(2) by (simp_all only: unat_of_nat16)
  moreover note lb
  moreover have "name_loop ?names = Some (Some (Inr host))"
    using assms by (intro name_loop_host) auto
  ultimately show ?thesis
    by (subst ext_loop.simps) (simp only: Let_def bind.simps if_True if_False simp_thms option.case; simp)
qed

lemma ext_loop_skip:
  assumes "t \<noteq> 0" "length body < 65536"
  shows "ext_loop (tls_ext t body @ more) = ext_loop more"
proof -
  let ?b = "tls_ext t body @ more"
  have e: "?b = [hi8 t, lo8 t] @ enc16 (length body) @ body @ more"
    by (simp add: tls_ext_def)
  have "be16_at ?b 0 = Some t"
    by (simp add: e be16_at_def be16_def subslice_def idx_def)
  moreover have "be16_at ?b 2 = Some (of_nat (length body))"
    by (rule enc16_at [of _ "[hi8 t, lo8 t]" _ "body @ more"]) (simp_all add: e)
  moreover have "subslice ?b (4 + length body) (length ?b) = Some more"
    by (rule slice_at [of _ "tls_ext t body" _ "[]"]) (simp_all add: tls_ext_def)
  moreover have "length ?b = 4 + length body + length more"
    by (simp add: e)
  moreover have "unat (of_nat (length body) :: u16) = length body"
    using assms(2) by (rule unat_of_nat16)
  ultimately show ?thesis
    using assms(1) by (subst ext_loop.simps) simp
qed

lemma ext_loop_hello:
  assumes "host \<noteq> []" "length host + 5 < 65536" "\<forall>(t, body) \<in> set before. t \<noteq> 0 \<and> length body < 65536"
  shows "ext_loop (hello_exts before host after) = Some (Inr host)"
  using assms(3)
proof (induction before)
  case Nil
  then show ?case
    using ext_loop_server_name [OF assms(1,2)] by (simp add: hello_exts_def)
next
  case (Cons x before)
  obtain t body where x: "x = (t, body)" by (cases x)
  have "hello_exts (x # before) host after = tls_ext t body @ hello_exts before host after"
    by (simp add: hello_exts_def x)
  with Cons x show ?case by (simp add: ext_loop_skip)
qed

text \<open>The parser walks over the fixed fields to the extensions.\<close>

lemma ExtractSNI_exts:
  assumes "length start = 34" "length sid < 256" "length suites < 65536" "length comps < 256"
    "length exts < 65536" "length (hello_message start sid suites comps exts) + 4 < 65536"
  shows "ExtractSNI (client_hello start sid suites comps exts @ trailing) = ext_loop exts"
proof -
  obtain msg where msg: "msg = hello_message start sid suites comps exts" by simp
  have small: "length msg + 4 < 65536"
    using assms(6) msg by simp
  let ?rest = "[1] @ enc24 (length msg) @ msg"
  let ?data = "client_hello start sid suites comps exts @ trailing"
  have data: "?data = [22, 3, 1] @ enc16 (4 + length msg) @ ?rest @ trailing"
    by (simp add: client_hello_def Let_def msg)
  have rest: "?rest = ([1] @ enc24 (length msg) @ start) @ of_nat (length sid) # sid @ enc16 (length suites) @
      suites @ of_nat (length comps) # comps @ enc16 (length exts) @ exts"
    by (simp add: msg hello_message_def)
  have len: "length msg = 34 + 1 + length sid + 2 + length suites + 1 + length comps + 2 + length exts"
    using assms(1) by (simp add: msg hello_message_def)
  have d: "idx ?data 0 = Some 22" "be16_at ?data 3 = Some (of_nat (4 + length msg))"
    "subslice ?data 5 (5 + (4 + length msg)) = Some ?rest" "length ?data = 9 + length msg + length trailing"
  proof -
    show "idx ?data 0 = Some 22" by (simp add: data idx_def)
    show "be16_at ?data 3 = Some (of_nat (4 + length msg))"
      by (rule enc16_at [of _ "[22, 3, 1]" _ "?rest @ trailing"]) (simp_all add: data)
    show "subslice ?data 5 (5 + (4 + length msg)) = Some ?rest"
      by (rule slice_at [of _ "[22, 3, 1] @ enc16 (4 + length msg)" _ trailing]) (simp_all add: data)
    show "length ?data = 9 + length msg + length trailing" by (simp add: data)
  qed
  have r: "idx ?rest 0 = Some 1" "idx ?rest 1 = Some (of_nat (length msg div 65536))"
    "idx ?rest 2 = Some (of_nat (length msg div 256))" "idx ?rest 3 = Some (of_nat (length msg))"
    "length ?rest = 4 + length msg"
    by (simp_all add: idx_def enc24_def numeral_2_eq_2 numeral_3_eq_3)
  let ?o1 = "4 + 2 + 32 :: nat" and ?o2 = "4 + 2 + 32 + 1 + length sid"
  let ?o3 = "4 + 2 + 32 + 1 + length sid + 2 + length suites"
  let ?o4 = "4 + 2 + 32 + 1 + length sid + 2 + length suites + 1 + length comps"
  have f: "idx ?rest ?o1 = Some (of_nat (length sid))" "be16_at ?rest ?o2 = Some (of_nat (length suites))"
    "idx ?rest ?o3 = Some (of_nat (length comps))" "be16_at ?rest ?o4 = Some (of_nat (length exts))"
    "subslice ?rest (?o4 + 2) (?o4 + 2 + length exts) = Some exts"
  proof -
    let ?p1 = "[1] @ enc24 (length msg) @ start"
    let ?p2 = "?p1 @ [of_nat (length sid)] @ sid"
    let ?p3 = "?p2 @ enc16 (length suites) @ suites"
    let ?p4 = "?p3 @ [of_nat (length comps)] @ comps"
    show "idx ?rest ?o1 = Some (of_nat (length sid))"
      using assms(1) by (intro idx_at [OF rest]) simp
    show "be16_at ?rest ?o2 = Some (of_nat (length suites))"
      using assms(1) rest
      by (intro enc16_at [of _ ?p2 _ "suites @ of_nat (length comps) # comps @ enc16 (length exts) @ exts"]) simp_all
    show "idx ?rest ?o3 = Some (of_nat (length comps))"
      using assms(1) rest by (intro idx_at [of _ ?p3 _ "comps @ enc16 (length exts) @ exts"]) simp_all
    show "be16_at ?rest ?o4 = Some (of_nat (length exts))"
      using assms(1) rest by (intro enc16_at [of _ ?p4 _ exts]) simp_all
    show "subslice ?rest (?o4 + 2) (?o4 + 2 + length exts) = Some exts"
      using assms(1) rest by (intro slice_at [of _ "?p4 @ enc16 (length exts)" _ "[]"]) simp_all
  qed
  have u: "unat (of_nat (4 + length msg) :: u16) = 4 + length msg" "unat (of_nat (length sid) :: byte) = length sid"
    "unat (of_nat (length suites) :: u16) = length suites" "unat (of_nat (length comps) :: byte) = length comps"
    "unat (of_nat (length exts) :: u16) = length exts"
    using assms small by (simp_all only: unat_of_nat16 unat_of_nat8 add.commute)
  have m: "65536 * unat (of_nat (length msg div 65536) :: byte) + 256 * unat (of_nat (length msg div 256) :: byte)
      + unat (of_nat (length msg) :: byte) = length msg"
    using small by (intro enc24_value) simp
  show ?thesis
    unfolding ExtractSNI_def
    by (simp only: d r f u m Let_def bind.simps) (use len in simp)
qed

text \<open>The whole parse of such a ClientHello.\<close>

lemma ExtractSNI_hello:
  assumes "length start = 34" "length sid < 256" "length suites < 65536" "length comps < 256"
    and "host \<noteq> []" "\<forall>(t, body) \<in> set before. t \<noteq> 0 \<and> length body < 65536"
    and "exts = hello_exts before host after"
    and "length (hello_message start sid suites comps exts) + 4 < 65536"
  shows "ExtractSNI (client_hello start sid suites comps exts @ trailing) = Some (Inr host)"
proof -
  have "length exts < 65536"
    using assms(8) by (simp add: hello_message_def)
  moreover from this have "length host + 5 < 65536"
    unfolding assms(7) by (simp add: hello_exts_def server_name_ext_def tls_ext_def)
  ultimately show ?thesis
    using assms by (simp add: ExtractSNI_exts ext_loop_hello)
qed

section \<open>Properties\<close>

text \<open>\<open>ExtractSNI\<close> never panics, on any bytes: no index or slice of it leaves its range. A host name
  it returns is not empty, has at most 65535 bytes and is a contiguous part of the input.\<close>

theorem extract_sni_safe:
  "\<exists>r. ExtractSNI data = Some r \<and>
     (case r of Inl _ \<Rightarrow> True | Inr host \<Rightarrow> host \<noteq> [] \<and> length host < 65536 \<and> sublist host data)"
  using ExtractSNI_runs [of data] by (simp add: runs_def good_result_def)

text \<open>C34. From a ClientHello that carries a \<open>server_name\<close> extension with a host name, after any number
  of other extensions and before any bytes, \<open>ExtractSNI\<close> returns exactly that host name, whatever
  the session id, cipher suites and compression methods, and whatever follows the record.\<close>

theorem extract_sni_client_hello:
  assumes "length start = 34" "length sid < 256" "length suites < 65536" "length comps < 256"
    and "host \<noteq> []" "\<forall>(t, body) \<in> set before. t \<noteq> 0 \<and> length body < 65536"
    and "exts = hello_exts before host after"
    and "length (hello_message start sid suites comps exts) + 4 < 65536"
  shows "ExtractSNI (client_hello start sid suites comps exts @ trailing) = Some (Inr host)"
  by (rule ExtractSNI_hello [OF assms])

theorem extract_sni_client_hello_witness:
  "let exts = hello_exts [(16, [1, 2])] [97, 46, 98] []
   in ExtractSNI (client_hello (replicate 34 3) [7] [0x13, 1] [0] exts @ [9]) = Some (Inr [97, 46, 98])"
  unfolding Let_def
  by (rule extract_sni_client_hello [where before = "[(16, [1, 2])]" and after = "[]"])
    (simp_all add: hello_message_def hello_exts_def server_name_ext_def tls_ext_def)

end
