(* ===== verification/Json.thy ===== *)
theory Json
  imports GoStd
begin

text \<open>
  What the sources use of \<open>encoding/json\<close> (Go 1.25): the syntax check and parse of a text into a
  value, \<open>json.MarshalIndent(v, "", "  ")\<close>, and the decoding of a value into strings, integers,
  slices and struct fields. Texts are byte strings; bytes from 128 on are copied, which is exact
  for valid UTF-8 without U+2028 and U+2029. Numbers keep their literal.

  The parser recurses with fuel: each call consumes a byte or is followed by one that does, so
  twice the length of the text is enough (\<open>parse_fuel\<close>, shown by \<open>pv_enough\<close>).
\<close>

datatype json = JNull | JBool bool | JNum string | JStr string
  | JArr "json list" | JObj "(string \<times> json) list"

section \<open>Characters\<close>

abbreviation "quote \<equiv> CHR 0x22"
abbreviation "backslash \<equiv> CHR 0x5C"
abbreviation "newline \<equiv> CHR 0x0A"

definition json_space :: "char \<Rightarrow> bool" where
  "json_space c \<longleftrightarrow> c = CHR '' '' \<or> c = CHR 0x09 \<or> c = newline \<or> c = CHR 0x0D"

definition skip :: "string \<Rightarrow> string" where
  "skip = dropWhile json_space"

definition hex4 :: "string \<Rightarrow> nat option" where
  "hex4 s = (let hv = (\<lambda>c. let n = of_char c in
       if 48 \<le> n \<and> n \<le> 57 then Some (n - 48)
       else if 97 \<le> n \<and> n \<le> 102 then Some (n - 87)
       else if 65 \<le> n \<and> n \<le> 70 then Some (n - 55) else (None :: nat option))
     in if length s < 4 then None
        else do { a \<leftarrow> hv (s ! 0); b \<leftarrow> hv (s ! 1); c \<leftarrow> hv (s ! 2); d \<leftarrow> hv (s ! 3);
                  Some (a * 4096 + b * 256 + c * 16 + d) })"

definition utf8 :: "nat \<Rightarrow> string" where
  "utf8 n = (if n < 128 then [char_of n]
     else if n < 2048 then [char_of (192 + n div 64), char_of (128 + n mod 64)]
     else if n < 65536 then [char_of (224 + n div 4096), char_of (128 + n div 64 mod 64), char_of (128 + n mod 64)]
     else [char_of (240 + n div 262144), char_of (128 + n div 4096 mod 64), char_of (128 + n div 64 mod 64), char_of (128 + n mod 64)])"

text \<open>
  An escape, behind its backslash: the text it stands for and its length. A surrogate that is not
  followed by its second half stands for U+FFFD.
\<close>

definition escape :: "string \<Rightarrow> (string \<times> nat) option" where
  "escape s = (case s of [] \<Rightarrow> None
     | c # t \<Rightarrow>
        if c = quote \<or> c = backslash \<or> c = CHR ''/'' then Some ([c], 1)
        else if c = CHR ''b'' then Some ([CHR 0x08], 1)
        else if c = CHR ''f'' then Some ([CHR 0x0C], 1)
        else if c = CHR ''n'' then Some ([newline], 1)
        else if c = CHR ''r'' then Some ([CHR 0x0D], 1)
        else if c = CHR ''t'' then Some ([CHR 0x09], 1)
        else if c = CHR ''u'' then
          (case hex4 t of None \<Rightarrow> None
           | Some u \<Rightarrow>
              if u < 55296 \<or> 57343 < u then Some (utf8 u, 5)
              else (let low = (if take 2 (drop 4 t) = [backslash, CHR ''u''] then hex4 (drop 6 t) else None)
                    in case low of
                         Some l \<Rightarrow> if u < 56320 \<and> 56320 \<le> l \<and> l \<le> 57343
                           then Some (utf8 (65536 + (u - 55296) * 1024 + (l - 56320)), 11)
                           else Some (utf8 65533, 5)
                       | None \<Rightarrow> Some (utf8 65533, 5)))
        else None)"

text \<open>The rest of a string literal behind its opening quote.\<close>

function pstr :: "string \<Rightarrow> (string \<times> string) option" where
  "pstr s = (case s of [] \<Rightarrow> None
     | c # t \<Rightarrow>
        if c = quote then Some ([], t)
        else if c = backslash then
          (case escape t of None \<Rightarrow> None
           | Some (x, k) \<Rightarrow> (case pstr (drop k t) of None \<Rightarrow> None | Some (y, r) \<Rightarrow> Some (x @ y, r)))
        else if (of_char c :: nat) < 32 then None
        else (case pstr t of None \<Rightarrow> None | Some (y, r) \<Rightarrow> Some (c # y, r)))"
  by pat_completeness auto
termination
  by (relation "measure length") auto

declare pstr.simps [simp del]

section \<open>Numbers\<close>

definition digits :: "string \<Rightarrow> string \<times> string" where
  "digits s = (takeWhile is_digit s, dropWhile is_digit s)"

definition opt :: "(char \<Rightarrow> bool) \<Rightarrow> string \<Rightarrow> string \<times> string" where
  "opt P s = (if s \<noteq> [] \<and> P (hd s) then ([hd s], tl s) else ([], s))"

definition pnum :: "string \<Rightarrow> (string \<times> string) option" where
  "pnum s = (let (sign, s) = opt (\<lambda>c. c = CHR ''-'') s;
                 (zero, s) = opt (\<lambda>c. c = CHR ''0'') s;
                 (ip, s) = (if zero \<noteq> [] then (zero, s) else digits s)
     in if ip = [] then None
        else (let (dot, s) = opt (\<lambda>c. c = CHR ''.'') s;
                  (fp, s) = (if dot = [] then ([], s) else digits s)
          in if dot \<noteq> [] \<and> fp = [] then None
             else (let (e, s) = opt (\<lambda>c. c = CHR ''e'' \<or> c = CHR ''E'') s;
                       (es, s) = (if e = [] then ([], s) else opt (\<lambda>c. c = CHR ''+'' \<or> c = CHR ''-'') s);
                       (ep, s) = (if e = [] then ([], s) else digits s)
               in if e \<noteq> [] \<and> ep = [] then None
                  else Some (sign @ ip @ dot @ fp @ e @ es @ ep, s))))"

lemma opt_length: "opt P s = (a, b) \<Longrightarrow> length s = length a + length b"
  by (cases s) (auto simp: opt_def split: if_splits)

lemma opt_Cons: "opt P (c # s) = (if P c then ([c], s) else ([], c # s))"
  by (simp add: opt_def)

section \<open>Values\<close>

text \<open>\<open>scanner.maxNestingDepth\<close>\<close>

definition max_depth :: nat where "max_depth = 10000"

definition literal :: "string \<Rightarrow> json \<Rightarrow> string \<Rightarrow> (json \<times> string) option" where
  "literal w v s = (if HasPrefix s w then Some (v, drop (length w) s) else None)"

fun pv :: "nat \<Rightarrow> nat \<Rightarrow> string \<Rightarrow> (json \<times> string) option"
  and pa :: "nat \<Rightarrow> nat \<Rightarrow> string \<Rightarrow> (json list \<times> string) option"
  and po :: "nat \<Rightarrow> nat \<Rightarrow> string \<Rightarrow> ((string \<times> json) list \<times> string) option" where
  "pv 0 d s = None"
| "pv (Suc n) d s = (case skip s of [] \<Rightarrow> None
     | c # t \<Rightarrow>
        if c = quote then (case pstr t of None \<Rightarrow> None | Some (x, r) \<Rightarrow> Some (JStr x, r))
        else if c = CHR ''['' then
          if max_depth \<le> d then None
          else if take 1 (skip t) = '']'' then Some (JArr [], tl (skip t))
          else (case pa n (d + 1) t of None \<Rightarrow> None | Some (xs, r) \<Rightarrow> Some (JArr xs, r))
        else if c = CHR ''{'' then
          if max_depth \<le> d then None
          else if take 1 (skip t) = ''}'' then Some (JObj [], tl (skip t))
          else (case po n (d + 1) t of None \<Rightarrow> None | Some (xs, r) \<Rightarrow> Some (JObj xs, r))
        else if c = CHR ''t'' then literal ''true'' (JBool True) (c # t)
        else if c = CHR ''f'' then literal ''false'' (JBool False) (c # t)
        else if c = CHR ''n'' then literal ''null'' JNull (c # t)
        else (case pnum (c # t) of None \<Rightarrow> None | Some (l, r) \<Rightarrow> Some (JNum l, r)))"
| "pa 0 d s = None"
| "pa (Suc n) d s = (case pv n d s of None \<Rightarrow> None
     | Some (x, r) \<Rightarrow> (case skip r of [] \<Rightarrow> None
        | c # r \<Rightarrow> if c = CHR '']'' then Some ([x], r)
            else if c = CHR '','' then (case pa n d r of None \<Rightarrow> None | Some (xs, r) \<Rightarrow> Some (x # xs, r))
            else None))"
| "po 0 d s = None"
| "po (Suc n) d s = (case skip s of [] \<Rightarrow> None
     | q # t \<Rightarrow> if q \<noteq> quote then None
       else (case pstr t of None \<Rightarrow> None
        | Some (k, r) \<Rightarrow> if take 1 (skip r) \<noteq> '':'' then None
          else (case pv n d (tl (skip r)) of None \<Rightarrow> None
           | Some (x, r) \<Rightarrow> (case skip r of [] \<Rightarrow> None
              | c # r \<Rightarrow> if c = CHR ''}'' then Some ([(k, x)], r)
                  else if c = CHR '','' then (case po n d r of None \<Rightarrow> None | Some (xs, r) \<Rightarrow> Some ((k, x) # xs, r))
                  else None))))"

definition parse_fuel :: "string \<Rightarrow> nat" where
  "parse_fuel s = 2 * length s + 2"

text \<open>One whole text (\<open>json.Unmarshal\<close>), and the first value of a stream (\<open>Decoder.Decode\<close>).\<close>

definition json_parse :: "string \<Rightarrow> json option" where
  "json_parse s = (case pv (parse_fuel s) 0 s of None \<Rightarrow> None
     | Some (v, r) \<Rightarrow> if skip r = [] then Some v else None)"

text \<open>In a stream a value that is no object or array ends at a blank or the end.\<close>

definition json_first :: "string \<Rightarrow> json option" where
  "json_first s = (case pv (parse_fuel s) 0 s of None \<Rightarrow> None
     | Some (v, r) \<Rightarrow> (case v of JArr _ \<Rightarrow> Some v | JObj _ \<Rightarrow> Some v
         | _ \<Rightarrow> if r = [] \<or> json_space (hd r) then Some v else None))"

section \<open>Printing\<close>

text \<open>Marshal escapes the HTML characters too.\<close>

definition jchar :: "char \<Rightarrow> string" where
  "jchar c = (let n = (of_char c :: nat) in
     if c = quote \<or> c = backslash then [backslash, c]
     else if c = CHR 0x08 then [backslash, CHR ''b'']
     else if c = CHR 0x0C then [backslash, CHR ''f'']
     else if c = newline then [backslash, CHR ''n'']
     else if c = CHR 0x0D then [backslash, CHR ''r'']
     else if c = CHR 0x09 then [backslash, CHR ''t'']
     else if n < 32 \<or> c = CHR ''<'' \<or> c = CHR ''>'' \<or> c = CHR ''&'' then
       [backslash, CHR ''u'', CHR ''0'', CHR ''0'', hex_char (n div 16), hex_char (n mod 16)]
     else [c])"

definition jstr :: "string \<Rightarrow> string" where
  "jstr s = quote # concat (map jchar s) @ [quote]"

definition nl :: "nat \<Rightarrow> string" where
  "nl d = newline # replicate (2 * d) (CHR '' '')"

fun jprint :: "nat \<Rightarrow> json \<Rightarrow> string"
  and jelems :: "nat \<Rightarrow> json list \<Rightarrow> string"
  and jmembers :: "nat \<Rightarrow> (string \<times> json) list \<Rightarrow> string" where
  "jprint d JNull = ''null''"
| "jprint d (JBool b) = (if b then ''true'' else ''false'')"
| "jprint d (JNum l) = l"
| "jprint d (JStr s) = jstr s"
| "jprint d (JArr xs) = (if xs = [] then ''[]'' else ''['' @ jelems (d + 1) xs @ nl d @ '']'')"
| "jprint d (JObj ms) = (if ms = [] then ''{}'' else ''{'' @ jmembers (d + 1) ms @ nl d @ ''}'')"
| "jelems d [] = []"
| "jelems d (x # xs) = nl d @ jprint d x @ (if xs = [] then [] else CHR '','' # jelems d xs)"
| "jmembers d [] = []"
| "jmembers d (kx # ms) = nl d @ jstr (fst kx) @ '': '' @ jprint d (snd kx) @
     (if ms = [] then [] else CHR '','' # jmembers d ms)"

definition MarshalIndent :: "json \<Rightarrow> string" where
  "MarshalIndent v = jprint 0 v"

section \<open>Printing and parsing back\<close>

lemma hex4_hex_chars:
  assumes "n < 256"
  shows "hex4 (CHR ''0'' # CHR ''0'' # hex_char (n div 16) # hex_char (n mod 16) # t) = Some n"
proof -
  have "(of_char (hex_char d) :: nat) = (if d < 10 then 48 + d else 87 + d)" if "d < 16" for d
    using that by (simp add: hex_char_def)
  moreover have "n div 16 < 16" "n mod 16 \<le> 15"
    using assms by auto
  ultimately show ?thesis
    by (simp add: hex4_def Let_def)
qed

lemma drop_one_more [simp]: "drop (Suc 0) (x # xs) = xs"
  by simp

lemma pstr_escape:
  "escape t = Some (x, k) \<Longrightarrow> pstr (backslash # t) = map_option (\<lambda>(y, r). (x @ y, r)) (pstr (drop k t))"
  by (subst pstr.simps) (simp split: option.split)

lemma pstr_plain:
  "c \<noteq> quote \<Longrightarrow> c \<noteq> backslash \<Longrightarrow> \<not> (of_char c :: nat) < 32 \<Longrightarrow>
   pstr (c # t) = map_option (\<lambda>(y, r). (c # y, r)) (pstr t)"
  by (subst pstr.simps) (simp split: option.split)

lemma escape_marks:
  "escape (quote # t) = Some ([quote], 1)" "escape (backslash # t) = Some ([backslash], 1)"
  "escape (CHR ''b'' # t) = Some ([CHR 0x08], 1)" "escape (CHR ''f'' # t) = Some ([CHR 0x0C], 1)"
  "escape (CHR ''n'' # t) = Some ([newline], 1)" "escape (CHR ''r'' # t) = Some ([CHR 0x0D], 1)"
  "escape (CHR ''t'' # t) = Some ([CHR 0x09], 1)"
  by (simp_all add: escape_def)

lemma escape_hex:
  "(of_char c :: nat) < 128 \<Longrightarrow>
   escape (CHR ''u'' # CHR ''0'' # CHR ''0'' # hex_char (of_char c div 16) # hex_char (of_char c mod 16) # t) = Some ([c], 5)"
  by (simp add: escape_def hex4_hex_chars utf8_def)

lemma jchar_marks:
  "jchar quote = [backslash, quote]" "jchar backslash = [backslash, backslash]"
  "jchar (CHR 0x08) = [backslash, CHR ''b'']" "jchar (CHR 0x0C) = [backslash, CHR ''f'']"
  "jchar newline = [backslash, CHR ''n'']" "jchar (CHR 0x0D) = [backslash, CHR ''r'']"
  "jchar (CHR 0x09) = [backslash, CHR ''t'']"
  by code_simp+

definition named :: "char \<Rightarrow> bool" where
  "named c \<longleftrightarrow> c = quote \<or> c = backslash \<or> c = CHR 0x08 \<or> c = CHR 0x0C \<or> c = newline \<or> c = CHR 0x0D \<or> c = CHR 0x09"

definition coded :: "char \<Rightarrow> bool" where
  "coded c \<longleftrightarrow> (of_char c :: nat) < 32 \<or> c = CHR ''<'' \<or> c = CHR ''>'' \<or> c = CHR ''&''"

lemma jchar_hex:
  "\<not> named c \<Longrightarrow> coded c \<Longrightarrow>
   jchar c = [backslash, CHR ''u'', CHR ''0'', CHR ''0'', hex_char (of_char c div 16), hex_char (of_char c mod 16)]"
  unfolding jchar_def Let_def named_def coded_def by (simp only: simp_thms if_True if_False de_Morgan_disj)

lemma jchar_plain: "\<not> named c \<Longrightarrow> \<not> coded c \<Longrightarrow> jchar c = [c]"
  unfolding jchar_def Let_def named_def coded_def by (simp only: simp_thms if_True if_False de_Morgan_disj)

lemma coded_small: "coded c \<Longrightarrow> (of_char c :: nat) < 128"
  unfolding coded_def by (elim disjE) simp_all

lemma pstr_named: "named c \<Longrightarrow> pstr (jchar c @ t) = map_option (\<lambda>(y, r). (c # y, r)) (pstr t)"
  unfolding named_def
  by (elim disjE; hypsubst; simp only: jchar_marks append.simps escape_marks [THEN pstr_escape] One_nat_def drop_one_more)

lemma pstr_jchar: "pstr (jchar c @ t) = map_option (\<lambda>(y, r). (c # y, r)) (pstr t)"
proof (cases "named c")
  case False
  show ?thesis
  proof (cases "coded c")
    case True
    have "jchar c @ t = backslash # CHR ''u'' # CHR ''0'' # CHR ''0'' # hex_char (of_char c div 16) # hex_char (of_char c mod 16) # t"
      by (simp only: jchar_hex [OF False True] append.simps)
    then show ?thesis
      by (simp add: pstr_escape [OF escape_hex [OF coded_small [OF True]]])
  next
    case Plain: False
    have "c \<noteq> quote" "c \<noteq> backslash" "\<not> (of_char c :: nat) < 32"
      using False Plain by (simp_all only: named_def coded_def simp_thms de_Morgan_disj)
    then show ?thesis
      using jchar_plain [OF False Plain] pstr_plain by (simp only: append.simps)
  qed
qed (rule pstr_named)

lemma pstr_body: "pstr (concat (map jchar s) @ quote # rest) = Some (s, rest)"
proof (induction s)
  case Nil
  show ?case by (subst pstr.simps) simp
next
  case (Cons c s)
  then show ?case by (simp add: pstr_jchar)
qed

lemma skip_nl [simp]: "skip (nl d @ s) = skip s"
  by (simp add: skip_def nl_def json_space_def dropWhile_append)

lemma skip_stop: "\<not> json_space c \<Longrightarrow> skip (c # s) = c # s"
  by (simp add: skip_def)

lemma skip_marks [simp]:
  "skip (CHR '','' # s) = CHR '','' # s" "skip (CHR '']'' # s) = CHR '']'' # s"
  "skip (CHR ''}'' # s) = CHR ''}'' # s" "skip (CHR '':'' # s) = CHR '':'' # s"
  "skip (quote # s) = quote # s" "skip (CHR '' '' # s) = skip s" "skip [] = []"
  by (simp_all add: skip_def json_space_def)

lemma skip_skip [simp]: "skip (skip s) = skip s"
  by (simp add: skip_def dropWhile_idem)

text \<open>Blanks before a value do not matter.\<close>

lemma pv_skip: "skip s = skip t \<Longrightarrow> pv n d s = pv n d t"
  by (cases n) simp_all

lemma pa_skip: "skip s = skip t \<Longrightarrow> pa n d s = pa n d t"
  by (cases n) (simp_all add: pv_skip [of s t])

lemma po_skip: "skip s = skip t \<Longrightarrow> po n d s = po n d t"
  by (cases n) simp_all

text \<open>The values the sources print: their numbers are integers.\<close>

fun jok :: "json \<Rightarrow> bool" and jok_elems :: "json list \<Rightarrow> bool" and jok_members :: "(string \<times> json) list \<Rightarrow> bool" where
  "jok (JNum l) \<longleftrightarrow> (case Atoi l of Some i \<Rightarrow> l = Itoa i | None \<Rightarrow> False)"
| "jok (JArr xs) \<longleftrightarrow> jok_elems xs"
| "jok (JObj ms) \<longleftrightarrow> jok_members ms"
| "jok _ \<longleftrightarrow> True"
| "jok_elems [] \<longleftrightarrow> True"
| "jok_elems (x # xs) \<longleftrightarrow> jok x \<and> jok_elems xs"
| "jok_members [] \<longleftrightarrow> True"
| "jok_members (kx # ms) \<longleftrightarrow> jok (snd kx) \<and> jok_members ms"

fun vfuel :: "json \<Rightarrow> nat" and efuel :: "json list \<Rightarrow> nat" and mfuel :: "(string \<times> json) list \<Rightarrow> nat" where
  "vfuel (JArr xs) = Suc (efuel xs)"
| "vfuel (JObj ms) = Suc (mfuel ms)"
| "vfuel _ = 1"
| "efuel [] = 0"
| "efuel (x # xs) = Suc (vfuel x + efuel xs)"
| "mfuel [] = 0"
| "mfuel (kx # ms) = Suc (vfuel (snd kx) + mfuel ms)"

fun vdepth :: "json \<Rightarrow> nat" and edepth :: "json list \<Rightarrow> nat" and mdepth :: "(string \<times> json) list \<Rightarrow> nat" where
  "vdepth (JArr xs) = Suc (edepth xs)"
| "vdepth (JObj ms) = Suc (mdepth ms)"
| "vdepth _ = 0"
| "edepth [] = 0"
| "edepth (x # xs) = max (vdepth x) (edepth xs)"
| "mdepth [] = 0"
| "mdepth (kx # ms) = max (vdepth (snd kx)) (mdepth ms)"

definition stop :: "string \<Rightarrow> bool" where
  "stop rest \<longleftrightarrow> rest = [] \<or> hd rest \<in> {CHR '','', CHR '']'', CHR ''}'', newline}"

lemma stop_simps [simp]:
  "stop (CHR '','' # s)" "stop (CHR '']'' # s)" "stop (CHR ''}'' # s)" "stop (nl d @ s)" "stop []"
  by (simp_all add: stop_def nl_def)

lemma stop_no_digits: "stop rest \<Longrightarrow> takeWhile is_digit rest = [] \<and> dropWhile is_digit rest = rest"
  by (cases rest) (auto simp: stop_def is_digit_def)

lemma nat_dec_first: "0 < n \<Longrightarrow> hd (nat_dec n) \<noteq> CHR ''0''"
proof (induction n rule: nat_dec.induct)
  case (1 n)
  show ?case
  proof (cases "n < 10")
    case True
    have "(of_char (digit_char n) :: nat) = 48 + n"
      using True by (simp add: digit_char_def)
    with True 1 show ?thesis
      by (subst nat_dec.simps) auto
  next
    case False
    with 1 show ?thesis
      by (subst nat_dec.simps) (simp add: hd_append)
  qed
qed

lemma nat_dec_zero [simp]: "nat_dec 0 = ''0''"
  by code_simp

lemma digits_nat_dec: "stop rest \<Longrightarrow> digits (nat_dec n @ rest) = (nat_dec n, rest)"
  using nat_dec_digits [of n] stop_no_digits [of rest]
  by (simp add: digits_def list_all_iff takeWhile_append dropWhile_append)

lemma stop_no_marks:
  "stop rest \<Longrightarrow> opt (\<lambda>c. c = CHR ''.'') rest = ([], rest)"
  "stop rest \<Longrightarrow> opt (\<lambda>c. c = CHR ''e'' \<or> c = CHR ''E'') rest = ([], rest)"
  by (cases rest; auto simp: stop_def opt_def)+

lemma pnum_nat_dec:
  assumes "stop rest"
  shows "pnum (nat_dec n @ rest) = Some (nat_dec n, rest)"
    and "pnum (CHR ''-'' # nat_dec n @ rest) = Some (CHR ''-'' # nat_dec n, rest)"
proof -
  obtain c cs where c: "nat_dec n = c # cs"
    by (cases "nat_dec n") simp_all
  have "is_digit c"
    using nat_dec_digits [of n] by (simp add: c)
  then have m: "c \<noteq> CHR ''-''" by auto
  have d: "digits (c # cs @ rest) = (c # cs, rest)"
    using digits_nat_dec [OF assms, of n] by (simp add: c)
  have z: "c = CHR ''0'' \<Longrightarrow> cs = []"
    using nat_dec_first [of n] c by (cases "n = 0") simp_all
  show "pnum (nat_dec n @ rest) = Some (nat_dec n, rest)"
    "pnum (CHR ''-'' # nat_dec n @ rest) = Some (CHR ''-'' # nat_dec n, rest)"
    using d z m by (cases "c = CHR ''0''"; simp add: pnum_def c opt_Cons stop_no_marks [OF assms])+
qed

lemma pnum_Itoa: "stop rest \<Longrightarrow> pnum (Itoa i @ rest) = Some (Itoa i, rest)"
  by (simp add: Itoa_def pnum_nat_dec)

lemma Itoa_first: "\<exists>c t. Itoa i = c # t \<and> (c = CHR ''-'' \<or> is_digit c)"
  using nat_dec_digits [of "nat i"] by (cases "nat_dec (nat i)") (auto simp: Itoa_def)

lemma jprint_first:
  "jok v \<Longrightarrow> \<exists>c t. jprint d v = c # t \<and> \<not> json_space c \<and> c \<noteq> CHR '']'' \<and> c \<noteq> CHR ''}''"
proof (cases v)
  case (JNum l)
  assume "jok v"
  then obtain i where "l = Itoa i"
    by (auto simp: JNum split: option.splits)
  then show ?thesis
    using Itoa_first [of i] by (auto simp: JNum json_space_def is_digit_def)
qed (auto simp: jstr_def json_space_def)

lemma pv_num:
  assumes "\<exists>c t. l = c # t \<and> (c = CHR ''-'' \<or> is_digit c)" "pnum (l @ r) = Some (l, r)"
  shows "pv (Suc n) d (l @ r) = Some (JNum l, r)"
proof -
  obtain c t where c: "l = c # t" "c = CHR ''-'' \<or> is_digit c"
    using assms(1) by blast
  have "c \<notin> {quote, CHR ''['', CHR ''{'', CHR ''t'', CHR ''f'', CHR ''n''} \<and> \<not> json_space c"
    using c(2) by (auto simp: is_digit_def json_space_def)
  then have "c \<noteq> quote" "c \<noteq> CHR ''[''" "c \<noteq> CHR ''{''" "c \<noteq> CHR ''t''" "c \<noteq> CHR ''f''" "c \<noteq> CHR ''n''"
    "skip (l @ r) = c # t @ r"
    by (simp_all add: c(1) skip_stop)
  with assms(2) show ?thesis
    by (simp add: c(1))
qed

lemma pv_scalar:
  "pv (Suc n) d (''null'' @ r) = Some (JNull, r)"
  "pv (Suc n) d (''true'' @ r) = Some (JBool True, r)"
  "pv (Suc n) d (''false'' @ r) = Some (JBool False, r)"
  "pv (Suc n) d (jstr s @ r) = Some (JStr s, r)"
  by (simp_all add: skip_stop json_space_def literal_def HasPrefix_def jstr_def pstr_body)

lemma pv_empty:
  "d < max_depth \<Longrightarrow> pv (Suc n) d (''[]'' @ r) = Some (JArr [], r)"
  "d < max_depth \<Longrightarrow> pv (Suc n) d (''{}'' @ r) = Some (JObj [], r)"
  by (simp_all add: skip_stop json_space_def)

lemma pv_arr:
  assumes "d < max_depth" "take 1 (skip t) \<noteq> '']''" "pa n (d + 1) t = Some (xs, r)"
  shows "pv (Suc n) d (CHR ''['' # t) = Some (JArr xs, r)"
  using assms by (simp add: skip_stop json_space_def)

lemma pv_obj:
  assumes "d < max_depth" "take 1 (skip t) \<noteq> ''}''" "po n (d + 1) t = Some (xs, r)"
  shows "pv (Suc n) d (CHR ''{'' # t) = Some (JObj xs, r)"
  using assms by (simp add: skip_stop json_space_def)

lemma print_parse:
  "jok v \<Longrightarrow> vfuel v \<le> n \<Longrightarrow> d + vdepth v \<le> max_depth \<Longrightarrow> stop r \<Longrightarrow> pv n d (jprint k v @ r) = Some (v, r)"
  "jok_elems xs \<Longrightarrow> xs \<noteq> [] \<Longrightarrow> efuel xs \<le> n \<Longrightarrow> d + edepth xs \<le> max_depth \<Longrightarrow>
     pa n d (jelems k xs @ nl j @ CHR '']'' # r) = Some (xs, r)"
  "jok_members ms \<Longrightarrow> ms \<noteq> [] \<Longrightarrow> mfuel ms \<le> n \<Longrightarrow> d + mdepth ms \<le> max_depth \<Longrightarrow>
     po n d (jmembers k ms @ nl j @ CHR ''}'' # r) = Some (ms, r)"
proof (induction k v and k xs and k ms arbitrary: n d r and n d r j and n d r j rule: jprint_jelems_jmembers.induct)
  case (1 k)
  then obtain m where "n = Suc m" by (cases n) auto
  then show ?case by (simp only: jprint.simps pv_scalar)
next
  case (2 k b)
  then obtain m where "n = Suc m" by (cases n) auto
  then show ?case by (cases b) (simp_all only: jprint.simps pv_scalar if_True if_False)
next
  case (3 k l)
  then obtain i where l: "l = Itoa i"
    by (auto split: option.splits)
  from 3 obtain m where "n = Suc m" by (cases n) auto
  then show ?case
    using pv_num [OF _ pnum_Itoa [OF 3(4)], of i] Itoa_first [of i] by (simp only: jprint.simps l)
next
  case (4 k s)
  then obtain m where "n = Suc m" by (cases n) auto
  then show ?case by (simp only: jprint.simps pv_scalar)
next
  case (5 k xs)
  from 5 obtain m where m: "n = Suc m" "efuel xs \<le> m" "d + 1 + edepth xs \<le> max_depth" by (cases n) auto
  show ?case
  proof (cases xs)
    case Nil
    moreover have "d < max_depth" using m by simp
    ultimately show ?thesis by (simp only: jprint.simps pv_empty simp_thms if_True m(1))
  next
    case (Cons x ys)
    let ?t = "jelems (k + 1) xs @ nl k @ CHR '']'' # r"
    obtain c t where "jprint (k + 1) x = c # t" "\<not> json_space c" "c \<noteq> CHR '']''"
      using 5(2) jprint_first [of x "k + 1"] by (auto simp: Cons)
    then have "take 1 (skip ?t) \<noteq> '']''"
      by (simp add: Cons skip_stop)
    moreover have "pa m (d + 1) ?t = Some (xs, r)"
      using 5 m Cons by (intro 5(1)) auto
    ultimately show ?thesis
      using pv_arr [of d ?t m xs r] m by (simp add: Cons)
  qed
next
  case (6 k ms)
  from 6 obtain m where m: "n = Suc m" "mfuel ms \<le> m" "d + 1 + mdepth ms \<le> max_depth" by (cases n) auto
  show ?case
  proof (cases ms)
    case Nil
    moreover have "d < max_depth" using m by simp
    ultimately show ?thesis by (simp only: jprint.simps pv_empty simp_thms if_True m(1))
  next
    case (Cons x ys)
    let ?t = "jmembers (k + 1) ms @ nl k @ CHR ''}'' # r"
    have "take 1 (skip ?t) \<noteq> ''}''"
      by (simp add: Cons jstr_def)
    moreover have "po m (d + 1) ?t = Some (ms, r)"
      using 6 m Cons by (intro 6(1)) auto
    ultimately show ?thesis
      using pv_obj [of d ?t m ms r] m by (simp add: Cons)
  qed
next
  case (7 k)
  then show ?case by simp
next
  case (8 k x xs)
  from 8 obtain m where m: "n = Suc m" "vfuel x \<le> m" "efuel xs \<le> m" by (cases n) auto
  let ?t = "if xs = [] then nl j @ CHR '']'' # r else CHR '','' # jelems k xs @ nl j @ CHR '']'' # r"
  have "pv m d (jprint k x @ ?t) = Some (x, ?t)"
    using 8 m by (intro 8(1)) auto
  moreover have "pv m d (nl k @ s) = pv m d s" for s
    by (rule pv_skip) simp
  moreover have "xs \<noteq> [] \<Longrightarrow> pa m d (jelems k xs @ nl j @ CHR '']'' # r) = Some (xs, r)"
    using 8 m by (intro 8(2)) auto
  ultimately show ?case
    by (cases "xs = []") (simp_all add: m(1))
next
  case (9 k)
  then show ?case by simp
next
  case (10 k kx ms)
  from 10 obtain m where m: "n = Suc m" "vfuel (snd kx) \<le> m" "mfuel ms \<le> m" by (cases n) auto
  let ?t = "if ms = [] then nl j @ CHR ''}'' # r else CHR '','' # jmembers k ms @ nl j @ CHR ''}'' # r"
  have "pv m d (jprint k (snd kx) @ ?t) = Some (snd kx, ?t)"
    using 10 m by (intro 10(1)) auto
  moreover have "pv m d (CHR '' '' # s) = pv m d s" for s
    by (rule pv_skip) simp
  moreover have "ms \<noteq> [] \<Longrightarrow> po m d (jmembers k ms @ nl j @ CHR ''}'' # r) = Some (ms, r)"
    using 10 m by (intro 10(2)) auto
  ultimately show ?case
    by (cases "ms = []") (simp_all add: m(1) jstr_def pstr_body)
qed

lemma print_fuel:
  "jok v \<Longrightarrow> vfuel v \<le> 2 * length (jprint k v)"
  "jok_elems xs \<Longrightarrow> efuel xs \<le> 2 * length (jelems k xs)"
  "jok_members ms \<Longrightarrow> mfuel ms \<le> 2 * length (jmembers k ms)"
proof (induction k v and k xs and k ms rule: jprint_jelems_jmembers.induct)
  case (3 k l)
  then obtain i where "l = Itoa i"
    by (auto split: option.splits)
  then show ?case using Itoa_first [of i] by auto
qed (auto simp: jstr_def nl_def)

lemma json_parse_MarshalIndent:
  assumes "jok v" "vdepth v \<le> max_depth"
  shows "json_parse (MarshalIndent v) = Some v"
  using print_parse(1) [OF assms(1), of "parse_fuel (MarshalIndent v)" 0 "[]" 0] print_fuel(1) [OF assms(1), of 0] assms
  by (simp add: json_parse_def MarshalIndent_def parse_fuel_def)

section \<open>The fuel is enough\<close>

lemma length_skip: "length (skip s) \<le> length s"
  by (simp add: skip_def length_dropWhile_le)

lemma skip_Cons_length: "skip s = c # t \<Longrightarrow> length t < length s"
  using length_skip [of s] by simp

lemma pstr_shorter: "pstr s = Some (x, r) \<Longrightarrow> length r < length s"
proof (induction s arbitrary: x r rule: pstr.induct)
  case (1 s)
  then obtain c t where s: "s = c # t"
    by (cases s) (simp_all add: pstr.simps [of "[]"])
  consider "c = quote" | "c = backslash" | "c \<noteq> quote" "c \<noteq> backslash" by blast
  then show ?case
  proof cases
    case 1
    with "1.prems" s show ?thesis by (simp add: pstr.simps [of "quote # t"])
  next
    case 2
    then obtain y k z where "escape t = Some (y, k)" "pstr (drop k t) = Some (z, r)"
      using "1.prems" s by (auto simp: pstr.simps [of "backslash # t"] split: option.splits)
    then have "length r < length (drop k t)"
      using "1.IH"(1) s 2 by auto
    then show ?thesis using s by simp
  next
    case 3
    then obtain z where "pstr t = Some (z, r)" "\<not> (of_char c :: nat) < 32"
      using "1.prems" s by (auto simp: pstr.simps [of "c # t"] split: option.splits if_splits)
    then have "length r < length t"
      using "1.IH"(2) s 3 by auto
    then show ?thesis using s by simp
  qed
qed

lemma length_digits: "digits s = (a, b) \<Longrightarrow> length s = length a + length b"
  by (auto simp: digits_def simp flip: length_append)

lemma pnum_shorter: "pnum s = Some (l, r) \<Longrightarrow> length r < length s"
proof -
  assume p: "pnum s = Some (l, r)"
  obtain g s1 where 1: "opt (\<lambda>c. c = CHR ''-'') s = (g, s1)" by force
  obtain z s2 where 2: "opt (\<lambda>c. c = CHR ''0'') s1 = (z, s2)" by force
  obtain ip s3 where 3: "(if z \<noteq> [] then (z, s2) else digits s2) = (ip, s3)" by force
  obtain dot s4 where 4: "opt (\<lambda>c. c = CHR ''.'') s3 = (dot, s4)" by force
  obtain fp s5 where 5: "(if dot = [] then ([], s4) else digits s4) = (fp, s5)" by force
  obtain e s6 where 6: "opt (\<lambda>c. c = CHR ''e'' \<or> c = CHR ''E'') s5 = (e, s6)" by force
  obtain es s7 where 7: "(if e = [] then ([], s6) else opt (\<lambda>c. c = CHR ''+'' \<or> c = CHR ''-'') s6) = (es, s7)" by force
  obtain ep s8 where 8: "(if e = [] then ([], s7) else digits s7) = (ep, s8)" by force
  have r: "r = s8" "ip \<noteq> []"
    using p unfolding pnum_def Let_def 1 prod.case 2 3 4 5 6 7 8 by (simp_all split: if_splits)
  have "length s2 + length z = length s1"
    using opt_length [OF 2] by simp
  moreover have "length s3 + (if z = [] then length ip else 0) = length s2"
    using 3 length_digits [of s2 ip s3] by (auto split: if_splits)
  ultimately have "length s3 < length s1"
    using r(2) by (cases ip; cases z) auto
  moreover have "length s5 \<le> length s4" "length s8 \<le> length s7" "length s7 \<le> length s6"
    using 5 8 7 length_digits [of s4 fp s5] length_digits [of s7 ep s8]
      opt_length [of "\<lambda>c. c = CHR ''+'' \<or> c = CHR ''-''" s6 es s7] by (auto split: if_splits)
  ultimately show ?thesis
    unfolding r(1) using opt_length [OF 1] opt_length [OF 4] opt_length [OF 6] by linarith
qed

lemma tl_skip_shorter: "take 1 (skip s) = [c] \<Longrightarrow> length (tl (skip s)) < length s"
  using length_skip [of s] by (cases "skip s") auto

lemma literal_shorter: "literal w v s = Some (x, r) \<Longrightarrow> w \<noteq> [] \<Longrightarrow> length r < length s"
  by (cases s; cases w) (auto simp: literal_def HasPrefix_def split: if_splits)

lemma pv_shorter:
  "pv n d s = Some (v, r) \<Longrightarrow> length r < length s"
  "pa n d s = Some (vs, r) \<Longrightarrow> length r < length s"
  "po n d s = Some (ms, r) \<Longrightarrow> length r < length s"
proof (induction n d s and n d s and n d s arbitrary: v r and vs r and ms r rule: pv_pa_po.induct)
  case (2 n d s)
  then obtain c t where s: "skip s = c # t" by (auto split: list.splits)
  have "length r < length (c # t)"
    using 2(3) "2.IH" [OF s] s length_skip [of t]
    by (auto split: if_splits option.splits prod.splits dest!: pstr_shorter pnum_shorter literal_shorter tl_skip_shorter
        simp: less_Suc_eq_le)
  also have "\<dots> \<le> length s"
    using length_skip [of s] s by simp
  finally show ?case .
next
  case (4 n d s)
  then obtain x r1 c r2 where x: "pv n d s = Some (x, r1)" "skip r1 = c # r2"
    by (auto split: list.splits option.splits)
  have "length r1 < length s"
    using 4(1) x(1) by blast
  moreover have "length r2 < length r1" using skip_Cons_length x by blast
  moreover have "r = r2 \<or> (\<exists>xs. pa n d r2 = Some (xs, r))"
    using 4(3) x by (auto split: if_splits option.splits)
  moreover have "pa n d r2 = Some (xs, r) \<Longrightarrow> c = CHR '','' \<Longrightarrow> length r < length r2" for xs
    using 4(2) x by simp
  moreover have "c = CHR '','' \<or> r = r2"
    using 4(3) x by (auto split: if_splits)
  ultimately show ?case by force
next
  case (6 n d s)
  then obtain t where s: "skip s = quote # t"
    by (auto split: list.splits if_splits)
  obtain k r1 where k: "pstr t = Some (k, r1)" "take 1 (skip r1) = '':''"
    using 6(3) s by (auto split: option.splits if_splits)
  obtain x r2 c r3 where x: "pv n d (tl (skip r1)) = Some (x, r2)" "skip r2 = c # r3"
    using 6(3) s k by (auto split: list.splits option.splits)
  have "length r2 < length (tl (skip r1))"
    using 6(1) s k x(1) by auto
  moreover have "length t < length s" "length r1 < length t" "length (tl (skip r1)) < length r1" "length r3 < length r2"
    using skip_Cons_length [OF s] pstr_shorter [OF k(1)] tl_skip_shorter [OF k(2)] skip_Cons_length [OF x(2)] by simp_all
  moreover have "r = r3 \<or> (\<exists>xs. po n d r3 = Some (xs, r))"
    using 6(3) s k x by (auto split: if_splits option.splits)
  moreover have "po n d r3 = Some (xs, r) \<Longrightarrow> c = CHR '','' \<Longrightarrow> length r < length r3" for xs
    using 6(2) s k x by auto
  moreover have "c = CHR '','' \<or> r = r3"
    using 6(3) s k x by (auto split: if_splits)
  ultimately show ?case by force
qed simp_all

text \<open>With twice the length of the text as fuel, more fuel changes nothing.\<close>

lemma pv_more:
  "2 * length s + 1 \<le> n \<Longrightarrow> pv (Suc n) d s = pv n d s"
  "2 * length s + 2 \<le> n \<Longrightarrow> pa (Suc n) d s = pa n d s"
  "2 * length s + 2 \<le> n \<Longrightarrow> po (Suc n) d s = po n d s"
proof (induction n d s and n d s and n d s rule: pv_pa_po.induct)
  case (2 n d s)
  show ?case
  proof (cases "skip s")
    case Nil
    then show ?thesis by simp
  next
    case (Cons c t)
    have "2 * length t + 2 \<le> n"
      using 2(3) skip_Cons_length [OF Cons] by simp
    then have "c \<noteq> quote \<Longrightarrow> c = CHR ''['' \<Longrightarrow> \<not> max_depth \<le> d \<Longrightarrow> take 1 (skip t) \<noteq> '']'' \<Longrightarrow> pa (Suc n) (d + 1) t = pa n (d + 1) t"
      "c \<noteq> quote \<Longrightarrow> c = CHR ''{'' \<Longrightarrow> \<not> max_depth \<le> d \<Longrightarrow> take 1 (skip t) \<noteq> ''}'' \<Longrightarrow> po (Suc n) (d + 1) t = po n (d + 1) t"
      using 2(1) [OF Cons] 2(2) [OF Cons] by auto
    then show ?thesis
      by (simp only: pv.simps Cons list.case) (simp split: if_splits)
  qed
next
  case (4 n d s)
  have v: "pv (Suc n) d s = pv n d s"
    using 4 by simp
  show ?case
  proof (cases "pv n d s")
    case None
    then show ?thesis by (simp only: pa.simps v) simp
  next
    case (Some xr)
    obtain x r where xr: "xr = (x, r)" by force
    have "c = CHR '','' \<Longrightarrow> skip r = c # r' \<Longrightarrow> pa (Suc n) d r' = pa n d r'" for c r'
      using 4(2) [OF Some xr [symmetric]] 4(3) pv_shorter(1) [of n d s x r] skip_Cons_length [of r c r'] Some xr by auto
    then show ?thesis
      by (simp only: pa.simps v Some xr option.case prod.case) (auto split: list.split)
  qed
next
  case (6 n d s)
  show ?case
  proof (cases "skip s")
    case (Cons q t)
    show ?thesis
    proof (cases "q = quote \<and> pstr t \<noteq> None")
      case False
      then show ?thesis by (cases "pstr t") (auto simp: Cons)
    next
      case True
      then obtain k r where k: "pstr t = Some (k, r)" "q = quote" by force
      show ?thesis
      proof (cases "take 1 (skip r) = '':''")
        case False
        then show ?thesis by (simp add: Cons k)
      next
        case colon: True
        let ?u = "tl (skip r)"
        have len: "length ?u + 3 \<le> length s"
          using tl_skip_shorter [OF colon] pstr_shorter [OF k(1)] skip_Cons_length [OF Cons] by simp
        then have v: "pv (Suc n) d ?u = pv n d ?u"
          using 6 Cons k colon by simp
        have "c = CHR '','' \<Longrightarrow> pv n d ?u = Some (x, r1) \<Longrightarrow> skip r1 = c # r' \<Longrightarrow> po (Suc n) d r' = po n d r'" for c r' x r1
          using 6(2) [OF Cons _ k(1) _ _ _ _ _ _] 6(3) pv_shorter(1) [of n d ?u x r1] skip_Cons_length [of r1 c r'] len k colon
          by auto
        then show ?thesis
          by (simp only: po.simps Cons k option.case prod.case list.case v) (auto split: list.split option.split)
      qed
    qed
  qed simp
qed simp_all

lemma pv_enough: "2 * length s + 1 \<le> n \<Longrightarrow> n \<le> m \<Longrightarrow> pv m d s = pv n d s"
proof (induction m)
  case (Suc m)
  show ?case
  proof (cases "n = Suc m")
    case False
    with Suc.prems have m: "2 * length s + 1 \<le> m" "n \<le> m"
      by linarith+
    show ?thesis
      using pv_more(1) [OF m(1), of d] Suc.IH [OF Suc.prems(1) m(2)] by (rule trans)
  qed simp
qed simp

lemma json_parse_fuel: "parse_fuel s \<le> n \<Longrightarrow>
   json_parse s = (case pv n 0 s of None \<Rightarrow> None | Some (v, r) \<Rightarrow> if skip r = [] then Some v else None)"
  by (simp add: json_parse_def parse_fuel_def pv_enough [of s "2 * length s + 2" n])

end
