(* ===== verification/Config.thy ===== *)
theory Config
  imports Json
begin

text \<open>
  \<open>config.go\<close>: the configuration, its defaults and clamps, its JSON form, and loading and saving it.
  A Go slice is \<open>None\<close> for nil, which JSON prints as \<open>null\<close>. The disk is a map from paths to nodes,
  for paths spelled one way; the outcomes of system calls are fields of \<open>save_env\<close>. \<open>Save\<close> returns
  every state the disk goes through, so that a crash is the end of the list at any point.
\<close>

section \<open>Data\<close>

type_synonym 'a slice = "'a list option"

definition elems :: "'a slice \<Rightarrow> 'a list" where
  "elems s = (case s of None \<Rightarrow> [] | Some xs \<Rightarrow> xs)"

text \<open>\<open>append([]T(nil), s...)\<close>: the copy of an empty slice is nil.\<close>

definition append_nil :: "'a list \<Rightarrow> 'a slice" where
  "append_nil xs = (if xs = [] then None else Some xs)"

lemma elems_simps [simp]: "elems None = []" "elems (Some xs) = xs" "elems (append_nil xs) = xs"
  by (simp_all add: elems_def append_nil_def)

record PerformanceConfig =
  BufferSize :: int

record APIConfig =
  ListenAddr :: string

record SystemConfig =
  TProxyPort :: int
  ConnTrackGCInterval :: int
  ConnTrackTTL :: int

record Server =
  srv_Tag :: string
  srv_Type :: string
  srv_Address :: string
  srv_Port :: int
  srv_Username :: string
  srv_Password :: string

record OutboundConfig =
  Servers :: "Server slice"

record Config =
  cfg_API :: APIConfig
  cfg_Outbounds :: OutboundConfig
  cfg_Performance :: PerformanceConfig
  cfg_System :: SystemConfig
  cfg_ProcessWhitelist :: "string slice"

definition zero_Server :: Server where
  "zero_Server = \<lparr>srv_Tag = [], srv_Type = [], srv_Address = [], srv_Port = 0, srv_Username = [], srv_Password = []\<rparr>"

definition zero_Config :: Config where
  "zero_Config = \<lparr>cfg_API = \<lparr>ListenAddr = []\<rparr>, cfg_Outbounds = \<lparr>Servers = None\<rparr>,
     cfg_Performance = \<lparr>BufferSize = 0\<rparr>,
     cfg_System = \<lparr>TProxyPort = 0, ConnTrackGCInterval = 0, ConnTrackTTL = 0\<rparr>,
     cfg_ProcessWhitelist = None\<rparr>"

definition ClampBufferSize :: "int \<Rightarrow> int" where
  "ClampBufferSize n = (if n < 32 * 1024 then 32 * 1024
     else if 1024 * 1024 < n then 1024 * 1024 else n)"

definition DefaultConfig :: Config where
  "DefaultConfig = \<lparr>cfg_API = \<lparr>ListenAddr = ''127.0.0.1:8080''\<rparr>,
     cfg_Outbounds = \<lparr>Servers = Some [\<lparr>srv_Tag = ''proxy'', srv_Type = ''socks5'', srv_Address = ''127.0.0.1'',
       srv_Port = 9192, srv_Username = [], srv_Password = []\<rparr>]\<rparr>,
     cfg_Performance = \<lparr>BufferSize = 64 * 1024\<rparr>,
     cfg_System = \<lparr>TProxyPort = 7893, ConnTrackGCInterval = 15, ConnTrackTTL = 30\<rparr>,
     cfg_ProcessWhitelist = Some []\<rparr>"

section \<open>From and to JSON values\<close>

text \<open>
  Decoding into a Go value: \<open>null\<close> leaves it as it is (a slice becomes nil), another kind of value
  than the type's is an error (\<open>None\<close>). Keys match in any case; unknown keys are skipped; the
  elements of a slice are decoded over those it held.
\<close>

definition into_string :: "json \<Rightarrow> string \<Rightarrow> string option" where
  "into_string j old = (case j of JNull \<Rightarrow> Some old | JStr s \<Rightarrow> Some s | _ \<Rightarrow> None)"

definition into_int :: "json \<Rightarrow> int \<Rightarrow> int option" where
  "into_int j old = (case j of JNull \<Rightarrow> Some old | JNum l \<Rightarrow> Atoi l | _ \<Rightarrow> None)"

primrec into_elems :: "(json \<Rightarrow> 'a \<Rightarrow> 'a option) \<Rightarrow> 'a \<Rightarrow> json list \<Rightarrow> 'a list \<Rightarrow> 'a list option" where
  "into_elems f zero [] old = Some []"
| "into_elems f zero (j # js) old = do {
     x \<leftarrow> f j (case old of [] \<Rightarrow> zero | y # _ \<Rightarrow> y);
     xs \<leftarrow> into_elems f zero js (tl old);
     Some (x # xs) }"

definition into_slice :: "(json \<Rightarrow> 'a \<Rightarrow> 'a option) \<Rightarrow> 'a \<Rightarrow> json \<Rightarrow> 'a slice \<Rightarrow> 'a slice option" where
  "into_slice f zero j old = (case j of JNull \<Rightarrow> Some None
     | JArr js \<Rightarrow> map_option Some (into_elems f zero js (elems old)) | _ \<Rightarrow> None)"

primrec into_fields :: "(string \<Rightarrow> json \<Rightarrow> 'r \<Rightarrow> 'r option) \<Rightarrow> (string \<times> json) list \<Rightarrow> 'r \<Rightarrow> 'r option" where
  "into_fields f [] r = Some r"
| "into_fields f (kj # ms) r = do { r \<leftarrow> f (fst kj) (snd kj) r; into_fields f ms r }"

definition into_struct :: "(string \<Rightarrow> json \<Rightarrow> 'r \<Rightarrow> 'r option) \<Rightarrow> json \<Rightarrow> 'r \<Rightarrow> 'r option" where
  "into_struct f j r = (case j of JNull \<Rightarrow> Some r | JObj ms \<Rightarrow> into_fields f ms r | _ \<Rightarrow> None)"

definition APIConfig_field :: "string \<Rightarrow> json \<Rightarrow> APIConfig \<Rightarrow> APIConfig option" where
  "APIConfig_field k j r = (if EqualFold k ''listen_addr''
       then map_option (\<lambda>x. r\<lparr>ListenAddr := x\<rparr>) (into_string j (ListenAddr r)) else Some r)"

definition PerformanceConfig_field :: "string \<Rightarrow> json \<Rightarrow> PerformanceConfig \<Rightarrow> PerformanceConfig option" where
  "PerformanceConfig_field k j r = (if EqualFold k ''buffer_size''
       then map_option (\<lambda>x. r\<lparr>BufferSize := x\<rparr>) (into_int j (BufferSize r)) else Some r)"

definition SystemConfig_field :: "string \<Rightarrow> json \<Rightarrow> SystemConfig \<Rightarrow> SystemConfig option" where
  "SystemConfig_field k j r =
     (if EqualFold k ''tproxy_port'' then map_option (\<lambda>x. r\<lparr>TProxyPort := x\<rparr>) (into_int j (TProxyPort r))
      else if EqualFold k ''conn_track_gc_interval''
        then map_option (\<lambda>x. r\<lparr>ConnTrackGCInterval := x\<rparr>) (into_int j (ConnTrackGCInterval r))
      else if EqualFold k ''conn_track_ttl'' then map_option (\<lambda>x. r\<lparr>ConnTrackTTL := x\<rparr>) (into_int j (ConnTrackTTL r))
      else Some r)"

definition Server_field :: "string \<Rightarrow> json \<Rightarrow> Server \<Rightarrow> Server option" where
  "Server_field k j r =
     (if EqualFold k ''tag'' then map_option (\<lambda>x. r\<lparr>srv_Tag := x\<rparr>) (into_string j (srv_Tag r))
      else if EqualFold k ''type'' then map_option (\<lambda>x. r\<lparr>srv_Type := x\<rparr>) (into_string j (srv_Type r))
      else if EqualFold k ''address'' then map_option (\<lambda>x. r\<lparr>srv_Address := x\<rparr>) (into_string j (srv_Address r))
      else if EqualFold k ''port'' then map_option (\<lambda>x. r\<lparr>srv_Port := x\<rparr>) (into_int j (srv_Port r))
      else if EqualFold k ''username'' then map_option (\<lambda>x. r\<lparr>srv_Username := x\<rparr>) (into_string j (srv_Username r))
      else if EqualFold k ''password'' then map_option (\<lambda>x. r\<lparr>srv_Password := x\<rparr>) (into_string j (srv_Password r))
      else Some r)"

definition OutboundConfig_field :: "string \<Rightarrow> json \<Rightarrow> OutboundConfig \<Rightarrow> OutboundConfig option" where
  "OutboundConfig_field k j r = (if EqualFold k ''servers''
       then map_option (\<lambda>x. r\<lparr>Servers := x\<rparr>) (into_slice (into_struct Server_field) zero_Server j (Servers r))
       else Some r)"

definition Config_field :: "string \<Rightarrow> json \<Rightarrow> Config \<Rightarrow> Config option" where
  "Config_field k j c =
     (if EqualFold k ''api''
        then map_option (\<lambda>x. c\<lparr>cfg_API := x\<rparr>) (into_struct APIConfig_field j (cfg_API c))
      else if EqualFold k ''outbounds''
        then map_option (\<lambda>x. c\<lparr>cfg_Outbounds := x\<rparr>) (into_struct OutboundConfig_field j (cfg_Outbounds c))
      else if EqualFold k ''performance''
        then map_option (\<lambda>x. c\<lparr>cfg_Performance := x\<rparr>) (into_struct PerformanceConfig_field j (cfg_Performance c))
      else if EqualFold k ''system''
        then map_option (\<lambda>x. c\<lparr>cfg_System := x\<rparr>) (into_struct SystemConfig_field j (cfg_System c))
      else if EqualFold k ''process_whitelist''
        then map_option (\<lambda>x. c\<lparr>cfg_ProcessWhitelist := x\<rparr>)
          (into_slice into_string [] j (cfg_ProcessWhitelist c))
      else Some c)"

definition slice_json :: "('a \<Rightarrow> json) \<Rightarrow> 'a slice \<Rightarrow> json" where
  "slice_json f s = (case s of None \<Rightarrow> JNull | Some xs \<Rightarrow> JArr (map f xs))"

definition omitempty :: "string \<Rightarrow> string \<Rightarrow> (string \<times> json) list" where
  "omitempty k s = (if s = [] then [] else [(k, JStr s)])"

definition Server_json :: "Server \<Rightarrow> json" where
  "Server_json r = JObj ([(''tag'', JStr (srv_Tag r)), (''type'', JStr (srv_Type r)),
       (''address'', JStr (srv_Address r)), (''port'', JNum (Itoa (srv_Port r)))]
     @ omitempty ''username'' (srv_Username r) @ omitempty ''password'' (srv_Password r))"

definition Config_json :: "Config \<Rightarrow> json" where
  "Config_json c = JObj
     [(''api'', JObj [(''listen_addr'', JStr (ListenAddr (cfg_API c)))]),
      (''outbounds'', JObj [(''servers'', slice_json Server_json (Servers (cfg_Outbounds c)))]),
      (''performance'', JObj [(''buffer_size'', JNum (Itoa (BufferSize (cfg_Performance c))))]),
      (''system'', JObj [(''tproxy_port'', JNum (Itoa (TProxyPort (cfg_System c)))),
         (''conn_track_gc_interval'', JNum (Itoa (ConnTrackGCInterval (cfg_System c)))),
         (''conn_track_ttl'', JNum (Itoa (ConnTrackTTL (cfg_System c))))]),
      (''process_whitelist'', slice_json JStr (cfg_ProcessWhitelist c))]"

section \<open>UnmarshalJSON\<close>

text \<open>The five repairs of \<open>UnmarshalJSON\<close> behind the decoding, in the code's order.\<close>

definition fill_listen :: "Config \<Rightarrow> Config" where
  "fill_listen c = (if ListenAddr (cfg_API c) = []
     then c\<lparr>cfg_API := (cfg_API c)\<lparr>ListenAddr := ListenAddr (cfg_API DefaultConfig)\<rparr>\<rparr> else c)"

definition fill_system :: "Config \<Rightarrow> Config" where
  "fill_system c = (if TProxyPort (cfg_System c) = 0 then c\<lparr>cfg_System := cfg_System DefaultConfig\<rparr>
     else let s = cfg_System c;
              s = (if ConnTrackGCInterval s \<le> 0
                   then s\<lparr>ConnTrackGCInterval := ConnTrackGCInterval (cfg_System DefaultConfig)\<rparr> else s);
              s = (if ConnTrackTTL s \<le> 0 then s\<lparr>ConnTrackTTL := ConnTrackTTL (cfg_System DefaultConfig)\<rparr> else s)
          in c\<lparr>cfg_System := s\<rparr>)"

definition fill_servers :: "Config \<Rightarrow> Config" where
  "fill_servers c = (if elems (Servers (cfg_Outbounds c)) = []
     then c\<lparr>cfg_Outbounds := cfg_Outbounds DefaultConfig\<rparr> else c)"

definition fill_buffer :: "Config \<Rightarrow> Config" where
  "fill_buffer c = (let p = cfg_Performance c in
     if BufferSize p = 0
     then c\<lparr>cfg_Performance := p\<lparr>BufferSize := BufferSize (cfg_Performance DefaultConfig)\<rparr>\<rparr>
     else c\<lparr>cfg_Performance := p\<lparr>BufferSize := ClampBufferSize (BufferSize p)\<rparr>\<rparr>)"

definition fill_whitelist :: "Config \<Rightarrow> Config" where
  "fill_whitelist c = (if cfg_ProcessWhitelist c = None then c\<lparr>cfg_ProcessWhitelist := Some []\<rparr> else c)"

definition fill_defaults :: "Config \<Rightarrow> Config" where
  "fill_defaults c = fill_whitelist (fill_buffer (fill_servers (fill_system (fill_listen c))))"

definition UnmarshalJSON :: "json \<Rightarrow> Config \<Rightarrow> Config option" where
  "UnmarshalJSON j c = map_option fill_defaults (into_struct Config_field j c)"

section \<open>The disk, Load and Save\<close>

datatype node = File string nat | Directory

type_synonym disk = "string \<rightharpoonup> node"

datatype load_error = NotExist | ReadFailed | BadJson | WrongType

text \<open>\<open>read_ok\<close>: whether the system lets the file be read.\<close>

definition Load :: "bool \<Rightarrow> string \<Rightarrow> disk \<Rightarrow> load_error + Config" where
  "Load read_ok path d = (case d path of
       None \<Rightarrow> Inl NotExist
     | Some Directory \<Rightarrow> Inl ReadFailed
     | Some (File s m) \<Rightarrow>
        if \<not> read_ok then Inl ReadFailed
        else (case json_parse s of None \<Rightarrow> Inl BadJson
          | Some j \<Rightarrow> (case UnmarshalJSON j zero_Config of None \<Rightarrow> Inl WrongType | Some c \<Rightarrow> Inr c)))"

definition is_sep :: "char \<Rightarrow> bool" where
  "is_sep c \<longleftrightarrow> c = CHR ''/'' \<or> c = CHR 0x5C"

text \<open>\<open>filepath.Split\<close>: behind the last separator, or behind a drive letter's colon.\<close>

definition path_base :: "string \<Rightarrow> string" where
  "path_base p = rev (takeWhile (\<lambda>c. \<not> is_sep c) (rev (if take 1 (drop 1 p) = '':'' then drop 2 p else p)))"

definition path_dir :: "string \<Rightarrow> string" where
  "path_dir p = take (length p - length (path_base p)) p"

record save_env =
  sv_TempDir :: string
  sv_random :: "string list"
  sv_create_ok :: bool
  sv_chmod_ok :: bool
  sv_short_write :: "nat option"
  sv_close_ok :: bool
  sv_rename_ok :: "string \<Rightarrow> string \<Rightarrow> bool"
  sv_remove_ok :: bool

text \<open>\<open>os.CreateTemp(dir, base+".*.tmp")\<close>: in \<open>TempDir\<close> when \<open>dir\<close> is empty; the first random name not yet in use.\<close>

definition join_path :: "string \<Rightarrow> string \<Rightarrow> string" where
  "join_path dir name = (if dir \<noteq> [] \<and> is_sep (last dir) then dir @ name else dir @ [CHR 0x5C] @ name)"

definition temp_name :: "save_env \<Rightarrow> string \<Rightarrow> string \<Rightarrow> string" where
  "temp_name env path r = join_path (if path_dir path = [] then sv_TempDir env else path_dir path)
     (path_base path @ ''.'' @ r @ ''.tmp'')"

definition CreateTemp :: "save_env \<Rightarrow> string \<Rightarrow> disk \<Rightarrow> string option" where
  "CreateTemp env path d = (if \<not> sv_create_ok env then None
     else find (\<lambda>n. d n = None) (map (temp_name env path) (take 10000 (sv_random env))))"

datatype save_error = CreateFailed | WriteFailed | CloseFailed | RenameFailed

definition remove_temp :: "save_env \<Rightarrow> string \<Rightarrow> disk \<Rightarrow> disk" where
  "remove_temp env tmp d = (if sv_remove_ok env then d(tmp := None) else d)"

definition Save :: "save_env \<Rightarrow> string \<Rightarrow> Config \<Rightarrow> disk \<Rightarrow> save_error option \<times> disk list" where
  "Save env path c d =
     (let data = MarshalIndent (Config_json c)
      in case CreateTemp env path d of
           None \<Rightarrow> (Some CreateFailed, [d])
         | Some tmp \<Rightarrow>
            let d1 = d(tmp \<mapsto> File [] 384);
                m = (if sv_chmod_ok env then 420 else 384);
                d2 = d1(tmp \<mapsto> File [] m)
            in case sv_short_write env of
                 Some n \<Rightarrow> let d3 = d2(tmp \<mapsto> File (take n data) m)
                   in (Some WriteFailed, [d, d1, d2, d3, remove_temp env tmp d3])
               | None \<Rightarrow>
                  let d3 = d2(tmp \<mapsto> File data m)
                  in if \<not> sv_close_ok env then (Some CloseFailed, [d, d1, d2, d3, remove_temp env tmp d3])
                     else if \<not> sv_rename_ok env tmp path \<or> d path = Some Directory
                       then (Some RenameFailed, [d, d1, d2, d3, remove_temp env tmp d3])
                     else (None, [d, d1, d2, d3, d3(tmp := None, path \<mapsto> File data m)]))"

definition final_disk :: "save_error option \<times> disk list \<Rightarrow> disk" where
  "final_disk r = last (snd r)"

section \<open>Well-formed configurations\<close>

text \<open>What every loaded configuration satisfies.\<close>

definition wf_config :: "Config \<Rightarrow> bool" where
  "wf_config c \<longleftrightarrow> ListenAddr (cfg_API c) \<noteq> []
     \<and> TProxyPort (cfg_System c) \<noteq> 0 \<and> 0 < ConnTrackGCInterval (cfg_System c) \<and> 0 < ConnTrackTTL (cfg_System c)
     \<and> elems (Servers (cfg_Outbounds c)) \<noteq> []
     \<and> 32 * 1024 \<le> BufferSize (cfg_Performance c) \<and> BufferSize (cfg_Performance c) \<le> 1024 * 1024
     \<and> cfg_ProcessWhitelist c \<noteq> None"

lemma ClampBufferSize_bounds: "32 * 1024 \<le> ClampBufferSize n \<and> ClampBufferSize n \<le> 1024 * 1024"
  by (simp add: ClampBufferSize_def)

lemma ClampBufferSize_id: "32 * 1024 \<le> n \<Longrightarrow> n \<le> 1024 * 1024 \<Longrightarrow> ClampBufferSize n = n"
  by (simp add: ClampBufferSize_def)

lemma ClampBufferSize_idem [simp]: "ClampBufferSize (ClampBufferSize n) = ClampBufferSize n"
  by (simp add: ClampBufferSize_def)

text \<open>Each repair sets its own part and leaves the others.\<close>

lemma fill_other [simp]:
  "cfg_System (fill_listen c) = cfg_System c" "cfg_Outbounds (fill_listen c) = cfg_Outbounds c"
  "cfg_Performance (fill_listen c) = cfg_Performance c" "cfg_ProcessWhitelist (fill_listen c) = cfg_ProcessWhitelist c"
  "cfg_API (fill_system c) = cfg_API c" "cfg_Outbounds (fill_system c) = cfg_Outbounds c"
  "cfg_Performance (fill_system c) = cfg_Performance c" "cfg_ProcessWhitelist (fill_system c) = cfg_ProcessWhitelist c"
  "cfg_API (fill_servers c) = cfg_API c" "cfg_System (fill_servers c) = cfg_System c"
  "cfg_Performance (fill_servers c) = cfg_Performance c" "cfg_ProcessWhitelist (fill_servers c) = cfg_ProcessWhitelist c"
  "cfg_API (fill_buffer c) = cfg_API c" "cfg_System (fill_buffer c) = cfg_System c"
  "cfg_Outbounds (fill_buffer c) = cfg_Outbounds c" "cfg_ProcessWhitelist (fill_buffer c) = cfg_ProcessWhitelist c"
  "cfg_API (fill_whitelist c) = cfg_API c" "cfg_System (fill_whitelist c) = cfg_System c"
  "cfg_Outbounds (fill_whitelist c) = cfg_Outbounds c" "cfg_Performance (fill_whitelist c) = cfg_Performance c"
  by (simp_all add: fill_listen_def fill_system_def fill_servers_def fill_buffer_def fill_whitelist_def Let_def)

lemma fill_own:
  "ListenAddr (cfg_API (fill_listen c)) \<noteq> []"
  "TProxyPort (cfg_System (fill_system c)) \<noteq> 0"
  "0 < ConnTrackGCInterval (cfg_System (fill_system c))" "0 < ConnTrackTTL (cfg_System (fill_system c))"
  "elems (Servers (cfg_Outbounds (fill_servers c))) \<noteq> []"
  "32 * 1024 \<le> BufferSize (cfg_Performance (fill_buffer c))" "BufferSize (cfg_Performance (fill_buffer c)) \<le> 1024 * 1024"
  "cfg_ProcessWhitelist (fill_whitelist c) \<noteq> None"
  by (simp_all add: fill_listen_def fill_system_def fill_servers_def fill_buffer_def fill_whitelist_def Let_def
      DefaultConfig_def ClampBufferSize_bounds [simplified])

lemma fill_defaults_wf: "wf_config (fill_defaults c)"
  unfolding wf_config_def fill_defaults_def by (simp only: fill_other fill_own simp_thms)

lemma fill_defaults_id: "wf_config c \<Longrightarrow> fill_defaults c = c"
proof -
  assume wf: "wf_config c"
  then have "fill_listen c = c" "fill_servers c = c" "fill_whitelist c = c"
    by (simp_all add: wf_config_def fill_listen_def fill_servers_def fill_whitelist_def)
  moreover have "fill_system c = c"
    using wf by (simp add: wf_config_def fill_system_def)
  moreover have "fill_buffer c = c"
    using wf by (simp add: wf_config_def fill_buffer_def Let_def ClampBufferSize_id)
  ultimately show ?thesis
    by (simp add: fill_defaults_def)
qed

lemma DefaultConfig_wf: "wf_config DefaultConfig"
  by (simp add: wf_config_def DefaultConfig_def)

lemma UnmarshalJSON_wf: "UnmarshalJSON j c = Some c' \<Longrightarrow> wf_config c'"
  by (auto simp: UnmarshalJSON_def fill_defaults_wf)

section \<open>Decoding what was encoded\<close>

definition int64 :: "int \<Rightarrow> bool" where
  "int64 i \<longleftrightarrow> min_dur \<le> i \<and> i \<le> max_dur"

definition config_ints :: "Config \<Rightarrow> bool" where
  "config_ints c \<longleftrightarrow> int64 (BufferSize (cfg_Performance c)) \<and> int64 (TProxyPort (cfg_System c))
     \<and> int64 (ConnTrackGCInterval (cfg_System c)) \<and> int64 (ConnTrackTTL (cfg_System c))
     \<and> list_all (\<lambda>s. int64 (srv_Port s)) (elems (Servers (cfg_Outbounds c)))"

lemma Atoi_Itoa_int64 [simp]: "int64 i \<Longrightarrow> Atoi (Itoa i) = Some i"
proof (cases "i < 0")
  case True
  assume "int64 i"
  with True show ?thesis
    by (simp add: Itoa_def Atoi_def int64_def)
qed (simp add: int64_def Atoi_Itoa)

lemma EqualFold_lower: "ToLower k = k \<Longrightarrow> ToLower f = f \<Longrightarrow> EqualFold k f \<longleftrightarrow> k = f"
  by (simp add: EqualFold_def)

lemma lower_keys:
  "ToLower ''listen_addr'' = ''listen_addr''" "ToLower ''buffer_size'' = ''buffer_size''"
  "ToLower ''tproxy_port'' = ''tproxy_port''" "ToLower ''conn_track_gc_interval'' = ''conn_track_gc_interval''"
  "ToLower ''conn_track_ttl'' = ''conn_track_ttl''" "ToLower ''tag'' = ''tag''" "ToLower ''type'' = ''type''"
  "ToLower ''address'' = ''address''" "ToLower ''port'' = ''port''" "ToLower ''username'' = ''username''"
  "ToLower ''password'' = ''password''" "ToLower ''servers'' = ''servers''" "ToLower ''api'' = ''api''"
  "ToLower ''outbounds'' = ''outbounds''" "ToLower ''performance'' = ''performance''"
  "ToLower ''system'' = ''system''" "ToLower ''process_whitelist'' = ''process_whitelist''"
  by code_simp+

named_theorems json_decode \<open>decoding one key of an encoded record\<close>

lemma into_simps [json_decode]:
  "into_string (JStr s) old = Some s" "int64 i \<Longrightarrow> into_int (JNum (Itoa i)) n = Some i"
  "into_struct f (JObj ms) r = into_fields f ms r"
  by (simp_all add: into_string_def into_int_def into_struct_def)

lemma API_fields [json_decode]: "APIConfig_field ''listen_addr'' j r = map_option (\<lambda>x. r\<lparr>ListenAddr := x\<rparr>) (into_string j (ListenAddr r))"
  by (simp add: APIConfig_field_def)

lemma Performance_fields [json_decode]:
  "PerformanceConfig_field ''buffer_size'' j r = map_option (\<lambda>x. r\<lparr>BufferSize := x\<rparr>) (into_int j (BufferSize r))"
  by (simp add: PerformanceConfig_field_def)

lemma System_fields [json_decode]:
  "SystemConfig_field ''tproxy_port'' j r = map_option (\<lambda>x. r\<lparr>TProxyPort := x\<rparr>) (into_int j (TProxyPort r))"
  "SystemConfig_field ''conn_track_gc_interval'' j r = map_option (\<lambda>x. r\<lparr>ConnTrackGCInterval := x\<rparr>) (into_int j (ConnTrackGCInterval r))"
  "SystemConfig_field ''conn_track_ttl'' j r = map_option (\<lambda>x. r\<lparr>ConnTrackTTL := x\<rparr>) (into_int j (ConnTrackTTL r))"
  by (simp_all add: SystemConfig_field_def EqualFold_lower lower_keys)

lemma Server_fields [json_decode]:
  "Server_field ''tag'' j r = map_option (\<lambda>x. r\<lparr>srv_Tag := x\<rparr>) (into_string j (srv_Tag r))"
  "Server_field ''type'' j r = map_option (\<lambda>x. r\<lparr>srv_Type := x\<rparr>) (into_string j (srv_Type r))"
  "Server_field ''address'' j r = map_option (\<lambda>x. r\<lparr>srv_Address := x\<rparr>) (into_string j (srv_Address r))"
  "Server_field ''port'' j r = map_option (\<lambda>x. r\<lparr>srv_Port := x\<rparr>) (into_int j (srv_Port r))"
  "Server_field ''username'' j r = map_option (\<lambda>x. r\<lparr>srv_Username := x\<rparr>) (into_string j (srv_Username r))"
  "Server_field ''password'' j r = map_option (\<lambda>x. r\<lparr>srv_Password := x\<rparr>) (into_string j (srv_Password r))"
  by (simp_all add: Server_field_def EqualFold_lower lower_keys)

lemma Outbound_fields [json_decode]:
  "OutboundConfig_field ''servers'' j r =
     map_option (\<lambda>x. r\<lparr>Servers := x\<rparr>) (into_slice (into_struct Server_field) zero_Server j (Servers r))"
  by (simp add: OutboundConfig_field_def)

lemma Config_fields [json_decode]:
  "Config_field ''api'' j c = map_option (\<lambda>x. c\<lparr>cfg_API := x\<rparr>) (into_struct APIConfig_field j (cfg_API c))"
  "Config_field ''outbounds'' j c = map_option (\<lambda>x. c\<lparr>cfg_Outbounds := x\<rparr>) (into_struct OutboundConfig_field j (cfg_Outbounds c))"
  "Config_field ''performance'' j c = map_option (\<lambda>x. c\<lparr>cfg_Performance := x\<rparr>) (into_struct PerformanceConfig_field j (cfg_Performance c))"
  "Config_field ''system'' j c = map_option (\<lambda>x. c\<lparr>cfg_System := x\<rparr>) (into_struct SystemConfig_field j (cfg_System c))"
  "Config_field ''process_whitelist'' j c = map_option (\<lambda>x. c\<lparr>cfg_ProcessWhitelist := x\<rparr>)
     (into_slice into_string [] j (cfg_ProcessWhitelist c))"
  by (simp_all add: Config_field_def EqualFold_lower lower_keys)

lemma into_slice_json:
  assumes "\<And>x. x \<in> set (elems s) \<Longrightarrow> f (g x) zero = Some x"
  shows "into_slice f zero (slice_json g s) None = Some s"
proof (cases s)
  case (Some xs)
  have "into_elems f zero (map g ys) [] = Some ys" if "set ys \<subseteq> set xs" for ys
    using that assms Some by (induction ys) auto
  then show ?thesis
    by (simp add: Some slice_json_def into_slice_def)
qed (simp add: slice_json_def into_slice_def)

lemma Server_decode:
  "int64 (srv_Port s) \<Longrightarrow> into_struct Server_field (Server_json s) zero_Server = Some s"
  by (cases s) (simp add: Server_json_def zero_Server_def omitempty_def json_decode)

lemma Config_decode:
  assumes "config_ints c"
  shows "into_struct Config_field (Config_json c) zero_Config = Some c"
proof -
  have servers: "into_slice (into_struct Server_field) zero_Server (slice_json Server_json (Servers (cfg_Outbounds c))) None
      = Some (Servers (cfg_Outbounds c))"
    using assms by (intro into_slice_json Server_decode) (simp add: config_ints_def list_all_iff)
  have names: "into_slice into_string [] (slice_json JStr (cfg_ProcessWhitelist c)) None = Some (cfg_ProcessWhitelist c)"
    by (rule into_slice_json) (simp add: json_decode)
  from assms show ?thesis
    unfolding Config_json_def zero_Config_def config_ints_def
    by (simp add: json_decode servers names)
qed

text \<open>The encoded value can be printed and parsed.\<close>

lemma jok_elems_iff: "jok_elems xs \<longleftrightarrow> list_all jok xs"
  by (induction xs) simp_all

lemma edepth_le: "(\<And>x. x \<in> set xs \<Longrightarrow> vdepth x \<le> k) \<Longrightarrow> edepth xs \<le> k"
  by (induction xs) simp_all

lemma Server_json_ok: "int64 (srv_Port s) \<Longrightarrow> jok (Server_json s)" "vdepth (Server_json s) \<le> 1"
  by (simp_all add: Server_json_def omitempty_def)

lemma Config_json_ok:
  assumes "config_ints c"
  shows "jok (Config_json c)" "vdepth (Config_json c) \<le> max_depth"
proof -
  show "jok (Config_json c)"
    using assms
    by (simp add: Config_json_def config_ints_def slice_json_def jok_elems_iff list_all_iff Server_json_ok split: option.split)
  have "edepth (map Server_json xs) \<le> 1" "edepth (map JStr ys) \<le> 1" for xs ys
    by (rule edepth_le; use Server_json_ok(2) in auto)+
  then have s: "vdepth (slice_json Server_json s) \<le> 2" "vdepth (slice_json JStr t) \<le> 2" for s t
    by (auto simp: slice_json_def intro: le_SucI split: option.split)
  show "vdepth (Config_json c) \<le> max_depth"
    using s(1) [of "Servers (cfg_Outbounds c)"] s(2) [of "cfg_ProcessWhitelist c"]
    by (simp add: Config_json_def max_depth_def)
qed

lemma Load_of_config:
  assumes "config_ints c" "wf_config c" "d path = Some (File (MarshalIndent (Config_json c)) m)"
  shows "Load True path d = Inr c"
  using assms Config_json_ok [OF assms(1)]
  by (simp add: Load_def json_parse_MarshalIndent UnmarshalJSON_def Config_decode fill_defaults_id)

section \<open>Saving\<close>

lemma CreateTemp_name: "CreateTemp env path d = Some tmp \<Longrightarrow> d tmp = None \<and> (\<exists>r. tmp = temp_name env path r)"
  by (auto simp: CreateTemp_def find_Some_iff split: if_splits)

lemma rev_takeWhile_suffix: "\<exists>q. xs = q @ rev (takeWhile P (rev xs))"
  using arg_cong [OF takeWhile_dropWhile_id [of P "rev xs"], of rev] by (metis rev_append rev_rev_ident)

lemma path_split: "path_dir p @ path_base p = p"
proof -
  let ?q = "if take 1 (drop 1 p) = '':'' then drop 2 p else p"
  obtain q where "?q = q @ path_base p"
    unfolding path_base_def using rev_takeWhile_suffix by blast
  moreover have "p = (if take 1 (drop 1 p) = '':'' then take 2 p else []) @ ?q"
    by simp
  ultimately have "p = ((if take 1 (drop 1 p) = '':'' then take 2 p else []) @ q) @ path_base p"
    by simp
  then obtain r where "p = r @ path_base p" ..
  then show ?thesis
    unfolding path_dir_def by (metis append_eq_conv_conj diff_add_inverse2 length_append)
qed

lemma temp_name_not_path: "temp_name env path r \<noteq> path"
proof (cases "path_dir path = []")
  case True
  then have b: "path_base path = path"
    using path_split [of path] by simp
  show ?thesis
  proof
    assume t: "temp_name env path r = path"
    have "length path < length (temp_name env path r)"
      using b True by (simp add: temp_name_def join_path_def)
    with t show False by simp
  qed
next
  case False
  have "length path = length (path_dir path) + length (path_base path)"
    using path_split [of path] by (metis length_append)
  then have "length path < length (temp_name env path r)"
    using False by (simp add: temp_name_def join_path_def)
  then show ?thesis by auto
qed

text \<open>The states of a save that gets as far as its temporary file.\<close>

lemma Save_states:
  assumes "Save env path c d = (err, states)" "s \<in> set states"
  shows "(\<exists>r x. s = d \<or> s = d(temp_name env path r := x)) \<or>
         (\<exists>r m. err = None \<and> d (temp_name env path r) = None \<and> s = d(path \<mapsto> File (MarshalIndent (Config_json c)) m) \<and> s = last states)"
proof (cases "CreateTemp env path d")
  case None
  with assms show ?thesis by (auto simp: Save_def)
next
  case (Some tmp)
  then obtain r where r: "tmp = temp_name env path r" "d tmp = None"
    using CreateTemp_name by blast
  have ne: "tmp \<noteq> path" using r temp_name_not_path by simp
  have "d(tmp := None) = d"
    using r(2) by auto
  moreover have "(d(tmp := x))(path := y, tmp := None) = d(path := y)" for x y
    using r(2) ne by (auto simp: fun_upd_twist)
  moreover have "d(tmp := x, path := y, tmp := None) = d(path := y)" for x y
    using r(2) ne by (auto simp: fun_upd_twist)
  ultimately show ?thesis
    using assms Some r(2) ne unfolding r(1)
    by (auto simp: Save_def Let_def remove_temp_def fun_upd_twist [of path] split: option.splits if_splits)
qed

text \<open>The system at its best, and the disk of a machine with a temporary directory.\<close>

definition good_env :: save_env where
  "good_env = \<lparr>sv_TempDir = ''T:'', sv_random = [''1'', ''2''], sv_create_ok = True, sv_chmod_ok = True,
     sv_short_write = None, sv_close_ok = True, sv_rename_ok = (\<lambda>_ _. True), sv_remove_ok = True\<rparr>"

lemma Save_good: "CreateTemp good_env path d = Some tmp \<Longrightarrow> d path \<noteq> Some Directory \<Longrightarrow> fst (Save good_env path c d) = None"
  by (simp add: Save_def good_env_def Let_def)

lemma CreateTemp_good: "d (temp_name good_env path ''1'') = None \<Longrightarrow> CreateTemp good_env path d = Some (temp_name good_env path ''1'')"
  by (simp add: CreateTemp_def good_env_def)

lemma snd_Save_not_Nil: "snd (Save env path c d) \<noteq> []"
  by (simp add: Save_def Let_def split: option.split)

lemma Save_states':
  assumes "s \<in> set (snd (Save env path c d))"
  obtains (old) "s path = d path" "\<And>p. (\<forall>r. p \<noteq> temp_name env path r) \<Longrightarrow> s p = d p"
  | (new) m where "s path = Some (File (MarshalIndent (Config_json c)) m)" "\<And>p. p \<noteq> path \<Longrightarrow> s p = d p"
      "s = final_disk (Save env path c d)" "fst (Save env path c d) = None"
proof -
  have "(\<exists>r x. s = d \<or> s = d(temp_name env path r := x)) \<or>
      (\<exists>m. fst (Save env path c d) = None \<and> s = d(path \<mapsto> File (MarshalIndent (Config_json c)) m) \<and> s = final_disk (Save env path c d))"
    using Save_states [of env path c d "fst (Save env path c d)", OF _ assms] by (auto simp: final_disk_def)
  then consider (a) r x where "s = d \<or> s = d(temp_name env path r := x)"
    | (b) m where "fst (Save env path c d) = None" "s = d(path \<mapsto> File (MarshalIndent (Config_json c)) m)"
        "s = final_disk (Save env path c d)"
    by blast
  then show ?thesis
  proof cases
    case a
    show ?thesis
      by (rule old) (use a temp_name_not_path [of env path r] in auto)
  next
    case b
    show ?thesis
      by (rule new [of m]) (use b in simp_all)
  qed
qed

lemma Save_ok_final:
  assumes "fst (Save env path c d) = None"
  shows "\<exists>m. final_disk (Save env path c d) = d(path \<mapsto> File (MarshalIndent (Config_json c)) m)"
proof (cases "CreateTemp env path d")
  case None
  with assms show ?thesis by (simp add: Save_def)
next
  case (Some tmp)
  then have "d tmp = None" "tmp \<noteq> path"
    using CreateTemp_name [OF Some] temp_name_not_path [of env path] by auto
  then have "(d(tmp := x))(tmp := None, path := y) = d(path := y)" for x y
    by (auto simp: fun_upd_idem)
  with assms Some show ?thesis
    by (auto simp: Save_def Let_def final_disk_def split: option.splits if_splits)
qed

lemma Save_failed_final:
  assumes "fst (Save env path c d) = Some e" "sv_remove_ok env"
  shows "final_disk (Save env path c d) = d"
proof (cases "CreateTemp env path d")
  case None
  with assms show ?thesis by (simp add: Save_def final_disk_def)
next
  case (Some tmp)
  then have "d tmp = None"
    using CreateTemp_name [OF Some] by simp
  then have "d(tmp := None) = d" by auto
  with assms Some show ?thesis
    by (auto simp: Save_def Let_def final_disk_def remove_temp_def split: option.splits if_splits)
qed

lemma Load_saved:
  assumes "wf_config c" "config_ints c" "fst (Save env path c d) = None"
  shows "Load True path (final_disk (Save env path c d)) = Inr c"
  using Save_ok_final [OF assms(3)] assms(1,2) by (auto intro: Load_of_config)

text \<open>C9. A saved configuration is never lost or torn: at every moment of \<open>Save\<close>, a crash
  of the process included, loading the file gives what it gave before or exactly the new configuration, and when
  \<open>Save\<close> reports success, the new one. This composes the JSON printer and parser, the decoding and
  the defaults of \<open>UnmarshalJSON\<close>, and the order of temporary file, write, close and rename.\<close>

theorem config_survives_crash:
  assumes "wf_config c" "config_ints c"
  shows "(\<forall>s\<in>set (snd (Save env path c d)).
            Load ok path s = Load ok path d \<or> Load True path s = Inr c) \<and>
         (fst (Save env path c d) = None \<longrightarrow> Load True path (final_disk (Save env path c d)) = Inr c)"
proof (intro conjI ballI impI)
  fix s assume "s \<in> set (snd (Save env path c d))"
  then show "Load ok path s = Load ok path d \<or> Load True path s = Inr c"
  proof (rule Save_states')
    assume "s path = d path"
    then show ?thesis by (simp add: Load_def)
  next
    fix m assume "s path = Some (File (MarshalIndent (Config_json c)) m)"
    then show ?thesis using Load_of_config [OF assms(2,1)] by blast
  qed
qed (rule Load_saved [OF assms])

lemma config_survives_crash_witness:
  "Load True ''config.json'' (final_disk (Save good_env ''config.json'' DefaultConfig Map.empty)) = Inr DefaultConfig"
proof -
  have "config_ints DefaultConfig"
    by (simp add: config_ints_def DefaultConfig_def int64_def)
  moreover have "fst (Save good_env ''config.json'' DefaultConfig Map.empty) = None"
    by (rule Save_good [OF CreateTemp_good]) simp_all
  ultimately show ?thesis
    using config_survives_crash [OF DefaultConfig_wf, of good_env "''config.json''" Map.empty True] by blast
qed

text \<open>C28. A save touches nothing but its target and its temporary file, and a save that fails
  leaves the disk as it was, whichever step failed, when the temporary file can be removed.\<close>

theorem save_touches_only_target:
  "(\<forall>s\<in>set (snd (Save env path c d)). \<forall>p. p \<noteq> path \<and> (\<forall>r. p \<noteq> temp_name env path r) \<longrightarrow> s p = d p) \<and>
   (\<forall>e. fst (Save env path c d) = Some e \<and> sv_remove_ok env \<longrightarrow> final_disk (Save env path c d) = d)"
proof (intro conjI ballI allI impI)
  fix s p assume "s \<in> set (snd (Save env path c d))" "p \<noteq> path \<and> (\<forall>r. p \<noteq> temp_name env path r)"
  then show "s p = d p"
    by (elim Save_states') auto
qed (simp add: Save_failed_final)

lemma save_touches_only_target_witness:
  "final_disk (Save (good_env\<lparr>sv_rename_ok := \<lambda>_ _. False\<rparr>) ''config.json'' DefaultConfig Map.empty) = Map.empty"
proof -
  let ?e = "good_env\<lparr>sv_rename_ok := \<lambda>_ _. False\<rparr>"
  have "CreateTemp ?e ''config.json'' Map.empty \<noteq> None"
    by (simp add: CreateTemp_def good_env_def)
  then have "fst (Save ?e ''config.json'' DefaultConfig Map.empty) = Some RenameFailed"
    by (auto simp: Save_def Let_def good_env_def)
  moreover have "sv_remove_ok ?e"
    by (simp add: good_env_def)
  ultimately show ?thesis
    using save_touches_only_target [of ?e "''config.json''" DefaultConfig Map.empty] by blast
qed

text \<open>C29. Every configuration that loads is well formed, whatever the file says: it has a listen
  address and a server, its port is not zero, its intervals are positive, its buffer size lies
  between 32 KiB and 1 MiB and its whitelist is not nil.\<close>

theorem loaded_config_well_formed:
  "Load ok path d = Inr c \<Longrightarrow> wf_config c"
  by (auto simp: Load_def UnmarshalJSON_wf split: option.splits node.splits if_splits)

lemma loaded_config_well_formed_witness:
  "Load True ''c'' [''c'' \<mapsto> File ''{}'' 420] = Inr DefaultConfig \<and> wf_config DefaultConfig"
proof -
  have "json_parse ''{}'' = Some (JObj [])"
    by code_simp
  then have "Load True ''c'' [''c'' \<mapsto> File ''{}'' 420] = Inr DefaultConfig"
    by (simp add: Load_def UnmarshalJSON_def into_struct_def zero_Config_def fill_defaults_def fill_listen_def
        fill_system_def fill_servers_def fill_buffer_def fill_whitelist_def DefaultConfig_def Let_def)
  then show ?thesis
    using loaded_config_well_formed by blast
qed

text \<open>A bare file name, such as the default \<open>config.json\<close>, has no directory part, so its temporary
  file is made in the system's directory for temporary files and must be renamed across.\<close>

lemma bare_name_saved_through_TempDir:
  "CreateTemp env ''config.json'' d = Some tmp \<Longrightarrow>
   \<exists>r. tmp = join_path (sv_TempDir env) (''config.json.'' @ r @ ''.tmp'')"
proof -
  assume "CreateTemp env ''config.json'' d = Some tmp"
  then obtain r where "tmp = temp_name env ''config.json'' r"
    using CreateTemp_name by blast
  moreover have "path_dir ''config.json'' = []" "path_base ''config.json'' = ''config.json''"
    by code_simp+
  ultimately show ?thesis
    by (auto simp: temp_name_def)
qed

end
