(* ===== verification/Upstream.thy ===== *)
theory Upstream
  imports GoNet
begin

text \<open>
  \<open>upstream.go\<close>: the upstream dialer, which is shared by all connections and changed by the
  settings page (the HTTP CONNECT dial is in theory \<open>HttpProxy\<close>). A dialer is the data its constructor was
  given (neither constructor of the sources returns an error). \<open>Dialer()\<close> takes the lock twice, so it
  is two steps, \<open>Dialer_read\<close> and \<open>Dialer_write\<close>, between which other calls may run: \<open>up_step\<close>.
\<close>

section \<open>Dialers\<close>

datatype dialer =
    Socks5Dialer string "(string \<times> string) option"
  | HTTPProxyDialer string string string
  | OtherDialer nat

record params =
  p_type :: string
  p_addr :: string
  p_user :: string
  p_pass :: string

definition NewHTTPProxy :: "string \<Rightarrow> string \<Rightarrow> string \<Rightarrow> dialer" where
  "NewHTTPProxy addr user pass =
     HTTPProxyDialer (if CHR '':'' \<in> set addr then addr else addr @ '':80'') user pass"

definition build :: "params \<Rightarrow> dialer" where
  "build p = (if p_type p = ''http'' then NewHTTPProxy (p_addr p) (p_user p) (p_pass p)
     else if p_user p \<noteq> [] then Socks5Dialer (p_addr p) (Some (p_user p, p_pass p))
     else Socks5Dialer (p_addr p) None)"

record UpstreamDialer =
  u_params :: params
  u_cached :: "dialer option"
  u_cachedKey :: string

definition NewUpstreamDialer :: "string \<Rightarrow> string \<Rightarrow> string \<Rightarrow> string \<Rightarrow> UpstreamDialer" where
  "NewUpstreamDialer pType pAddr username password =
     \<lparr>u_params = \<lparr>p_type = pType, p_addr = pAddr, p_user = username, p_pass = password\<rparr>,
      u_cached = None, u_cachedKey = []\<rparr>"

definition Update :: "string \<Rightarrow> string \<Rightarrow> string \<Rightarrow> string \<Rightarrow> UpstreamDialer \<Rightarrow> UpstreamDialer" where
  "Update pType pAddr username password u =
     u\<lparr>u_params := \<lparr>p_type = pType, p_addr = pAddr, p_user = username, p_pass = password\<rparr>,
       u_cached := None, u_cachedKey := []\<rparr>"

definition Current :: "UpstreamDialer \<Rightarrow> string \<times> string" where
  "Current u = (p_type (u_params u), p_addr (u_params u))"

definition SetDialer :: "dialer \<Rightarrow> UpstreamDialer \<Rightarrow> UpstreamDialer" where
  "SetDialer d u = u\<lparr>u_cached := Some d, u_cachedKey := ''custom''\<rparr>"

definition upstreamCacheKey :: "params \<Rightarrow> string" where
  "upstreamCacheKey p = p_type p @ ''://'' @ p_addr p @ [CHR 0x00] @ p_user p @ [CHR 0x00] @ p_pass p"

text \<open>Under the read lock: a dialer, or the key and settings to build one from.\<close>

definition Dialer_read :: "UpstreamDialer \<Rightarrow> dialer + (string \<times> params)" where
  "Dialer_read u = (let key = upstreamCacheKey (u_params u) in
     case u_cached u of
       Some d \<Rightarrow> if u_cachedKey u = ''custom'' \<or> u_cachedKey u = key then Inl d else Inr (key, u_params u)
     | None \<Rightarrow> Inr (key, u_params u))"

text \<open>Under the write lock: look again, then build and remember.\<close>

definition Dialer_write :: "string \<Rightarrow> params \<Rightarrow> UpstreamDialer \<Rightarrow> dialer \<times> UpstreamDialer" where
  "Dialer_write key p u =
     (let fresh = (build p, u\<lparr>u_cached := Some (build p), u_cachedKey := key\<rparr>) in
      case u_cached u of
        Some d \<Rightarrow> if u_cachedKey u = ''custom'' \<or> u_cachedKey u = key then (d, u) else fresh
      | None \<Rightarrow> fresh)"

text \<open>A call of \<open>Dialer()\<close> that nobody interrupts.\<close>

definition Dialer :: "UpstreamDialer \<Rightarrow> dialer \<times> UpstreamDialer" where
  "Dialer u = (case Dialer_read u of Inl d \<Rightarrow> (d, u) | Inr (key, p) \<Rightarrow> Dialer_write key p u)"

text \<open>\<open>Dial\<close>: the current dialer, asked for the address; \<open>dial\<close> is what a dialer does.\<close>

definition up_Dial :: "(dialer \<Rightarrow> string \<Rightarrow> string \<Rightarrow> 'c) \<Rightarrow> string \<Rightarrow> string \<Rightarrow> UpstreamDialer \<Rightarrow> 'c \<times> UpstreamDialer" where
  "up_Dial dial network addr u = (let (d, u) = Dialer u in (dial d network addr, u))"

section \<open>The cache key\<close>

text \<open>Settings the key tells apart: the type is a word, and address and user hold no NUL.\<close>

definition plain_params :: "params \<Rightarrow> bool" where
  "plain_params p \<longleftrightarrow> CHR '':'' \<notin> set (p_type p) \<and> CHR 0x00 \<notin> set (p_addr p) \<and> CHR 0x00 \<notin> set (p_user p)"

lemma append_sep_inject:
  "c \<notin> set xs \<Longrightarrow> c \<notin> set ys \<Longrightarrow> xs @ c # us = ys @ c # vs \<longleftrightarrow> xs = ys \<and> us = vs"
proof (induction xs arbitrary: ys)
  case Nil
  then show ?case by (cases ys) auto
next
  case (Cons x xs)
  then show ?case by (cases ys) auto
qed

lemma cache_key_inject:
  assumes "plain_params p" "plain_params q"
  shows "upstreamCacheKey p = upstreamCacheKey q \<longleftrightarrow> p = q"
proof
  assume "upstreamCacheKey p = upstreamCacheKey q"
  then have "p_type p = p_type q \<and> p_addr p = p_addr q \<and> p_user p = p_user q \<and> p_pass p = p_pass q"
    using assms by (simp add: upstreamCacheKey_def plain_params_def append_sep_inject)
  then show "p = q" by simp
qed simp

lemma cache_key_not_custom [simp]: "upstreamCacheKey p \<noteq> ''custom''" "upstreamCacheKey p \<noteq> []"
proof -
  have "CHR '':'' \<in> set (upstreamCacheKey p)"
    by (simp add: upstreamCacheKey_def)
  moreover have "CHR '':'' \<notin> set ''custom''"
    by simp
  ultimately show "upstreamCacheKey p \<noteq> ''custom''" "upstreamCacheKey p \<noteq> []"
    by (metis, force)
qed

section \<open>Interleaved calls\<close>

record up_sys =
  s_dialer :: UpstreamDialer
  s_waiting :: "nat \<rightharpoonup> string \<times> params"

datatype up_event = Updated params | CustomSet dialer | Missed nat | Returned nat dialer

inductive up_step :: "up_sys \<Rightarrow> up_event \<Rightarrow> up_sys \<Rightarrow> bool" where
  update: "plain_params p \<Longrightarrow>
     up_step s (Updated p) (s\<lparr>s_dialer := Update (p_type p) (p_addr p) (p_user p) (p_pass p) (s_dialer s)\<rparr>)"
| custom: "up_step s (CustomSet d) (s\<lparr>s_dialer := SetDialer d (s_dialer s)\<rparr>)"
| hit: "s_waiting s t = None \<Longrightarrow> Dialer_read (s_dialer s) = Inl d \<Longrightarrow> up_step s (Returned t d) s"
| miss: "s_waiting s t = None \<Longrightarrow> Dialer_read (s_dialer s) = Inr kp \<Longrightarrow>
     up_step s (Missed t) (s\<lparr>s_waiting := (s_waiting s)(t \<mapsto> kp)\<rparr>)"
| built: "s_waiting s t = Some (k, p) \<Longrightarrow> Dialer_write k p (s_dialer s) = (d, u) \<Longrightarrow>
     up_step s (Returned t d) \<lparr>s_dialer = u, s_waiting = (s_waiting s)(t := None)\<rparr>"

inductive_simps returned_simps: "up_step s (Returned t d) s'"
inductive_cases up_step_cases: "up_step s e s'"

definition up_init :: "params \<Rightarrow> up_sys" where
  "up_init p = \<lparr>s_dialer = NewUpstreamDialer (p_type p) (p_addr p) (p_user p) (p_pass p), s_waiting = Map.empty\<rparr>"

inductive up_reach :: "up_sys \<Rightarrow> bool" where
  init: "plain_params p \<Longrightarrow> up_reach (up_init p)"
| step: "up_reach s \<Longrightarrow> up_step s e s' \<Longrightarrow> up_reach s'"

definition custom_set :: "UpstreamDialer \<Rightarrow> dialer \<Rightarrow> bool" where
  "custom_set u d \<longleftrightarrow> u_cachedKey u = ''custom'' \<and> u_cached u = Some d"

definition up_inv :: "up_sys \<Rightarrow> bool" where
  "up_inv s \<longleftrightarrow> plain_params (u_params (s_dialer s))
     \<and> (\<forall>d. u_cached (s_dialer s) = Some d \<longrightarrow> u_cachedKey (s_dialer s) = ''custom'' \<or>
          (\<exists>p. plain_params p \<and> u_cachedKey (s_dialer s) = upstreamCacheKey p \<and> d = build p))
     \<and> (\<forall>t k p. s_waiting s t = Some (k, p) \<longrightarrow> plain_params p \<and> k = upstreamCacheKey p)"

lemma params_eta [simp]: "\<lparr>p_type = p_type p, p_addr = p_addr p, p_user = p_user p, p_pass = p_pass p\<rparr> = p"
  by simp

lemma up_inv_init: "plain_params p \<Longrightarrow> up_inv (up_init p)"
  by (simp add: up_inv_def up_init_def NewUpstreamDialer_def)

lemma up_inv_step: "up_inv s \<Longrightarrow> up_step s e s' \<Longrightarrow> up_inv s'"
proof (erule up_step_cases)
  fix t k p d u
  assume i: "up_inv s" and w: "s_waiting s t = Some (k, p)" and d: "Dialer_write k p (s_dialer s) = (d, u)"
    and s': "s' = \<lparr>s_dialer = u, s_waiting = (s_waiting s)(t := None)\<rparr>"
  have kp: "plain_params p" "k = upstreamCacheKey p"
    using i w by (auto simp: up_inv_def)
  have "u = s_dialer s \<or> u = (s_dialer s)\<lparr>u_cached := Some (build p), u_cachedKey := k\<rparr>"
    using d by (auto simp: Dialer_write_def Let_def split: option.splits if_splits)
  then show "up_inv s'"
    using i kp unfolding s' up_inv_def by (elim disjE) auto
qed (auto simp: up_inv_def Update_def SetDialer_def Dialer_read_def Let_def split: option.splits if_splits)

lemma up_reach_inv: "up_reach s \<Longrightarrow> up_inv s"
  by (induction rule: up_reach.induct) (auto intro: up_inv_init up_inv_step)

section \<open>What a call returns\<close>

lemma cached_build:
  assumes "up_inv s" "u_cached (s_dialer s) = Some d" "u_cachedKey (s_dialer s) = upstreamCacheKey p" "plain_params p"
  shows "d = build p"
  using assms by (auto simp: up_inv_def cache_key_inject)

text \<open>The settings a call works with: those of its first step.\<close>

definition call_params :: "up_sys \<Rightarrow> nat \<Rightarrow> params" where
  "call_params s t = (case s_waiting s t of Some (k, p) \<Rightarrow> p | None \<Rightarrow> u_params (s_dialer s))"

lemma returned_dialer:
  assumes "up_inv s" "up_step s (Returned t d) s'"
  shows "custom_set (s_dialer s) d \<or> d = build (call_params s t)"
  using assms(2) unfolding returned_simps
proof (elim disjE exE conjE)
  assume "s_waiting s t = None" "Dialer_read (s_dialer s) = Inl d"
  then show ?thesis
    using assms(1) cached_build [OF assms(1), of d "u_params (s_dialer s)"]
    by (auto simp: Dialer_read_def Let_def custom_set_def call_params_def up_inv_def split: option.splits if_splits)
next
  fix k p u assume w: "s_waiting s t = Some (k, p)" and d: "Dialer_write k p (s_dialer s) = (d, u)"
  then have "plain_params p" "k = upstreamCacheKey p"
    using assms(1) by (auto simp: up_inv_def)
  then show ?thesis
    using d w cached_build [OF assms(1), of d p]
    by (auto simp: Dialer_write_def Let_def custom_set_def call_params_def split: option.splits if_splits)
qed

inductive up_run :: "up_sys \<Rightarrow> up_event list \<Rightarrow> up_sys \<Rightarrow> bool" where
  stopped: "up_run s [] s"
| more: "up_step s e s' \<Longrightarrow> up_run s' es s'' \<Longrightarrow> up_run s (e # es) s''"

inductive_simps up_run_Cons: "up_run s (e # es) s''"
inductive_simps up_run_Nil: "up_run s [] s''"

primrec changes :: "up_event \<Rightarrow> bool" where
  "changes (Updated p) = True" | "changes (CustomSet d) = True"
| "changes (Missed t) = False" | "changes (Returned t d) = False"

text \<open>While nobody changes the settings, no custom dialer appears and a new call works with them.\<close>

definition settled :: "params \<Rightarrow> nat \<Rightarrow> up_sys \<Rightarrow> bool" where
  "settled p t s \<longleftrightarrow> up_inv s \<and> u_params (s_dialer s) = p \<and> call_params s t = p \<and> (\<forall>d. \<not> custom_set (s_dialer s) d)"

lemma settled_step: "settled p t s \<Longrightarrow> up_step s e s' \<Longrightarrow> \<not> changes e \<Longrightarrow> settled p t s'"
proof (unfold settled_def, elim conjE, intro conjI)
  assume "up_inv s" "up_step s e s'" then show "up_inv s'" by (rule up_inv_step)
next
  assume p: "u_params (s_dialer s) = p" "call_params s t = p" and s: "up_step s e s'" and e: "\<not> changes e"
  from s e show q: "u_params (s_dialer s') = p"
    using p(1) by (elim up_step_cases) (auto simp: Dialer_write_def Let_def split: option.splits if_splits)
  from s e show "call_params s' t = p"
    using p q by (elim up_step_cases) (auto simp: call_params_def Dialer_read_def Let_def split: option.splits if_splits)
next
  assume c: "\<forall>d. \<not> custom_set (s_dialer s) d" and i: "up_inv s" and s: "up_step s e s'" and e: "\<not> changes e"
  from s e show "\<forall>d. \<not> custom_set (s_dialer s') d"
  proof (elim up_step_cases)
    fix u k q d t
    assume "s_waiting s t = Some (k, q)" "Dialer_write k q (s_dialer s) = (d, u)"
      "s' = \<lparr>s_dialer = u, s_waiting = (s_waiting s)(t := None)\<rparr>"
    moreover from this(1) i have "k = upstreamCacheKey q"
      by (simp add: up_inv_def)
    ultimately show ?thesis
      using c by (auto simp: Dialer_write_def Let_def custom_set_def split: option.splits if_splits)
  qed (use c in auto)
qed

lemma settled_returns:
  "up_run s es s' \<Longrightarrow> settled p t s \<Longrightarrow> \<forall>e\<in>set es. \<not> changes e \<Longrightarrow> Returned t d \<in> set es \<Longrightarrow> d = build p"
proof (induction rule: up_run.induct)
  case (more s e s' es s'')
  have "settled p t s'"
    using settled_step [OF more.prems(1) more.hyps(1)] more.prems(2) by simp
  moreover have "e = Returned t d \<Longrightarrow> d = build p"
    using returned_dialer [of s t d s'] more.prems(1) more.hyps(1) by (auto simp: settled_def)
  ultimately show ?case
    using more.IH more.prems by auto
qed simp

text \<open>C10. New settings take effect at once: whatever calls of \<open>Dialer()\<close> are still in flight with
  the old ones, and however they interleave, a call that begins after \<open>Update\<close> returns the dialer
  built from the new type, address and credentials.\<close>

theorem update_takes_effect:
  assumes "up_reach s" "up_step s (Updated p) s1" "s_waiting s t = None"
    and "up_run s1 es s2" "\<forall>e\<in>set es. \<not> changes e" "Returned t d \<in> set es"
  shows "d = build p"
proof -
  have "up_inv s1"
    using assms up_reach_inv up_inv_step by blast
  moreover have "s1 = s\<lparr>s_dialer := Update (p_type p) (p_addr p) (p_user p) (p_pass p) (s_dialer s)\<rparr>"
    using assms(2) by (auto elim: up_step_cases)
  ultimately have "settled p t s1"
    using assms(3) by (simp add: settled_def Update_def call_params_def custom_set_def)
  with assms show ?thesis
    using settled_returns by blast
qed

text \<open>A call with the old password is overtaken by an update; the next call gets the new one.\<close>

definition old_params :: params where
  "old_params = \<lparr>p_type = ''socks5'', p_addr = ''10.0.0.1:1080'', p_user = ''u'', p_pass = ''old''\<rparr>"

definition new_params :: params where
  "new_params = old_params\<lparr>p_pass := ''new''\<rparr>"

lemma update_takes_effect_witness:
  "\<exists>s1 s2 d. up_run s1 [Returned 1 (build old_params), Missed 2, Returned 2 d] s2 \<and>
     d = build new_params \<and> build old_params \<noteq> build new_params"
proof -
  let ?start = "up_init old_params"
  let ?ko = "upstreamCacheKey old_params" and ?kn = "upstreamCacheKey new_params"
  let ?s = "?start\<lparr>s_waiting := [1 \<mapsto> (?ko, old_params)]\<rparr>"
  let ?upd = "?s\<lparr>s_dialer := Update (p_type new_params) (p_addr new_params) (p_user new_params) (p_pass new_params) (s_dialer ?s)\<rparr>"
  let ?u = "(s_dialer ?upd)\<lparr>u_cached := Some (build old_params), u_cachedKey := ?ko\<rparr>"
  let ?stale = "\<lparr>s_dialer = ?u, s_waiting = (s_waiting ?upd)(1 := None)\<rparr>"
  let ?miss = "?stale\<lparr>s_waiting := (s_waiting ?stale)(2 \<mapsto> (?kn, new_params))\<rparr>"
  let ?final = "\<lparr>s_dialer = ?u\<lparr>u_cached := Some (build new_params), u_cachedKey := ?kn\<rparr>, s_waiting = (s_waiting ?miss)(2 := None)\<rparr>"
  have plain: "plain_params old_params" "plain_params new_params"
    by (simp_all add: plain_params_def old_params_def new_params_def)
  have ne: "?ko \<noteq> ?kn" "?kn \<noteq> ?ko"
    using cache_key_inject [OF plain] by (auto simp: new_params_def old_params_def)
  have "up_step ?start (Missed 1) (?start\<lparr>s_waiting := (s_waiting ?start)(1 \<mapsto> (?ko, old_params))\<rparr>)"
    by (rule up_step.miss [where kp = "(?ko, old_params)" and t = 1])
      (simp_all add: up_init_def NewUpstreamDialer_def Dialer_read_def)
  then have "up_step ?start (Missed 1) ?s"
    by (simp only: up_init_def up_sys.simps)
  then have reach: "up_reach ?s"
    using up_reach.step up_reach.init [OF plain(1)] by blast
  have upd: "up_step ?s (Updated new_params) ?upd"
    by (rule up_step.update [OF plain(2)])
  have u: "u_params (Update (p_type q) (p_addr q) (p_user q) (p_pass q) x) = q"
    "u_cached (Update (p_type q) (p_addr q) (p_user q) (p_pass q) x) = None" for q x
    by (simp_all add: Update_def)
  have 1: "up_step ?upd (Returned 1 (build old_params)) ?stale"
    by (rule up_step.built [of _ _ ?ko old_params]) (simp_all add: Dialer_write_def u Let_def)
  have 2: "up_step ?stale (Missed 2) ?miss"
    by (rule up_step.miss) (simp_all add: Dialer_read_def u Let_def ne up_init_def)
  have 3: "up_step ?miss (Returned 2 (build new_params)) ?final"
    by (rule up_step.built [of _ _ ?kn new_params]) (simp_all add: Dialer_write_def Let_def ne)
  have run: "up_run ?upd [Returned 1 (build old_params), Missed 2, Returned 2 (build new_params)] ?final"
    using 1 2 3 by (blast intro: up_run.intros)
  have "build new_params = build new_params"
    by (rule update_takes_effect [OF reach upd _ run, of 2]) simp_all
  moreover have "build old_params \<noteq> build new_params"
    by (simp add: build_def old_params_def new_params_def)
  ultimately show ?thesis
    by (intro exI conjI) (rule run, assumption, assumption)
qed

end
