(* ===== verification/TProxy.thy ===== *)
theory TProxy
  imports Sni ConnTrack Config Upstream
begin

text \<open>
  \<open>tproxy.go\<close> and the connection statistics of \<open>engine.go\<close>: what the proxy does with a hijacked
  connection. \<open>handleConn\<close> returns its actions in order, deferred ones included; what the peers and
  the network do are fields of \<open>conn_env\<close>. Reading the ClientHello works on the bytes the client sends
  within the deadline.
\<close>

section \<open>Statistics\<close>

record Stats =
  st_PID :: int
  st_Connections :: int
  st_active :: "string \<rightharpoonup> string"

text \<open>The map's values hold the target of the connection \<open>cid\<close>.\<close>

definition AddActiveConn :: "string \<Rightarrow> string \<Rightarrow> Stats \<Rightarrow> Stats" where
  "AddActiveConn cid target s =
     (let s' = (if st_active s cid = None then s\<lparr>st_Connections := st_Connections s + 1\<rparr> else s)
      in s'\<lparr>st_active := (st_active s)(cid \<mapsto> target)\<rparr>)"

definition RemoveActiveConn :: "string \<Rightarrow> Stats \<Rightarrow> Stats" where
  "RemoveActiveConn cid s = (if st_active s cid \<noteq> None
     then s\<lparr>st_active := (st_active s)(cid := None),
            st_Connections := (if 0 < st_Connections s then st_Connections s - 1 else st_Connections s)\<rparr>
     else s)"

section \<open>Relay buffers\<close>

text \<open>A byte slice of the pool is its length and capacity; \<open>pick\<close> is the pooled slice that \<open>Get\<close> returns, if any.\<close>

record relay_buffer =
  rb_len :: nat
  rb_cap :: nat

definition defaultRelayBufferSize :: nat where "defaultRelayBufferSize = 64 * 1024"

definition pool_get :: "nat option \<Rightarrow> relay_buffer list \<Rightarrow> relay_buffer \<times> relay_buffer list" where
  "pool_get pick pool = (case pick of
       Some i \<Rightarrow> if i < length pool then (pool ! i, take i pool @ drop (Suc i) pool)
         else (\<lparr>rb_len = defaultRelayBufferSize, rb_cap = defaultRelayBufferSize\<rparr>, pool)
     | None \<Rightarrow> (\<lparr>rb_len = defaultRelayBufferSize, rb_cap = defaultRelayBufferSize\<rparr>, pool))"

definition getRelayBuffer :: "nat option \<Rightarrow> int \<Rightarrow> relay_buffer list \<Rightarrow> (relay_buffer \<times> relay_buffer list) option" where
  "getRelayBuffer pick sz pool =
     (let n = nat (ClampBufferSize sz) in
      if n \<le> defaultRelayBufferSize
      then (let (b, pool) = pool_get pick pool in if n \<le> rb_cap b then Some (b\<lparr>rb_len := n\<rparr>, pool) else None)
      else Some (\<lparr>rb_len = n, rb_cap = n\<rparr>, pool))"

definition putRelayBuffer :: "relay_buffer \<Rightarrow> relay_buffer list \<Rightarrow> relay_buffer list" where
  "putRelayBuffer b pool =
     (if rb_cap b = defaultRelayBufferSize then b\<lparr>rb_len := defaultRelayBufferSize\<rparr> # pool else pool)"

datatype copy_error = EOF | OtherError

record relayResult =
  rr_n :: nat
  rr_err :: "copy_error option"

text \<open>
  \<open>relay\<close>: the outcome of \<open>io.CopyBuffer\<close> is given; the second result says whether the write side
  of \<open>dst\<close> was shut down.
\<close>

definition relay :: "nat option \<Rightarrow> int \<Rightarrow> relayResult \<Rightarrow> bool \<Rightarrow> relay_buffer list \<Rightarrow>
    (relayResult \<times> bool \<times> relay_buffer list) option" where
  "relay pick sz copied dst_is_tcp pool = do {
     (buf, pool) \<leftarrow> getRelayBuffer pick sz pool;
     let closed = ((rr_err copied = None \<or> rr_err copied = Some EOF) \<and> dst_is_tcp);
     Some (copied, closed, putRelayBuffer buf pool) }"

section \<open>Where the connection wants to go\<close>

datatype target_error = InvalidIP | InvalidPort

definition originalTarget :: "IP \<Rightarrow> u16 \<Rightarrow> target_error + string" where
  "originalTarget ip port =
     (if ip = [] \<or> IsUnspecified ip then Inl InvalidIP
      else if port = 0 then Inl InvalidPort
      else Inr (JoinHostPort (IP_String ip) (Itoa (uint port))))"

datatype hello_error = ShortHeader | NotTLS | BadRecordLength | ShortRecord | NoSNI sni_error

text \<open>The bytes read, the host name or an error, and the bytes left in the stream.\<close>

definition readTLSClientHello :: "byte list \<Rightarrow> (byte list \<times> (hello_error + byte list) \<times> byte list) option" where
  "readTLSClientHello stream =
     (let hdr = take 5 stream; rest = drop 5 stream in
      if length hdr < 5 then Some (hdr, Inl ShortHeader, rest)
      else do {
        t \<leftarrow> idx hdr 0;
        if t \<noteq> 22 then Some (hdr, Inl NotTLS, rest)
        else do {
          hi \<leftarrow> idx hdr 3; lo \<leftarrow> idx hdr 4;
          let recordLen = 256 * unat hi + unat lo;
          if recordLen \<le> 0 \<or> 16384 < recordLen then Some (hdr, Inl BadRecordLength, rest)
          else
            let body = take recordLen rest; all = hdr @ body; rest = drop recordLen rest in
            if length body < recordLen then Some (all, Inl ShortRecord, rest)
            else do {
              r \<leftarrow> ExtractSNI all;
              Some (all, case r of Inl e \<Rightarrow> Inl (NoSNI e) | Inr sni \<Rightarrow> Inr sni, rest) }}})"

section \<open>The proxy\<close>

record TProxy =
  tp_upstream :: UpstreamDialer
  tp_bufferSize :: int
  tp_has_stats :: bool

definition NewTProxy :: "(string \<Rightarrow> bool) \<Rightarrow> string \<Rightarrow> string \<Rightarrow> string \<Rightarrow> string \<Rightarrow> bool \<Rightarrow> PerformanceConfig \<Rightarrow> int \<Rightarrow> TProxy option" where
  "NewTProxy listen_ok proxyType proxyAddr proxyUser proxyPass stats perf port =
     (if \<not> listen_ok (''0.0.0.0:'' @ Itoa port) then None
      else Some \<lparr>tp_upstream = NewUpstreamDialer proxyType proxyAddr proxyUser proxyPass,
                 tp_bufferSize = ClampBufferSize (BufferSize perf), tp_has_stats = stats\<rparr>)"

definition tp_UpdatePerformance :: "PerformanceConfig \<Rightarrow> TProxy \<Rightarrow> TProxy" where
  "tp_UpdatePerformance perf tp = tp\<lparr>tp_bufferSize := ClampBufferSize (BufferSize perf)\<rparr>"

definition tp_UpdateUpstream :: "string \<Rightarrow> string \<Rightarrow> string \<Rightarrow> string \<Rightarrow> TProxy \<Rightarrow> TProxy" where
  "tp_UpdateUpstream t a u p tp = tp\<lparr>tp_upstream := Update t a u p (tp_upstream tp)\<rparr>"

text \<open>\<open>Accept\<close>: its sleeps, the connections it hands over, and whether it has returned.\<close>

datatype accept_result = Accepted nat | Temporary | Fatal

definition next_delay :: "int \<Rightarrow> int" where
  "next_delay d = (let d = (if d = 0 then 5 * millisecond else d * 2) in if second < d then second else d)"

primrec Accept :: "accept_result list \<Rightarrow> int \<Rightarrow> int list \<times> nat list \<times> bool" where
  "Accept [] d = ([], [], False)"
| "Accept (r # rs) d = (case r of
       Accepted c \<Rightarrow> (case Accept rs 0 of (ds, cs, b) \<Rightarrow> (ds, c # cs, b))
     | Temporary \<Rightarrow> (case Accept rs (next_delay d) of (ds, cs, b) \<Rightarrow> (next_delay d # ds, cs, b))
     | Fatal \<Rightarrow> ([], [], True))"

section \<open>One connection\<close>

datatype action =
    Activate string u16 | Release string u16
  | DialUpstream dialer string bool | Tune | Replay "byte list" bool
  | CountIn string string | CountOut string
  | RelayBoth int
  | CloseClient | CloseUpstream

text \<open>
  \<open>ce_remote\<close>: the peer as a TCP address; \<open>ce_stream\<close>: what it sends before the deadline; \<open>ce_dial\<close>:
  whether a
  dialer connects to a target; the errors of the two relays in the order they end.
\<close>

record conn_env =
  ce_remote :: "(IP \<times> nat) option"
  ce_stream :: "byte list"
  ce_dial :: "dialer \<Rightarrow> string \<Rightarrow> bool"
  ce_replay_ok :: bool
  ce_first_err :: bool
  ce_second_err :: bool

definition bytes_string :: "byte list \<Rightarrow> string" where
  "bytes_string = map (\<lambda>b. char_of (unat b))"

text \<open>The bytes to replay and the address to dial.\<close>

definition sniff :: "conn_env \<Rightarrow> u16 \<Rightarrow> string \<Rightarrow> (byte list \<times> string) option" where
  "sniff env port addr =
     (if port = 443 then do {
        (data, r, rest) \<leftarrow> readTLSClientHello (ce_stream env);
        Some (if data \<noteq> []
              then (data, case r of Inr sni \<Rightarrow> if sni \<noteq> [] then JoinHostPort (bytes_string sni) (Itoa (uint port)) else addr
                          | Inl _ \<Rightarrow> addr)
              else ([], addr)) }
      else Some ([], addr))"

text \<open>Behind a successful replay: counting, both relays, and the early closes when one of them fails.\<close>

definition relay_actions :: "conn_env \<Rightarrow> TProxy \<Rightarrow> string \<Rightarrow> string \<Rightarrow> action list" where
  "relay_actions env tp cid addr =
     (if tp_has_stats tp then [CountIn cid addr] else [])
     @ [RelayBoth (tp_bufferSize tp)]
     @ (if ce_first_err env \<or> ce_second_err env then [CloseClient, CloseUpstream] else [])
     @ (if tp_has_stats tp then [CountOut cid] else [])"

definition serve :: "conn_env \<Rightarrow> TProxy \<Rightarrow> string \<Rightarrow> byte list \<Rightarrow> string \<Rightarrow> action list" where
  "serve env tp cid peek addr =
     (let d = fst (Dialer (tp_upstream tp)) in
      if \<not> ce_dial env d addr then [DialUpstream d addr False]
      else [DialUpstream d addr True, Tune]
        @ (if peek \<noteq> [] then [Replay peek (ce_replay_ok env)] else [])
        @ (if peek \<noteq> [] \<and> \<not> ce_replay_ok env then [] else relay_actions env tp cid addr)
        @ [CloseUpstream])"

definition handleConn :: "conn_env \<Rightarrow> TProxy \<Rightarrow> ConnTracker \<Rightarrow> action list option" where
  "handleConn env tp ct = (case ce_remote env of None \<Rightarrow> Some [CloseClient]
     | Some (ip, port) \<Rightarrow>
        (let srcIP = IP_String ip; srcPort = of_nat port :: u16 in
         case ct_Get srcIP srcPort ct of None \<Rightarrow> Some [CloseClient]
         | Some target \<Rightarrow>
            (case originalTarget (OrigDstIP target) (OrigDstPort target) of
               Inl _ \<Rightarrow> Some [Activate srcIP srcPort, Release srcIP srcPort, CloseClient]
             | Inr addr \<Rightarrow> do {
                 (peek, addr) \<leftarrow> sniff env (OrigDstPort target) addr;
                 Some (Activate srcIP srcPort # serve env tp (srcIP @ '':'' @ Itoa (uint srcPort)) peek addr
                       @ [Release srcIP srcPort, CloseClient]) })))"

section \<open>What the actions do\<close>

record conn_state =
  cs_tracker :: ConnTracker
  cs_stats :: Stats
  cs_client :: bool
  cs_upstream :: bool

primrec effect :: "action \<Rightarrow> conn_state \<Rightarrow> conn_state" where
  "effect (Activate ip port) s = s\<lparr>cs_tracker := ct_Activate ip port (cs_tracker s)\<rparr>"
| "effect (Release ip port) s = s\<lparr>cs_tracker := ct_Delete ip port (cs_tracker s)\<rparr>"
| "effect (DialUpstream d addr ok) s = s\<lparr>cs_upstream := ok\<rparr>"
| "effect Tune s = s"
| "effect (Replay b ok) s = s"
| "effect (CountIn cid target) s = s\<lparr>cs_stats := AddActiveConn cid target (cs_stats s)\<rparr>"
| "effect (CountOut cid) s = s\<lparr>cs_stats := RemoveActiveConn cid (cs_stats s)\<rparr>"
| "effect (RelayBoth n) s = s"
| "effect CloseClient s = s\<lparr>cs_client := False\<rparr>"
| "effect CloseUpstream s = s\<lparr>cs_upstream := False\<rparr>"

definition run_actions :: "action list \<Rightarrow> conn_state \<Rightarrow> conn_state" where
  "run_actions acts s = foldl (\<lambda>s a. effect a s) s acts"

section \<open>Reading the ClientHello\<close>

definition good_hello :: "byte list \<Rightarrow> byte list \<times> (hello_error + byte list) \<times> byte list \<Rightarrow> bool" where
  "good_hello stream = (\<lambda>(data, r, rest). data @ rest = stream \<and> (stream \<noteq> [] \<longrightarrow> data \<noteq> []) \<and>
     length data \<le> 5 + 16384 \<and>
     (case r of Inl _ \<Rightarrow> True | Inr sni \<Rightarrow> sni \<noteq> [] \<and> sublist sni data))"

lemma readTLSClientHello_runs: "runs (good_hello stream) (readTLSClientHello stream)"
proof (cases "length stream < 5")
  case True
  then show ?thesis
    by (auto simp: readTLSClientHello_def good_hello_def runs_def)
next
  case False
  let ?hdr = "take 5 stream" and ?rest = "drop 5 stream"
  let ?n = "256 * unat (stream ! 3) + unat (stream ! 4)"
  have unfolded: "readTLSClientHello stream =
      (if stream ! 0 \<noteq> 22 then Some (?hdr, Inl NotTLS, ?rest)
       else if ?n \<le> 0 \<or> 16384 < ?n then Some (?hdr, Inl BadRecordLength, ?rest)
       else if length (take ?n ?rest) < ?n then Some (?hdr @ take ?n ?rest, Inl ShortRecord, drop ?n ?rest)
       else Option.bind (ExtractSNI (?hdr @ take ?n ?rest))
         (\<lambda>r. Some (?hdr @ take ?n ?rest, case r of Inl e \<Rightarrow> Inl (NoSNI e) | Inr sni \<Rightarrow> Inr sni, drop ?n ?rest)))"
    using False unfolding readTLSClientHello_def by (simp add: Let_def idx_def)
  have "(?hdr @ take ?n ?rest) @ drop ?n ?rest = stream"
    by (simp only: append_assoc append_take_drop_id)
  moreover have "stream \<noteq> []" "?hdr \<noteq> []"
    using False by auto
  ultimately have app: "(?hdr @ take ?n ?rest) @ drop ?n ?rest = stream" "stream \<noteq> []" "?hdr \<noteq> []" .
  obtain r where r: "ExtractSNI (?hdr @ take ?n ?rest) = Some r" "good_result (?hdr @ take ?n ?rest) r"
    using ExtractSNI_runs [of "?hdr @ take ?n ?rest"] by (auto simp: runs_def)
  have "good_hello stream (?hdr @ take ?n ?rest, q, drop ?n ?rest)"
    if "?n \<le> 16384" "q = Inl e \<or> (q = Inr sni \<and> sni \<noteq> [] \<and> sublist sni (?hdr @ take ?n ?rest))" for q e sni
    using that app by (auto simp: good_hello_def)
  moreover have "good_hello stream (?hdr, Inl e, ?rest)" for e
    using app by (simp add: good_hello_def)
  ultimately show ?thesis
    unfolding unfolded using r by (auto simp: runs_def good_result_def split: sum.splits)
qed

lemma readTLSClientHello_record:
  assumes "256 * unat hi + unat lo = n" "length body = n" "0 < n" "n \<le> 16384"
    and "ExtractSNI ([22, a, b, hi, lo] @ body) = Some (Inr sni)"
  shows "readTLSClientHello ([22, a, b, hi, lo] @ body @ trailing) = Some ([22, a, b, hi, lo] @ body, Inr sni, trailing)"
proof -
  have "\<not> (unat hi = 0 \<and> unat lo = 0)"
    using assms(1,3) by auto
  with assms show ?thesis
    by (auto simp: readTLSClientHello_def idx_def Let_def)
qed

lemma readTLSClientHello_hello:
  assumes "length start = 34" "length sid < 256" "length suites < 65536" "length comps < 256"
    and "host \<noteq> []" "\<forall>(t, body) \<in> set before. t \<noteq> 0 \<and> length body < 65536"
    and "exts = hello_exts before host after"
    and "length (hello_message start sid suites comps exts) + 4 \<le> 16384"
  shows "readTLSClientHello (client_hello start sid suites comps exts @ trailing) =
    Some (client_hello start sid suites comps exts, Inr host, trailing)"
proof -
  let ?msg = "hello_message start sid suites comps exts"
  let ?n = "4 + length ?msg"
  let ?body = "[1] @ enc24 (length ?msg) @ ?msg"
  have hello: "client_hello start sid suites comps exts = [22, 3, 1] @ enc16 ?n @ ?body"
    by (simp add: client_hello_def Let_def)
  let ?w = "of_nat ?n :: u16"
  have w: "unat ?w = ?n"
    using assms(8) by (intro unat_of_nat16) simp
  have n: "256 * unat (hi8 ?w) + unat (lo8 ?w) = ?n"
    using unat_word16 [of "hi8 ?w" "lo8 ?w"] w by simp
  have len: "length ?body = ?n"
    by (simp add: enc24_def)
  have sni: "ExtractSNI (client_hello start sid suites comps exts @ []) = Some (Inr host)"
    using assms by (intro ExtractSNI_hello) simp_all
  have all: "[22, 3, 1, hi8 ?w, lo8 ?w] @ ?body = client_hello start sid suites comps exts"
    unfolding hello enc16_def by simp
  obtain body where body: "body = ?body" by blast
  have "readTLSClientHello ([22, 3, 1, hi8 ?w, lo8 ?w] @ body @ trailing) =
      Some ([22, 3, 1, hi8 ?w, lo8 ?w] @ body, Inr host, trailing)"
  proof (rule readTLSClientHello_record [OF n])
    show "ExtractSNI ([22, 3, 1, hi8 ?w, lo8 ?w] @ body) = Some (Inr host)"
      using sni by (simp only: body all append_Nil2)
  qed (use body len assms(8) in simp_all)
  then show ?thesis
    using all unfolding body [symmetric] by (metis append_assoc)
qed

section \<open>What a connection leaves behind\<close>

definition conn_key :: "IP \<Rightarrow> nat \<Rightarrow> ConnKey" where
  "conn_key ip port = \<lparr>ck_SrcIP = IP_String ip, ck_SrcPort = of_nat port\<rparr>"

definition conn_id :: "IP \<Rightarrow> nat \<Rightarrow> string" where
  "conn_id ip port = IP_String ip @ '':'' @ Itoa (uint (of_nat port :: u16))"

lemma Remove_Add: "st_active s cid = None \<Longrightarrow> 0 \<le> st_Connections s \<Longrightarrow> RemoveActiveConn cid (AddActiveConn cid t s) = s"
  by (cases s) (auto simp: RemoveActiveConn_def AddActiveConn_def Let_def fun_upd_idem)

lemma run_actions_simps [simp]:
  "run_actions [] s = s" "run_actions (a # as) s = run_actions as (effect a s)"
  "run_actions (as @ bs) s = run_actions bs (run_actions as s)"
  by (simp_all add: run_actions_def)

lemma relay_run:
  assumes "st_active (cs_stats s) cid = None" "0 \<le> st_Connections (cs_stats s)"
  shows "\<exists>c u. run_actions (relay_actions env tp cid addr) s = s\<lparr>cs_client := c, cs_upstream := u\<rparr>"
proof -
  let ?e = "ce_first_err env \<or> ce_second_err env"
  have "run_actions (relay_actions env tp cid addr) s =
      s\<lparr>cs_client := (if ?e then False else cs_client s), cs_upstream := (if ?e then False else cs_upstream s)\<rparr>"
    using Remove_Add [OF assms] by (cases "tp_has_stats tp"; cases ?e) (simp_all add: relay_actions_def)
  then show ?thesis by blast
qed

lemma serve_run:
  assumes "st_active (cs_stats s) cid = None" "0 \<le> st_Connections (cs_stats s)" "\<not> cs_upstream s"
  shows "\<exists>c. run_actions (serve env tp cid peek addr) s = s\<lparr>cs_client := c\<rparr>"
proof -
  have id: "s\<lparr>cs_upstream := False\<rparr> = s"
    using assms(3) by simp
  let ?d = "fst (Dialer (tp_upstream tp))"
  obtain c u where r: "run_actions (relay_actions env tp cid addr) (s\<lparr>cs_upstream := True\<rparr>) =
      s\<lparr>cs_client := c, cs_upstream := u\<rparr>"
    using relay_run [of "s\<lparr>cs_upstream := True\<rparr>" cid env tp addr] assms by auto
  consider "\<not> ce_dial env ?d addr" | "ce_dial env ?d addr" "peek \<noteq> []" "\<not> ce_replay_ok env"
    | "ce_dial env ?d addr" "peek = [] \<or> ce_replay_ok env" by blast
  then have "run_actions (serve env tp cid peek addr) s = s\<lparr>cs_client := cs_client s, cs_upstream := False\<rparr> \<or>
      run_actions (serve env tp cid peek addr) s = s\<lparr>cs_client := c, cs_upstream := False\<rparr>"
    by cases (auto simp: serve_def Let_def r)
  then show ?thesis
    using id by (metis (no_types, lifting) conn_state.update_convs(3,4) conn_state.surjective)
qed

lemma Release_Activate_entries:
  "ct_entries (ct_Delete ip port (ct_Activate ip port ct)) = (ct_entries ct)(\<lparr>ck_SrcIP = ip, ck_SrcPort = port\<rparr> := None)"
  by (auto simp: ct_Delete_def ct_Activate_def drop_entry_def Let_def split: option.splits)

text \<open>Sniffing always ends, and its address and bytes are the code's.\<close>

lemma sniff_runs: "runs (\<lambda>(peek, addr). port = 443 \<or> peek = []) (sniff env port addr0)"
proof (cases "port = 443")
  case True
  obtain r where "readTLSClientHello (ce_stream env) = Some r"
    using readTLSClientHello_runs [of "ce_stream env"] by (auto simp: runs_def)
  with True show ?thesis
    by (cases r) (simp add: sniff_def runs_def)
qed (simp add: sniff_def runs_def)

lemma handleConn_leased:
  assumes "ce_remote env = Some (ip, port)" "ct_entries ct (conn_key ip port) = Some target"
  obtains acts where
    "handleConn env tp ct = Some (Activate (IP_String ip) (of_nat port) # acts @ [Release (IP_String ip) (of_nat port), CloseClient])"
    "acts = [] \<or> (\<exists>peek addr. acts = serve env tp (conn_id ip port) peek addr)"
proof (cases "originalTarget (OrigDstIP target) (OrigDstPort target)")
  case (Inl e)
  with assms show ?thesis
    by (intro that [of "[]"]) (simp_all add: handleConn_def ct_Get_def conn_key_def Let_def)
next
  case (Inr addr)
  obtain peek addr' where "sniff env (OrigDstPort target) addr = Some (peek, addr')"
    using sniff_runs [of "OrigDstPort target" env addr] by (auto simp: runs_def)
  with Inr assms show ?thesis
    by (intro that [of "serve env tp (conn_id ip port) peek addr'"])
      (auto simp: handleConn_def ct_Get_def conn_key_def conn_id_def Let_def)
qed

section \<open>Properties\<close>

text \<open>C25. Sniffing loses no byte of the client: whatever it sends, \<open>readTLSClientHello\<close> returns without
  a panic, what it read followed by what is left is what was sent, it reads at most one record of
  16 KiB, and reads nothing only from an empty stream; a host name it reports lies in what it read.\<close>

theorem sniffing_loses_nothing:
  "\<exists>data r rest. readTLSClientHello stream = Some (data, r, rest) \<and> data @ rest = stream \<and>
     length data \<le> 5 + 16384 \<and> (data = [] \<longleftrightarrow> stream = []) \<and>
     (case r of Inl _ \<Rightarrow> True | Inr sni \<Rightarrow> sni \<noteq> [] \<and> sublist sni data)"
  using readTLSClientHello_runs [of stream] by (auto simp: runs_def good_hello_def)

text \<open>C16. A hijacked TLS connection goes to its host name: when the client opens with a ClientHello
  that names a host, \<open>handleConn\<close> asks the current upstream dialer for that name and port 443, not for
  the intercepted address; if it connects, replays exactly the ClientHello first; if that succeeds,
  counts the connection under its own address and with that target for exactly as long as it relays; and closes both sides and
  gives the lease back.\<close>

theorem tls_connection_dials_host:
  assumes "ce_remote env = Some (ip, port)" "ct_entries ct (conn_key ip port) = Some target"
    and "OrigDstPort target = 443" "OrigDstIP target \<noteq> []" "\<not> IsUnspecified (OrigDstIP target)"
    and "hello = client_hello start sid suites comps exts" "exts = hello_exts before host after"
    and "ce_stream env = hello @ trailing" "length hello \<le> 5 + 16384"
    and "length start = 34" "length sid < 256" "length suites < 65536" "length comps < 256"
    and "host \<noteq> []" "\<forall>(t, body) \<in> set before. t \<noteq> 0 \<and> length body < 65536"
    and "d = fst (Dialer (tp_upstream tp))" "addr = JoinHostPort (bytes_string host) ''443''"
    and "cid = IP_String ip @ '':'' @ Itoa (uint (of_nat port :: u16))"
  shows "handleConn env tp ct = Some ([Activate (IP_String ip) (of_nat port), DialUpstream d addr (ce_dial env d addr)] @
    (if ce_dial env d addr
     then [Tune, Replay hello (ce_replay_ok env)] @
       (if ce_replay_ok env
        then (if tp_has_stats tp then [CountIn cid addr] else []) @ [RelayBoth (tp_bufferSize tp)] @
          (if ce_first_err env \<or> ce_second_err env then [CloseClient, CloseUpstream] else []) @
          (if tp_has_stats tp then [CountOut cid] else [])
        else []) @ [CloseUpstream]
     else []) @ [Release (IP_String ip) (of_nat port), CloseClient])"
proof -
  have "length (hello_message start sid suites comps exts) + 4 \<le> 16384"
    using assms(6,9) by (simp add: client_hello_def Let_def enc24_def)
  then have read: "readTLSClientHello (ce_stream env) = Some (hello, Inr host, trailing)"
    using assms by (simp add: readTLSClientHello_hello)
  have port: "Itoa 443 = ''443''"
    by code_simp
  have ne: "hello \<noteq> []"
    using assms(6) by (simp add: client_hello_def Let_def)
  have "sniff env 443 a = Some (hello, addr)" for a
    using read assms(14,17) ne by (simp add: sniff_def port)
  with assms ne show ?thesis
    by (simp add: handleConn_def ct_Get_def conn_key_def originalTarget_def serve_def relay_actions_def Let_def)
qed

lemma tls_connection_dials_host_witness:
  "let host = map (\<lambda>c. of_char c) ''a.b'';
       hello = client_hello (replicate 34 3) [7] [0x13, 1] [0] (hello_exts [] host []);
       env = \<lparr>ce_remote = Some (IPv4 127 0 0 1, 32768), ce_stream = hello @ [9], ce_dial = \<lambda>_ _. True,
              ce_replay_ok = True, ce_first_err = False, ce_second_err = False\<rparr>;
       tp = \<lparr>tp_upstream = NewUpstreamDialer ''socks5'' ''10.0.0.1:1080'' [] [], tp_bufferSize = 65536, tp_has_stats = True\<rparr>;
       ct = fst (ct_Set 0 (IPv4 10 0 0 5) 50000 (IPv4 1 2 3 4) 443 3 0 (NewConnTracker 15 30 7893))
   in handleConn env tp ct = Some [Activate ''127.0.0.1'' 32768,
        DialUpstream (Socks5Dialer ''10.0.0.1:1080'' None) ''a.b:443'' True, Tune, Replay hello True,
        CountIn (''127.0.0.1:'' @ Itoa 32768) ''a.b:443'', RelayBoth 65536, CountOut (''127.0.0.1:'' @ Itoa 32768), CloseUpstream,
        Release ''127.0.0.1'' 32768, CloseClient]"
proof -
  let ?host = "map (\<lambda>c. of_char c) ''a.b'' :: byte list"
  let ?hello = "client_hello (replicate 34 3) [7] [0x13, 1] [0] (hello_exts [] ?host [])"
  define hello where "hello = ?hello"
  let ?env = "\<lparr>ce_remote = Some (IPv4 127 0 0 1, 32768), ce_stream = hello @ [9], ce_dial = \<lambda>_ _. True,
      ce_replay_ok = True, ce_first_err = False, ce_second_err = False\<rparr>"
  let ?tp = "\<lparr>tp_upstream = NewUpstreamDialer ''socks5'' ''10.0.0.1:1080'' [] [], tp_bufferSize = 65536, tp_has_stats = True\<rparr>"
  let ?ct = "fst (ct_Set 0 (IPv4 10 0 0 5) 50000 (IPv4 1 2 3 4) 443 3 0 (NewConnTracker 15 30 7893))"
  let ?target = "\<lparr>OrigSrcIP = IPv4 10 0 0 5, OrigSrcPort = 50000, OrigDstIP = IPv4 1 2 3 4, OrigDstPort = 443,
      OrigIfIdx = 3, OrigSubIfIdx = 0, CreatedAt = 0\<rparr>"
  have key: "conn_key (IPv4 127 0 0 1) 32768 = loopback_key 32768"
    by (simp add: conn_key_def loopback_key_def)
  have d: "fst (Dialer (tp_upstream ?tp)) = Socks5Dialer ''10.0.0.1:1080'' None"
    by (simp add: Dialer_def Dialer_read_def Dialer_write_def NewUpstreamDialer_def build_def Let_def)
  have a: "JoinHostPort (bytes_string ?host) ''443'' = ''a.b:443''"
    by code_simp
  have len: "length hello \<le> 5 + 16384"
    by (simp add: hello_def client_hello_def hello_message_def hello_exts_def server_name_ext_def tls_ext_def Let_def enc24_def)
  have entry: "ct_entries ?ct (conn_key (IPv4 127 0 0 1) 32768) = Some ?target"
    unfolding key first_state(2) by simp
  have port: "IP_String (IPv4 127 0 0 1) = ''127.0.0.1''"
    by code_simp
  have cast: "of_nat 32768 = (32768 :: u16)" "uint (32768 :: u16) = 32768"
    by simp_all
  have v4: "IPv4 1 2 3 4 \<noteq> []" "\<not> IsUnspecified (IPv4 1 2 3 4)"
    by code_simp+
  then have remote: "OrigDstIP ?target \<noteq> []" "\<not> IsUnspecified (OrigDstIP ?target)"
    by simp_all
  have env: "ce_remote ?env = Some (IPv4 127 0 0 1, 32768)" "ce_stream ?env = hello @ [9]" "ce_dial ?env x y" "ce_replay_ok ?env"
    "\<not> ce_first_err ?env" "\<not> ce_second_err ?env" "OrigDstPort ?target = 443"
    "tp_bufferSize ?tp = 65536" "tp_has_stats ?tp" for x y
    by simp_all
  have fits: "length (replicate 34 (3 :: byte)) = 34" "length [7 :: byte] < 256" "length [0x13 :: byte, 1] < 65536" "length [0 :: byte] < 256"
    "?host \<noteq> []" "\<forall>(t :: u16, body :: byte list) \<in> set []. t \<noteq> 0 \<and> length body < 65536"
    by simp_all
  note dials = tls_connection_dials_host [OF env(1) entry env(7) remote hello_def refl env(2) len
      fits d [symmetric] a [symmetric] refl]
  have "handleConn ?env ?tp ?ct = Some [Activate ''127.0.0.1'' 32768,
        DialUpstream (Socks5Dialer ''10.0.0.1:1080'' None) ''a.b:443'' True, Tune, Replay hello True,
        CountIn (''127.0.0.1:'' @ Itoa 32768) ''a.b:443'', RelayBoth 65536, CountOut (''127.0.0.1:'' @ Itoa 32768), CloseUpstream,
        Release ''127.0.0.1'' 32768, CloseClient]"
    unfolding dials port cast by simp
  then show ?thesis
    unfolding Let_def hello_def .
qed

text \<open>C11. Every connection cleans up after itself, whatever goes wrong on the way: \<open>handleConn\<close> never
  panics, and when it is done the client's and the upstream's connection are closed, the statistics
  are those from before, and the tracker's entry of the connection is gone, and no other.\<close>

theorem connection_released:
  assumes "cs_tracker s = ct" "\<not> cs_upstream s" "0 \<le> st_Connections (cs_stats s)"
    and "ce_remote env = Some (ip, port)" "st_active (cs_stats s) (conn_id ip port) = None"
  shows "\<exists>acts. handleConn env tp ct = Some acts \<and>
    (let s' = run_actions acts s in \<not> cs_client s' \<and> \<not> cs_upstream s' \<and> cs_stats s' = cs_stats s \<and>
       ct_entries (cs_tracker s') = (ct_entries ct)(conn_key ip port := None))"
proof (cases "ct_entries ct (conn_key ip port)")
  case None
  then have "handleConn env tp ct = Some [CloseClient]"
    using assms by (simp add: handleConn_def ct_Get_def conn_key_def Let_def)
  then show ?thesis
    using assms None by (simp add: Let_def fun_upd_idem)
next
  case (Some target)
  obtain acts where acts: "handleConn env tp ct = Some (Activate (IP_String ip) (of_nat port) # acts @ [Release (IP_String ip) (of_nat port), CloseClient])"
    "acts = [] \<or> (\<exists>peek addr. acts = serve env tp (conn_id ip port) peek addr)"
    using handleConn_leased [OF assms(4) Some] by blast
  let ?t = "s\<lparr>cs_tracker := ct_Activate (IP_String ip) (of_nat port) ct\<rparr>"
  have "\<exists>c. run_actions acts ?t = ?t\<lparr>cs_client := c\<rparr>"
    using acts(2)
  proof
    assume "acts = []"
    then show ?thesis by (intro exI [of _ "cs_client s"]) simp
  next
    assume "\<exists>peek addr. acts = serve env tp (conn_id ip port) peek addr"
    then obtain peek addr where "acts = serve env tp (conn_id ip port) peek addr" by blast
    then show ?thesis
      using serve_run [of ?t "conn_id ip port" env tp peek addr] assms by simp
  qed
  then show ?thesis
    using acts(1) assms by (auto simp: Let_def Release_Activate_entries conn_key_def)
qed

definition idle_stats :: Stats where
  "idle_stats = \<lparr>st_PID = 1, st_Connections = 0, st_active = Map.empty\<rparr>"

lemma connection_released_witness:
  "let ct = fst (ct_Set 0 (IPv4 10 0 0 5) 50000 (IPv4 1 2 3 4) 443 3 0 (NewConnTracker 15 30 7893));
       env = \<lparr>ce_remote = Some (IPv4 127 0 0 1, 32768), ce_stream = [1, 2], ce_dial = \<lambda>_ _. True,
         ce_replay_ok = True, ce_first_err = True, ce_second_err = False\<rparr>;
       tp = \<lparr>tp_upstream = NewUpstreamDialer ''socks5'' ''10.0.0.1:1080'' [] [], tp_bufferSize = 65536, tp_has_stats = True\<rparr>;
       s = \<lparr>cs_tracker = ct, cs_stats = idle_stats, cs_client = True, cs_upstream = False\<rparr>
   in ct_entries ct \<noteq> Map.empty \<and>
      (\<exists>acts. handleConn env tp ct = Some acts \<and> ct_entries (cs_tracker (run_actions acts s)) = Map.empty \<and>
         \<not> cs_client (run_actions acts s))"
proof -
  let ?ct = "fst (ct_Set 0 (IPv4 10 0 0 5) 50000 (IPv4 1 2 3 4) 443 3 0 (NewConnTracker 15 30 7893))"
  let ?env = "\<lparr>ce_remote = Some (IPv4 127 0 0 1, 32768), ce_stream = [1, 2], ce_dial = \<lambda>_ _. True,
     ce_replay_ok = True, ce_first_err = True, ce_second_err = False\<rparr>"
  let ?s = "\<lparr>cs_tracker = ?ct, cs_stats = idle_stats, cs_client = True, cs_upstream = False\<rparr>"
  have key: "conn_key (IPv4 127 0 0 1) 32768 = loopback_key 32768"
    by (simp add: conn_key_def loopback_key_def)
  have "cs_tracker ?s = ?ct" "\<not> cs_upstream ?s" "0 \<le> st_Connections (cs_stats ?s)"
    "ce_remote ?env = Some (IPv4 127 0 0 1, 32768)" "st_active (cs_stats ?s) (conn_id (IPv4 127 0 0 1) 32768) = None"
    by (simp_all add: idle_stats_def)
  note released = connection_released [OF this, of "\<lparr>tp_upstream = NewUpstreamDialer ''socks5'' ''10.0.0.1:1080'' [] [],
      tp_bufferSize = 65536, tp_has_stats = True\<rparr>"]
  have "ct_entries ?ct (loopback_key 32768) \<noteq> None" "(ct_entries ?ct)(loopback_key 32768 := None) = Map.empty"
    unfolding first_state(2) by (simp_all add: fun_eq_iff)
  then show ?thesis
    using released unfolding key Let_def by auto
qed

section \<open>Bounds of the loop and the pool\<close>

lemma next_delay_bounds: "d = 0 \<or> 5 * millisecond \<le> d \<Longrightarrow> 5 * millisecond \<le> next_delay d \<and> next_delay d \<le> second"
  by (auto simp: next_delay_def)

text \<open>\<open>Accept\<close> sleeps between 5 ms and a second after a temporary error, and hands over every
  connection before the first lasting error.\<close>

lemma Accept_delays:
  "d = 0 \<or> 5 * millisecond \<le> d \<Longrightarrow> x \<in> set (fst (Accept rs d)) \<Longrightarrow> 5 * millisecond \<le> x \<and> x \<le> second"
proof (induction rs arbitrary: d)
  case (Cons r rs)
  then show ?case
    using next_delay_bounds [OF Cons.prems(1)] Cons.IH [of 0] Cons.IH [of "next_delay d"]
    by (cases r) (force split: prod.splits)+
qed simp

lemma Accept_hands_over:
  "fst (snd (Accept rs d)) = [c. Accepted c \<leftarrow> takeWhile (\<lambda>r. r \<noteq> Fatal) rs]"
proof (induction rs arbitrary: d)
  case (Cons r rs)
  show ?case
    using Cons.IH [of 0] Cons.IH [of "next_delay d"] by (cases r) (auto split: prod.splits)
qed simp

definition pool_ok :: "relay_buffer list \<Rightarrow> bool" where
  "pool_ok pool \<longleftrightarrow> (\<forall>b\<in>set pool. rb_cap b = defaultRelayBufferSize \<and> rb_len b = defaultRelayBufferSize)"

lemma relay_pool:
  assumes "pool_ok pool"
  shows "runs (\<lambda>(r, closed, pool'). r = copied \<and> pool_ok pool') (relay pick sz copied tcp pool)"
proof -
  have "pool_ok (snd (pool_get pick pool)) \<and> rb_cap (fst (pool_get pick pool)) = defaultRelayBufferSize"
    using assms by (auto simp: pool_get_def pool_ok_def split: option.split dest: in_set_takeD in_set_dropD)
  then obtain b pool' where "pool_get pick pool = (b, pool')" "pool_ok pool'" "rb_cap b = defaultRelayBufferSize"
    by (cases "pool_get pick pool") auto
  then show ?thesis
    using assms by (auto simp: relay_def getRelayBuffer_def putRelayBuffer_def runs_def pool_ok_def Let_def)
qed

end
