(* ===== verification/System.thy ===== *)
theory System
  imports Routing TProxy
begin

text \<open>
  The data path as a whole: the interceptor and the connections the proxy serves share one tracker.
  A step of the system is a packet, a step of a connection from its look-up to the end of its
  lease, a tick of a background goroutine or a change of settings, in any order. The theorems follow
  a lease from the packet that takes it to the end of the connection that uses it.
\<close>

section \<open>What a packet does to the tracker\<close>

abbreviation tracker_of :: "world \<Rightarrow> ConnTracker" where
  "tracker_of w \<equiv> ic_tracker (w_ic w)"

type_synonym tracker_op = "(ConnTarget, u16, time \<times> ConnKey list) share_op"

abbreviation tracker_step :: "tracker_op \<Rightarrow> ConnTracker \<Rightarrow> ConnTracker" where
  "tracker_step \<equiv> share_step ct_reserve ct_release ct_use ct_collect"

definition v4_target :: "ConnTarget \<Rightarrow> bool" where
  "v4_target t \<longleftrightarrow> To4 (OrigSrcIP t) \<noteq> None \<and> To4 (OrigDstIP t) \<noteq> None"

text \<open>The packet belongs to the flow of a lease: its addresses, and its ports behind its IPv4 header.\<close>

definition header_len :: "byte list \<Rightarrow> nat \<Rightarrow> bool" where
  "header_len pkt ihl \<longleftrightarrow> (\<exists>b. idx pkt 0 = Some b \<and> ihl = unat (b AND 0x0f) * 4)"

definition carries :: "byte list \<Rightarrow> ConnTarget \<Rightarrow> bool" where
  "carries pkt t \<longleftrightarrow> (\<exists>e addr ihl src dst sp dp. t = wanted e addr src dst sp dp \<and> header_len pkt ihl \<and>
     quad_at pkt 12 = Some src \<and> quad_at pkt 16 = Some dst \<and> be16_at pkt ihl = Some sp \<and> be16_at pkt (ihl + 2) = Some dp)"

text \<open>
  The driver may refuse a rewritten packet: the handle is closed, or it cannot compute the checksums.
\<close>

definition checks_work :: "packet_env \<Rightarrow> bool" where
  "checks_work e \<longleftrightarrow> (\<forall>p a. p \<noteq> [] \<longrightarrow> drv_calc (ev_driver e) p a \<noteq> None)"

definition refuses :: "packet_env \<Rightarrow> world \<Rightarrow> bool" where
  "refuses e w \<longleftrightarrow> \<not> (checks_work e \<and> ic_handle (w_ic w))"

text \<open>
  A packet does one of three things to the tracker: nothing; it takes a lease for its own flow; or it takes it and, because it
  cannot be sent, gives it back.
\<close>

definition takes :: "packet_env \<Rightarrow> byte list \<Rightarrow> world \<Rightarrow> world \<Rightarrow> bool" where
  "takes e pkt w w' \<longleftrightarrow> (\<exists>ops. tracker_of w' = fold tracker_step ops (tracker_of w) \<and>
     (ops = [] \<or> (\<exists>t. carries pkt t \<and> (ops = [Take t] \<or>
        refuses e w \<and> (\<exists>p. snd (ct_reserve t (tracker_of w)) = Some p \<and> ops = [Take t, Give p])))))"

definition same :: "world \<Rightarrow> world \<Rightarrow> bool" where
  "same w0 w \<longleftrightarrow> io w = io w0 \<and> tracker_of w = tracker_of w0"

lemma takes_same: "tracker_of w' = tracker_of w \<Longrightarrow> takes e pkt w w'"
  unfolding takes_def by (rule exI [of _ "[]"]) simp

lemma v4_wanted [simp]: "v4_target (wanted e addr src dst sp dp)"
  by (simp add: v4_target_def wanted_def)

lemma v4_carried: "carries pkt t \<Longrightarrow> v4_target t"
  by (auto simp: carries_def)

lemma carriesI:
  "header_len pkt ihl \<Longrightarrow> quad_at pkt 12 = Some src \<Longrightarrow> quad_at pkt 16 = Some dst \<Longrightarrow> be16_at pkt ihl = Some sp \<Longrightarrow>
   be16_at pkt (ihl + 2) = Some dp \<Longrightarrow> carries pkt (wanted e addr src dst sp dp)"
  unfolding carries_def by blast

lemma takes_one: "carries pkt t \<Longrightarrow> tracker_of w' = fst (ct_reserve t (tracker_of w)) \<Longrightarrow> takes e pkt w w'"
  unfolding takes_def by (rule exI [of _ "[Take t]"]) auto

lemma takes_back_again:
  "carries pkt t \<Longrightarrow> refuses e w \<Longrightarrow> ct_reserve t (tracker_of w) = (tracker, Some p) \<Longrightarrow>
   tracker_of w' = ct_Delete ''127.0.0.1'' p tracker \<Longrightarrow> takes e pkt w w'"
  unfolding takes_def by (rule exI [of _ "[Take t, Give p]"]) (auto simp: ct_release_def)

lemma same_refl [simp]: "same w w"
  by (simp add: same_def)

lemma same_on_ic [simp]: "(\<And>i. status (f i) = status i) \<Longrightarrow> (\<And>i. ic_tracker (f i) = ic_tracker i) \<Longrightarrow> same w0 (on_ic f w) \<longleftrightarrow> same w0 w"
  by (simp add: same_def)

lemma same_ic [simp]: "keeps (w_ic w) i \<Longrightarrow> same w0 (w\<lparr>w_ic := i\<rparr>) \<longleftrightarrow> same w0 w"
  by (simp add: same_def io_def keeps_def)

lemma takes_on_ic [simp]: "(\<And>i. ic_tracker (f i) = ic_tracker i) \<Longrightarrow> takes e pkt w (on_ic f w') \<longleftrightarrow> takes e pkt w w'"
  by (simp add: takes_def)

lemma sendPass_takes:
  assumes "same w0 w" "room pkt w0"
  shows "runs (takes e pkt w0) (sendPass e' pkt addr w)"
proof -
  obtain q where q: "w_q w = Some q" "length (sq_buf q) + length pkt \<le> sq_cap q"
    using assms by (auto simp: room_def same_def io_def)
  show ?thesis
    using assms(1) by (simp add: sendPass_room [OF q] runs_def takes_same same_def)
qed

lemma takes_none: "same w0 w \<Longrightarrow> takes e pkt w0 w"
  by (simp add: takes_same same_def)

lemma calcAndSend_takes: "same w0 w \<Longrightarrow> takes e pkt w0 (snd (calcAndSend e' p a w))"
  by (rule takes_same) (simp add: calcAndSend_ic same_def)

lemma hijackWithPort_takes:
  assumes "same w0 w" "20 \<le> ihl" "ihl + 4 \<le> length pkt"
  shows "runs (takes e pkt w0) (hijackWithPort e' pkt addr mp tp ihl w)"
  using rewriteHijack_tuple [OF assms(2,3)] calcAndSend_takes [OF assms(1)]
  by (simp add: hijackWithPort_def runs_def)

text \<open>With a queue, only a refusal fails.\<close>

lemma calcAndSend_refused:
  assumes "w_q w = Some q" "p \<noteq> []" "fst (calcAndSend e p a w) \<noteq> None"
  shows "refuses e w"
proof (cases "drv_calc (ev_driver e) p a")
  case None
  with assms(2) have "\<not> checks_work e" unfolding checks_work_def by blast
  then show ?thesis by (simp add: refuses_def)
next
  case (Some r)
  with assms have "\<not> ic_handle (w_ic w)"
    by (cases r) (auto simp: calcAndSend_def CalcChecksums_def split: if_splits)
  then show ?thesis by (simp add: refuses_def)
qed

lemma hijackTCP_takes:
  assumes "same w0 w" "room pkt w0" "20 \<le> ihl" "ihl + 4 \<le> length pkt" "carries pkt (wanted e addr src dst sp dp)"
  shows "runs (\<lambda>(m, w'). takes e pkt w0 w') (hijackTCP e pkt addr (ip4 src) (ip4 dst) sp dp ihl w)"
proof -
  obtain tracker r where s: "ct_reserve (wanted e addr src dst sp dp) (tracker_of w0) = (tracker, r)" by fastforce
  then have s': "ct_reserve (wanted e addr src dst sp dp) (tracker_of w) = (tracker, r)"
    using assms(1) by (simp add: same_def)
  obtain w1 where w1: "w1 = on_ic (ic_tracker_update (\<lambda>_. tracker)) w" by simp
  obtain q where q: "w_q w1 = Some q" "length (sq_buf q) + length pkt \<le> sq_cap q" and h: "ic_handle (w_ic w1) = ic_handle (w_ic w0)"
    using assms(1,2) by (auto simp: room_def same_def io_def status_def w1)
  have took: "takes e pkt w0 x" if "w_ic x = w_ic w1" for x
    using s that by (intro takes_one [OF assms(5)]) (simp add: w1)
  show ?thesis
  proof (cases r)
    case None
    then show ?thesis
      using s' took by (simp add: hijackTCP_def ct_Set_reserve wanted_def w1 [symmetric] sendPass_room [OF q] runs_def)
  next
    case (Some m)
    obtain p a where p: "rewriteHijack pkt addr ihl m (ic_tproxyPort (w_ic w1)) = Some (p, a)"
      using rewriteHijack_tuple [OF assms(3,4)] by simp
    have ne: "p \<noteq> []"
      using length_rewriteHijack [OF p] assms(3,4) by auto
    obtain err w2 where c: "calcAndSend e p a w1 = (err, w2)" by fastforce
    have ic: "w_ic w2 = w_ic w1"
      using calcAndSend_ic [of e p a w1] c by simp
    show ?thesis
    proof (cases err)
      case None
      then show ?thesis
        using s' Some c p took [OF ic] by (simp add: hijackTCP_def ct_Set_reserve wanted_def w1 [symmetric] runs_def)
    next
      case err: (Some x)
      have "refuses e w0"
        using calcAndSend_refused [OF q(1) ne, of e a] c err h by (simp add: refuses_def)
      moreover have "tracker_of w2 = tracker" by (simp add: ic w1)
      ultimately have "takes e pkt w0 (on_ic (ic_tracker_update (ct_Delete ''127.0.0.1'' m)) w2)"
        using s Some by (intro takes_back_again [OF assms(5)]) simp_all
      then show ?thesis
        using s' Some c p err by (simp add: hijackTCP_def ct_Set_reserve wanted_def w1 [symmetric] runs_def)
    qed
  qed
qed

lemma hijack_flow_takes:
  assumes "same w0 w" "room pkt w0" "20 \<le> ihl" "ihl + 4 \<le> length pkt" "carries pkt (wanted e addr src dst sp dp)"
  shows "runs (takes e pkt w0) (hijack_flow e pkt addr ihl key src dst sp dp w)"
  unfolding hijack_flow_def
  by (rule runs_bind [OF hijackTCP_takes [OF assms]]) (auto intro!: runs_Some)

lemma reverseNAT_takes:
  assumes "same w0 w" "room pkt w0" "20 \<le> ihl" "ihl + 4 \<le> length pkt"
  shows "runs (takes e pkt w0) (reverseNAT e' pkt addr ihl w)"
proof -
  have reply: "runs (takes e pkt w0) (do { (p, a) \<leftarrow> rewriteReply pkt addr ihl t; Some (snd (calcAndSend e' p a w)) })" for t
  proof -
    obtain p a where "rewriteReply pkt addr ihl t = Some (p, a)"
      using rewriteReply_runs [OF assms(3,4), of addr t] by (auto simp: runs_def)
    then show ?thesis
      using calcAndSend_takes [OF assms(1)] by (simp add: runs_def)
  qed
  show ?thesis
    unfolding reverseNAT_def Let_def
    using assms reply by (auto intro!: go_runs sendPass_takes split: option.split)
qed

lemma new_flow4_takes:
  assumes "same w0 w" "room pkt w0" "env_ok e" "20 \<le> ihl" "ihl + 4 \<le> length pkt"
    and "carries pkt (wanted e addr src dst (fl_LocalPort flow) (fl_RemotePort flow))"
  shows "runs (takes e pkt w0) (new_flow4 e pkt addr ihl key flow src dst flags w)"
proof -
  have ok: "os_ok (ev_os e)" using assms(3) by (simp add: env_ok_def)
  show ?thesis
    unfolding new_flow4_def Let_def
    by (auto simp: assms intro!: go_runs sendPass_takes hijack_flow_takes
        runs_bind [OF decideNewFlow_runs [OF lookupName_runs [OF ok]]])
qed

lemma new_flow6_takes:
  assumes "same w0 w" "room pkt w0" "env_ok e"
  shows "runs (takes e pkt w0) (new_flow6 e pkt addr key flags w)"
proof -
  have ok: "os_ok (ev_os e)" using assms(3) by (simp add: env_ok_def)
  show ?thesis
    unfolding new_flow6_def Let_def
    by (auto simp: assms intro!: go_runs sendPass_takes takes_none
        runs_bind [OF decideNewFlow_runs [OF lookupName6_runs [OF ok]]])
qed

lemma handleIPv4TCP_takes:
  assumes "room pkt w" "env_ok e" "20 \<le> ihl" "header_len pkt ihl"
  shows "runs (takes e pkt w) (handleIPv4TCP e pkt addr ihl w)"
proof (cases "length pkt < ihl + 20")
  case True
  then show ?thesis
    using sendPass_takes [OF same_refl assms(1)] by (simp add: handleIPv4TCP_def)
next
  case False
  have len: "ihl + 4 \<le> length pkt" using False by simp
  note steps = reverseNAT_takes [OF _ assms(1,3) len] sendPass_takes [OF _ assms(1)]
    new_flow4_takes [OF _ assms(1,2,3) len] hijackWithPort_takes [OF _ assms(3) len]
    hijack_flow_takes [OF _ assms(1,3) len] carriesI [OF assms(4)]
  show ?thesis
    unfolding handleIPv4TCP_def Let_def
    using False assms(3) by (auto intro!: go_runs steps split: option.split)
qed

lemma handleIPv4UDP_takes:
  assumes "room pkt w" "env_ok e" "20 \<le> ihl"
  shows "runs (takes e pkt w) (handleIPv4UDP e pkt addr ihl w)"
proof -
  have ok: "os_ok (ev_os e)" using assms(2) by (simp add: env_ok_def)
  show ?thesis
    unfolding handleIPv4UDP_def Let_def
    using assms(3)
    by (auto intro!: go_runs runs_bind [OF LookupUDPWithRefresh_runs [OF ok]] sendPass_takes [OF _ assms(1)] takes_none)
qed

lemma handleIPv6TCP_takes:
  assumes "room pkt w" "env_ok e"
  shows "runs (takes e pkt w) (handleIPv6TCP e pkt addr w)"
  unfolding handleIPv6TCP_def Let_def
  by (auto intro!: go_runs new_flow6_takes [OF _ assms] sendPass_takes [OF _ assms(1)] takes_none split: option.split)

lemma handleIPv6UDP_takes:
  assumes "room pkt w" "env_ok e"
  shows "runs (takes e pkt w) (handleIPv6UDP e pkt addr w)"
proof -
  have ok: "os_ok (ev_os e)" using assms(2) by (simp add: env_ok_def)
  have look: "runs (keeps (w_ic w)) (if LookupIPv6UDP f (ic_udp6 (w_ic w)) = None then refresh_udp6 e (w_ic w) else Some (w_ic w))" for f
    using refresh_udp6_runs [OF ok, of "w_ic w"] by (simp add: runs_Some)
  show ?thesis
    unfolding handleIPv6UDP_def Let_def
    by (auto intro!: go_runs runs_bind [OF look] sendPass_takes [OF _ assms(1)] takes_none)
qed

lemma handlePacket_takes:
  assumes "room pkt w" "env_ok e"
  shows "runs (takes e pkt w) (handlePacket e pkt addr w)"
proof -
  have hdr: "header_len pkt (unat (b AND 0x0f) * 4)" if "idx pkt 0 = Some b" for b
    using that by (auto simp: header_len_def)
  show ?thesis
    unfolding handlePacket_def handleIPv6_def Let_def
    using assms(1)
    by (auto intro!: go_runs takes_none [OF same_refl] handleIPv4TCP_takes [OF assms] handleIPv4UDP_takes [OF assms]
        handleIPv6TCP_takes [OF assms] handleIPv6UDP_takes [OF assms] sendPass_takes [OF same_refl assms(1)] hdr)
qed

section \<open>The system\<close>

text \<open>
  A connection that the proxy has accepted: the port of the loopback it comes from, what \<open>Get\<close> returned, and whether
  the lease has been activated yet; then also what the tracker held at that moment. \<open>Get\<close> and
  \<open>Activate\<close> take the tracker's lock separately. The TCP stack accepts no second connection from a
  port while the first is open. It is closed after \<open>Delete\<close> at the latest, but earlier when the relay fails (\<open>tproxy.go\<close> closes
  it before the deferred \<open>Delete\<close>), when both directions have ended, or when the peer resets it: \<open>cn_open\<close> tells.
\<close>

datatype phase = Looked | Serving "ConnTarget option"

record connection =
  cn_port :: u16
  cn_target :: ConnTarget
  cn_phase :: phase
  cn_open :: bool

record system =
  sy_world :: world
  sy_conns :: "nat \<rightharpoonup> connection"

definition on_tracker :: "(ConnTracker \<Rightarrow> ConnTracker) \<Rightarrow> system \<Rightarrow> system" where
  "on_tracker f s = s\<lparr>sy_world := on_ic (ic_tracker_update f) (sy_world s)\<rparr>"

definition set_conn :: "nat \<Rightarrow> connection option \<Rightarrow> system \<Rightarrow> system" where
  "set_conn c k s = s\<lparr>sy_conns := (sy_conns s)(c := k)\<rparr>"

abbreviation sys_tracker :: "system \<Rightarrow> ConnTracker" where
  "sys_tracker s \<equiv> tracker_of (sy_world s)"

text \<open>
  What can happen. \<open>Hangup\<close> closes a connection's socket, \<open>Finish\<close> is its \<open>Delete\<close>; \<open>StopInterceptor\<close> and
  \<open>StopTracker\<close> are the calls of \<open>Engine.Stop\<close>, in which packets of the batch in hand may still be handled.
\<close>

datatype sys_event = Handle packet_env "byte list" winDivertAddress | Flush | Look nat | Serve nat | Hangup nat | Finish nat
  | Tick | Sweep | Settings | Reread | StopInterceptor | StopTracker

inductive sys_step :: "system \<Rightarrow> sys_event \<Rightarrow> system \<Rightarrow> bool" where
  packet: "room pkt (sy_world s) \<Longrightarrow> env_ok e \<Longrightarrow> handlePacket e pkt addr (sy_world s) = Some w \<Longrightarrow>
    sys_step s (Handle e pkt addr) (s\<lparr>sy_world := w\<rparr>)"
| flush: "flushQueue e (sy_world s) = Some w \<Longrightarrow> sys_step s Flush (s\<lparr>sy_world := w\<rparr>)"
| look: "sy_conns s c = None \<Longrightarrow> (\<And>c' k. sy_conns s c' = Some k \<Longrightarrow> cn_port k = m \<Longrightarrow> \<not> cn_open k) \<Longrightarrow>
    ct_Get ''127.0.0.1'' m (sys_tracker s) = Some g \<Longrightarrow>
    sys_step s (Look c) (set_conn c (Some \<lparr>cn_port = m, cn_target = g, cn_phase = Looked, cn_open = True\<rparr>) s)"
| use: "sy_conns s c = Some k \<Longrightarrow> cn_phase k = Looked \<Longrightarrow>
    sys_step s (Serve c) (set_conn c (Some (k\<lparr>cn_phase := Serving (ct_lookup (sys_tracker s) (cn_port k))\<rparr>))
      (on_tracker (ct_Activate ''127.0.0.1'' (cn_port k)) s))"
| hangup: "sy_conns s c = Some k \<Longrightarrow> sys_step s (Hangup c) (set_conn c (Some (k\<lparr>cn_open := False\<rparr>)) s)"
| finish: "sy_conns s c = Some k \<Longrightarrow> cn_phase k = Serving h \<Longrightarrow>
    sys_step s (Finish c) (set_conn c None (on_tracker (ct_Delete ''127.0.0.1'' (cn_port k)) s))"
| collect: "sys_step s Tick (on_tracker (gc_tick now ks) s)"
| sweep: "sys_step s Sweep (s\<lparr>sy_world := on_ic (ic_policies_update (fp_sweep now (Some (sys_tracker s)) ks)) (sy_world s)\<rparr>)"
| names: "sys_step s Settings (s\<lparr>sy_world := on_ic (SetWhitelist ns) (sy_world s)\<rparr>)"
| upstream: "sys_step s Settings (s\<lparr>sy_world := on_ic (SetProxyAddr ip port) (sy_world s)\<rparr>)"
| refresh: "os_ok (ev_os e) \<Longrightarrow> refresh_tick e (w_ic (sy_world s)) = Some i \<Longrightarrow>
    sys_step s Reread (s\<lparr>sy_world := (sy_world s)\<lparr>w_ic := i\<rparr>\<rparr>)"
| stop: "sys_step s StopInterceptor (s\<lparr>sy_world := on_ic Close (sy_world s)\<rparr>)"
| stop_tracker: "sys_step s StopTracker (on_tracker ct_Close s)"

inductive_cases sys_step_cases: "sys_step s a s'"
inductive_cases serve_step: "sys_step s (Serve c) s'"

abbreviation sys_moves :: "system \<Rightarrow> system \<Rightarrow> bool" where
  "sys_moves s s' \<equiv> \<exists>a. sys_step s a s'"

inductive sys_reach :: "system \<Rightarrow> bool" where
  start: "tracker_of w = NewConnTracker gcInterval ttl port \<Longrightarrow> sys_reach \<lparr>sy_world = w, sy_conns = Map.empty\<rparr>"
| step: "sys_reach s \<Longrightarrow> sys_step s a s' \<Longrightarrow> sys_reach s'"

lemma on_tracker_simps [simp]:
  "sys_tracker (on_tracker f s) = f (sys_tracker s)" "sy_conns (on_tracker f s) = sy_conns s"
  by (simp_all add: on_tracker_def)

lemma set_conn_simps [simp]:
  "sy_world (set_conn c k s) = sy_world s" "sy_conns (set_conn c k s) = (sy_conns s)(c := k)"
  by (simp_all add: set_conn_def)

section \<open>What a step does to the tracker\<close>

lemma refresh_tick_tracker:
  assumes "refresh_tick e i = Some i'"
  shows "ic_tracker i' = ic_tracker i"
  using assms unfolding refresh_tick_def refresh_tcp6_def refresh_udp6_def
  by (clarsimp simp: bind_eq_Some_conv)

lemma flushQueue_tracker: "flushQueue e w = Some w' \<Longrightarrow> tracker_of w' = tracker_of w"
  unfolding flushQueue_def by (clarsimp simp: bind_eq_Some_conv split: option.splits if_splits)

lemma Close_tracker: "ic_tracker (Close i) = ic_tracker i"
  by (simp add: Close_def setState_def)

text \<open>
  The events that give a lease back: a \<open>Delete\<close> of a connection from its port, and a refused packet
  of its own flow.
\<close>

definition takes_back :: "u16 \<Rightarrow> system \<Rightarrow> sys_event \<Rightarrow> bool" where
  "takes_back m s a = (case a of
     Finish c \<Rightarrow> (\<exists>k. sy_conns s c = Some k \<and> cn_port k = m)
   | Handle e pkt addr \<Rightarrow> refuses e (sy_world s) \<and>
       (\<exists>t h. carries pkt t \<and> ct_lookup (sys_tracker s) m = Some h \<and> orig_key t = orig_key h)
   | _ \<Rightarrow> False)"

text \<open>
  Up to the tracker's stop flag every step is a sequence of tracker operations. It takes leases for IPv4 flows only,
  uses none but that of a connection it then serves, and gives back none but those of \<open>takes_back\<close>.
\<close>

definition sys_ops :: "system \<Rightarrow> sys_event \<Rightarrow> system \<Rightarrow> tracker_op list \<Rightarrow> bool" where
  "sys_ops s a s' ops \<longleftrightarrow>
     (sys_tracker s' = fold tracker_step ops (sys_tracker s) \<or> ops = [] \<and> sys_tracker s' = ct_Close (sys_tracker s)) \<and>
     (\<forall>t. Take t \<in> set ops \<longrightarrow> v4_target t) \<and>
     (\<forall>p. Use p \<in> set ops \<longrightarrow> ops = [Use p] \<and> (\<exists>c k. sy_conns s' c = Some k \<and> cn_port k = p \<and>
        cn_phase k = Serving (ct_lookup (sys_tracker s) p))) \<and>
     (\<forall>p. Give p \<in> set ops \<longrightarrow> ct_lookup (sys_tracker s) p \<noteq> None \<longrightarrow> takes_back p s a)"

lemma sys_ops_none: "sys_tracker s' = sys_tracker s \<Longrightarrow> sys_ops s a s' []"
  by (simp add: sys_ops_def)

lemma packet_ops:
  assumes "ct_inv (sys_tracker s)" "takes e pkt (sy_world s) w"
  shows "\<exists>ops. sys_ops s (Handle e pkt addr) (s\<lparr>sy_world := w\<rparr>) ops"
proof -
  obtain ops where w: "tracker_of w = fold tracker_step ops (sys_tracker s)" and
    ops: "ops = [] \<or> (\<exists>t. carries pkt t \<and> (ops = [Take t] \<or>
        refuses e (sy_world s) \<and> (\<exists>p. snd (ct_reserve t (sys_tracker s)) = Some p \<and> ops = [Take t, Give p])))"
    using assms(2) by (auto simp: takes_def)
  consider "ops = []" | t where "carries pkt t" "ops = [Take t]"
    | t p where "carries pkt t" "refuses e (sy_world s)" "snd (ct_reserve t (sys_tracker s)) = Some p" "ops = [Take t, Give p]"
    using ops by blast
  then have "sys_ops s (Handle e pkt addr) (s\<lparr>sy_world := w\<rparr>) ops"
  proof cases
    case (3 t p)
    obtain ct' where r: "ct_reserve t (sys_tracker s) = (ct', Some p)"
      using 3(3) by (cases "ct_reserve t (sys_tracker s)") simp
    have "orig_key t = orig_key h" if "ct_lookup (sys_tracker s) p = Some h" for h
      using ct.reserve_leases [OF assms(1) r] ct.reserve_frame [OF assms(1) r that] by auto
    then have "takes_back p s (Handle e pkt addr)" if "ct_lookup (sys_tracker s) p \<noteq> None"
      using that 3(1,2) by (auto simp: takes_back_def)
    then show ?thesis
      using w 3(1,4) v4_carried by (auto simp: sys_ops_def)
  qed (use w v4_carried in \<open>auto simp: sys_ops_def\<close>)
  then show ?thesis ..
qed

lemma sys_step_ops:
  assumes "sys_step s a s'" "ct_inv (sys_tracker s)"
  shows "\<exists>ops. sys_ops s a s' ops"
  using assms(1)
proof cases
  case (packet pkt e addr w)
  then have "takes e pkt (sy_world s) w"
    using handlePacket_takes [of pkt "sy_world s" e addr] by (simp add: runs_def)
  then show ?thesis unfolding packet(1,2) by (rule packet_ops [OF assms(2)])
next
  case (use c k)
  then have "sys_ops s a s' [Use (cn_port k)]"
    by (auto simp: sys_ops_def ct_use_def)
  then show ?thesis ..
next
  case (finish c k h)
  then have "sys_ops s a s' [Give (cn_port k)]"
    by (auto simp: sys_ops_def ct_release_def takes_back_def)
  then show ?thesis ..
next
  case (collect now ks)
  then have "sys_ops s a s' [Collect (now, ks)]"
    by (auto simp: sys_ops_def ct_collect_def)
  then show ?thesis ..
next
  case stop_tracker
  then have "sys_ops s a s' []" by (simp add: sys_ops_def)
  then show ?thesis ..
next
  case (flush e w)
  then show ?thesis by (intro exI [of _ "[]"] sys_ops_none) (simp add: flushQueue_tracker)
next
  case (refresh e i)
  then show ?thesis by (intro exI [of _ "[]"] sys_ops_none) (simp add: refresh_tick_tracker)
qed (intro exI [of _ "[]"] sys_ops_none; simp add: SetWhitelist_def SetProxyAddr_def Close_tracker)+

section \<open>Leases in use\<close>

lemma moves_step: "sys_step s a s' \<Longrightarrow> sys_moves\<^sup>*\<^sup>* s' t \<Longrightarrow> sys_moves\<^sup>*\<^sup>* s t"
  by (rule converse_rtranclp_into_rtranclp) blast+

lemma lookup_Delete: "ct_lookup (ct_Delete ''127.0.0.1'' m ct) m = None"
  by (auto simp: ct_lookup_entries ct_Delete_def drop_entry_def loopback_key_def Let_def split: option.split)

lemma lookup_Close [simp]: "ct_lookup (ct_Close ct) = ct_lookup ct" "ct_used (ct_Close ct) = ct_used ct"
  by (simp_all add: fun_eq_iff ct_lookup_entries ct_used_def ct_Close_def)

lemma used_op:
  assumes "ct_inv ct" "ct_used (tracker_step x ct) p"
  shows "x \<noteq> Give p \<and> (ct_used ct p \<or> x = Use p \<and> ct_lookup ct p \<noteq> None)"
proof (cases x)
  case (Take t)
  then show ?thesis using assms ct_reserve_active [OF assms(1), of t] by (simp add: ct_used_def)
next
  case (Use q)
  then show ?thesis
    using assms(2) by (auto simp: ct_use_def ct_Activate_def ct_used_def ct_lookup_entries loopback_key_def Let_def split: if_splits)
next
  case (Give q)
  then show ?thesis
    using assms(2) by (auto simp: ct_used_def ct_release_active loopback_key_def)
next
  case (Collect c)
  with assms(2) show ?thesis by (simp add: ct_used_def ct_collect_def)
qed

lemma used_ops:
  "ct_inv ct \<Longrightarrow> ct_used (fold tracker_step ops ct) p \<Longrightarrow> ct_used ct p \<or> Use p \<in> set ops"
proof (induction ops arbitrary: ct)
  case (Cons x ops)
  then have "ct_used (tracker_step x ct) p \<or> Use p \<in> set ops"
    using ct_share.inv_share by simp
  then show ?case using used_op [OF Cons.prems(1)] by auto
qed simp

lemma inv_ops: "ct_inv ct \<Longrightarrow> ct_inv (fold tracker_step ops ct)"
  by (induction ops arbitrary: ct) (simp_all add: ct_share.inv_share)

text \<open>Every lease is of an IPv4 flow, and only leases of connections that are being served are in use.\<close>

definition serves :: "system \<Rightarrow> nat \<Rightarrow> u16 \<Rightarrow> bool" where
  "serves s c p \<longleftrightarrow> (\<exists>k h. sy_conns s c = Some k \<and> cn_port k = p \<and> cn_phase k = Serving (Some h))"

definition sys_inv :: "system \<Rightarrow> bool" where
  "sys_inv s \<longleftrightarrow> ct_inv (sys_tracker s) \<and>
     (\<forall>m h. ct_lookup (sys_tracker s) m = Some h \<longrightarrow> v4_target h) \<and>
     (\<forall>p. ct_used (sys_tracker s) p \<longrightarrow> (\<exists>c. serves s c p))"

lemma serves_kept:
  assumes "sys_step s a s'" "serves s c p"
  shows "serves s' c p \<or> a = Finish c \<and> sys_tracker s' = ct_release p (sys_tracker s)"
  using assms(1)
proof cases
  case (look d m g)
  then show ?thesis using assms(2) by (auto simp: serves_def)
next
  case (use d k)
  then show ?thesis using assms(2) by (auto simp: serves_def)
next
  case (hangup d k)
  then show ?thesis using assms(2) by (auto simp: serves_def)
next
  case (finish d k h)
  then show ?thesis using assms(2) by (auto simp: serves_def ct_release_def)
qed (use assms(2) in \<open>simp_all add: serves_def\<close>)

lemma sys_inv_step:
  assumes "sys_step s a s'" "sys_inv s"
  shows "sys_inv s'"
proof -
  have inv: "ct_inv (sys_tracker s)" using assms(2) by (simp add: sys_inv_def)
  obtain ops where "sys_ops s a s' ops" using sys_step_ops [OF assms(1) inv] ..
  then have ops: "sys_tracker s' = fold tracker_step ops (sys_tracker s) \<or> ops = [] \<and> sys_tracker s' = ct_Close (sys_tracker s)"
    "\<And>t. Take t \<in> set ops \<Longrightarrow> v4_target t"
    "\<And>p. Use p \<in> set ops \<Longrightarrow> ops = [Use p] \<and> (\<exists>c k. sy_conns s' c = Some k \<and> cn_port k = p \<and>
        cn_phase k = Serving (ct_lookup (sys_tracker s) p))"
    unfolding sys_ops_def by blast+
  have "ct_inv (sys_tracker s')"
    using ops(1) inv_ops [OF inv] ct_inv_Close [OF inv] by auto
  moreover have "v4_target h" if "ct_lookup (sys_tracker s') m = Some h" for m h
  proof -
    have "ct_lookup (fold tracker_step ops (sys_tracker s)) m = Some h"
      using that ops(1) by auto
    then show ?thesis
      using ct_share.share_all [OF inv, of v4_target ops m h] assms(2) ops(2) by (auto simp: sys_inv_def)
  qed
  moreover have "\<exists>c. serves s' c p" if used: "ct_used (sys_tracker s') p" for p
  proof (cases "Use p \<in> set ops")
    case True
    then have "ops = [Use p]" using ops(3) by blast
    then have "ct_used (tracker_step (Use p) (sys_tracker s)) p" using ops(1) used by auto
    then have "ct_used (sys_tracker s) p \<or> ct_lookup (sys_tracker s) p \<noteq> None"
      using used_op [OF inv] by blast
    moreover have "ct_used (sys_tracker s) p \<Longrightarrow> ct_lookup (sys_tracker s) p \<noteq> None"
      using inv by (auto simp: ct_used_def ct_lookup_entries ct_inv_def)
    ultimately obtain h where "ct_lookup (sys_tracker s) p = Some h" by auto
    moreover obtain c k where "sy_conns s' c = Some k" "cn_port k = p" "cn_phase k = Serving (ct_lookup (sys_tracker s) p)"
      using ops(3) [OF True] by blast
    ultimately have "serves s' c p" by (simp add: serves_def)
    then show ?thesis ..
  next
    case False
    then have "ct_used (sys_tracker s) p"
      using ops(1) used used_ops [OF inv, of ops p] by auto
    then obtain c where "serves s c p" using assms(2) by (auto simp: sys_inv_def)
    moreover have "sys_tracker s' \<noteq> ct_release p (sys_tracker s)"
      using used used_op [OF inv, of "Give p" p] by auto
    ultimately show ?thesis using serves_kept [OF assms(1)] by blast
  qed
  ultimately show ?thesis by (simp add: sys_inv_def)
qed

lemma sys_inv_reach: "sys_reach s \<Longrightarrow> sys_inv s"
proof (induction rule: sys_reach.induct)
  case (start w gc t r)
  have "ct_lookup (NewConnTracker gc t r) m = None" "\<not> ct_used (NewConnTracker gc t r) m" for m
    by (simp_all add: ct_lookup_entries ct_used_def NewConnTracker_def)
  with start show ?case by (simp add: sys_inv_def ct_inv_New)
qed (rule sys_inv_step)

text \<open>A lease in use stands until an event takes it back.\<close>

lemma lease_kept:
  assumes "sys_inv s" "sys_step s a s'" "\<not> takes_back m s a" "ct_lookup (sys_tracker s) m = Some h" "ct_used (sys_tracker s) m"
  shows "ct_lookup (sys_tracker s') m = Some h \<and> ct_used (sys_tracker s') m"
proof -
  have inv: "ct_inv (sys_tracker s)" using assms(1) by (simp add: sys_inv_def)
  obtain ops where ops: "sys_ops s a s' ops" using sys_step_ops [OF assms(2) inv] ..
  then have "Give m \<notin> set ops" using assms(3,4) by (auto simp: sys_ops_def)
  with ops show ?thesis
    using ct_share.used_lease_stands [OF inv assms(4,5)] assms(4,5) by (auto simp: sys_ops_def)
qed

definition undisturbed :: "u16 \<Rightarrow> system \<Rightarrow> system \<Rightarrow> bool" where
  "undisturbed m s s' \<longleftrightarrow> (\<exists>a. sys_step s a s' \<and> \<not> takes_back m s a)"

definition activates :: "system \<Rightarrow> nat \<Rightarrow> u16 \<Rightarrow> ConnTarget \<Rightarrow> system \<Rightarrow> bool" where
  "activates s c m h s' \<longleftrightarrow> sys_step s (Serve c) s' \<and> (\<exists>k. sy_conns s c = Some k \<and> cn_port k = m) \<and>
     ct_lookup (sys_tracker s) m = Some h"

lemma activated_lease:
  assumes "sys_reach s0" "activates s0 c m h s1"
  shows "sys_inv s1 \<and> ct_lookup (sys_tracker s1) m = Some h \<and> ct_used (sys_tracker s1) m"
proof -
  have "sys_inv s1"
    using assms sys_inv_step [OF _ sys_inv_reach] by (auto simp: activates_def)
  moreover have "sys_tracker s1 = tracker_step (Use m) (sys_tracker s0)"
    using assms(2) by (auto simp: activates_def ct_use_def elim: serve_step)
  ultimately show ?thesis
    using assms(2) ct_share.use_used [of "sys_tracker s0" m] ct_share.lookup_use [of m "sys_tracker s0"]
    by (simp add: activates_def)
qed

lemma lease_until_taken_back:
  assumes "sys_reach s0" "activates s0 c m h s1" "(undisturbed m)\<^sup>*\<^sup>* s1 s"
  shows "sys_inv s \<and> ct_lookup (sys_tracker s) m = Some h \<and> ct_used (sys_tracker s) m"
  using assms(3) activated_lease [OF assms(1,2)]
proof (induction rule: rtranclp_induct)
  case (step s s')
  then show ?case
    using lease_kept [of s _ s' m h] sys_inv_step by (auto simp: undisturbed_def)
qed simp

section \<open>What may still go wrong\<close>

text \<open>
  Between \<open>Get\<close> and \<open>Activate\<close> the lease is not yet protected: a collector tick in between can drop it, and the
  connection is then served with nothing in the tracker to lead its replies back.
\<close>

lemma lease_may_expire_before_use:
  assumes "sy_conns s c = Some k" "cn_phase k = Looked" "cn_port k = m"
    and "ct_lookup (sys_tracker s) m = Some h" "ct_expired now (sys_tracker s) (loopback_key m) h"
  obtains s' k' where "sys_moves\<^sup>*\<^sup>* s s'" "sy_conns s' c = Some k'" "cn_phase k' = Serving None"
    "ct_lookup (sys_tracker s') m = None"
proof -
  let ?c = "on_tracker (gc_tick now [loopback_key m]) s"
  have gone: "ct_lookup (gc_tick now [loopback_key m] (sys_tracker s)) m = None"
    using assms(4,5) by (simp only: ct_lookup_entries gc_tick_entries) (simp add: map_keep_def)
  have "sy_conns ?c c = Some k" using assms(1) by simp
  note steps = moves_step [OF collect moves_step [OF use [OF this assms(2)] rtranclp.rtrancl_refl]]
  have "ct_lookup (ct_Activate ''127.0.0.1'' m ct) m = ct_lookup ct m" for ct
    using ct_share.lookup_use [of m ct] by (simp add: ct_use_def)
  then show thesis
    using gone assms(3) by (intro that [OF steps, of "k\<lparr>cn_phase := Serving None\<rparr>"]) (simp_all del: gc_tick.simps)
qed

text \<open>
  The relay closes the client's connection before \<open>handleConn\<close> returns and its deferred \<open>Delete\<close> runs. When the program
  reconnects the same flow in between, the new connection is served under the old lease, and the late \<open>Delete\<close> takes it away.
\<close>

lemma late_delete_takes_lease:
  assumes "sy_conns s c = Some k" "cn_phase k = Serving h" "cn_port k = m" "ct_lookup (sys_tracker s) m = Some g"
    and "sy_conns s d = None" "\<And>c' k'. sy_conns s c' = Some k' \<Longrightarrow> cn_port k' = m \<Longrightarrow> cn_open k' \<Longrightarrow> c' = c"
  obtains s' k' where "sys_moves\<^sup>*\<^sup>* s s'" "sy_conns s' d = Some k'" "cn_open k'" "cn_phase k' = Serving (Some g)"
    "ct_lookup (sys_tracker s') m = None"
proof -
  let ?s1 = "set_conn c (Some (k\<lparr>cn_open := False\<rparr>)) s"
  let ?k = "\<lparr>cn_port = m, cn_target = g, cn_phase = Looked, cn_open = True\<rparr>"
  let ?s2 = "set_conn d (Some ?k) ?s1"
  let ?s3 = "set_conn d (Some (?k\<lparr>cn_phase := Serving (ct_lookup (sys_tracker ?s2) (cn_port ?k))\<rparr>))
    (on_tracker (ct_Activate ''127.0.0.1'' (cn_port ?k)) ?s2)"
  let ?s4 = "set_conn c None (on_tracker (ct_Delete ''127.0.0.1'' m) ?s3)"
  have ne: "c \<noteq> d" using assms(1,5) by auto
  have hung: "sys_step s (Hangup c) ?s1" by (rule hangup [OF assms(1)])
  have looked: "sys_step ?s1 (Look d) ?s2"
    by (rule look) (use ne assms(4-6) in \<open>auto simp: ct_lookup_def split: if_splits\<close>)
  have served: "sys_step ?s2 (Serve d) ?s3" by (rule use) simp_all
  have "sy_conns ?s3 c = Some (k\<lparr>cn_open := False\<rparr>)" "cn_phase (k\<lparr>cn_open := False\<rparr>) = Serving h"
    using ne assms(2) by simp_all
  from finish [OF this] have "sys_step ?s3 (Finish c) ?s4" using assms(3) by simp
  note steps = moves_step [OF hung moves_step [OF looked moves_step [OF served moves_step [OF this rtranclp.rtrancl_refl]]]]
  show thesis
    by (rule that [OF steps, of "?k\<lparr>cn_phase := Serving (Some g)\<rparr>"]) (use ne assms(4) in \<open>simp_all add: lookup_Delete\<close>)
qed

text \<open>A packet of a flow in use that is hijacked anew and refused by the driver takes the flow's lease away.\<close>

lemma refused_hijack_takes_lease:
  assumes "ct_inv (tracker_of w)" "ct_lookup (tracker_of w) m = Some h" "orig_key h = orig_key (wanted e addr src dst sp dp)"
    and "20 \<le> ihl" "ihl + 4 \<le> length pkt" "\<not> ic_handle (w_ic w)"
  shows "\<exists>w'. hijackTCP e pkt addr (ip4 src) (ip4 dst) sp dp ihl w = Some (0, w') \<and> ct_lookup (tracker_of w') m = None"
proof -
  have r: "ct_reserve (wanted e addr src dst sp dp) (tracker_of w) = (tracker_of w, Some m)"
    using ct.reserve_known [OF assms(1,2)] assms(3) by simp
  then show ?thesis
    using r rewriteHijack_tuple [OF assms(4,5)] assms(6) lookup_Delete
    by (simp add: hijackTCP_def ct_Set_reserve flip: wanted_def) (simp add: calcAndSend_def)
qed

section \<open>From the packet to the dial\<close>

lemma handlePacket_tcp4:
  assumes "tcp4_packet ihl pkt src dst sp dp flags" "idx pkt 0 = Some b" "drop_bit 4 b = 4"
    and "ihl = unat (b AND 0x0f) * 4" "idx pkt 9 = Some 6"
  shows "handlePacket e pkt addr w = handleIPv4TCP e pkt addr ihl w"
  using assms unfolding handlePacket_def tcp4_packet_def by (auto simp: Let_def)

lemma ct_reserve_free:
  assumes "ct_inv ct" "in_pool p" "port_free ct p"
  obtains ct' m where "ct_reserve t ct = (ct', Some m)"
proof (cases "ct_orig ct (orig_key t)")
  case None
  obtain ct' r where r: "alloc_loop alloc_attempts t ct = (ct', r)" by fastforce
  moreover have "r \<noteq> None"
    using alloc_fails_iff [OF assms(1), of t] assms(2,3) r by auto
  ultimately show thesis
    using that None by (auto simp: ct_reserve_unfold [OF assms(1)])
qed (auto simp: ct_reserve_unfold [OF assms(1)] intro: that)

lemma CalcChecksums_works:
  assumes "checks_work e" "p \<noteq> []"
  obtains r where "CalcChecksums (ev_driver e) p a = Inr r"
proof -
  have "drv_calc (ev_driver e) p a \<noteq> None" using assms by (simp add: checks_work_def)
  then obtain r where "drv_calc (ev_driver e) p a = Some r" by blast
  with assms(2) that show thesis by (simp add: CalcChecksums_def)
qed

lemma originalTarget_remote:
  assumes "\<not> local4 dst" "dp \<noteq> 0" "To4 ip = Some (bytes4 dst)"
  shows "originalTarget ip dp = Inr (JoinHostPort (IP_String ip) (Itoa (uint dp)))"
proof -
  obtain a b c d where q: "dst = (a, b, c, d)" by (cases dst)
  have "a \<noteq> 0"
    using assms(1) by (auto simp: q local4_def isPrivateOrLocal4_def)
  moreover have t: "To4 ip = Some [a, b, c, d]"
    using assms(3) by (simp add: q bytes4_def)
  moreover have "To4 (replicate 16 (0 :: byte)) = None" "To4 [] = None"
    by code_simp+
  ultimately have "\<not> IsUnspecified ip" "ip \<noteq> []"
    by (auto simp: IsUnspecified_def)
  with assms(2) show ?thesis by (simp add: originalTarget_def)
qed

text \<open>The first packet of a connection of a whitelisted process.\<close>

lemma new_connection_hijacked:
  assumes "tcp4_packet ihl pkt src dst sp dp flags" "isConnectionStart flags" "flags AND (tcpFIN OR tcpRST) = 0"
    and "sp \<noteq> ic_tproxyPort (w_ic w)" "ic_proxy4 (w_ic w) \<noteq> Some dst" "\<not> local4 dst"
    and "fp_Get (key4 src dst sp dp) (ic_policies (w_ic w)) = None"
    and "Lookup \<lparr>fl_LocalIP = u32_of src, fl_LocalPort = sp, fl_RemoteIP = u32_of dst, fl_RemotePort = dp\<rparr>
        (ic_resolver (w_ic w)) = Some entry" "en_Name entry \<noteq> ''''" "isWhitelisted (en_Name entry) (w_ic w)"
  shows "handleIPv4TCP e pkt addr ihl w = hijack_flow e pkt addr ihl (key4 src dst sp dp) src dst sp dp w"
proof -
  have "decideNewFlow (ev_now e) True (lookupName e \<lparr>fl_LocalIP = u32_of src, fl_LocalPort = sp,
      fl_RemoteIP = u32_of dst, fl_RemotePort = dp\<rparr>) (w_ic w) = Some (policyIntercept, w_ic w)"
    using assms(8-) by (simp add: decideNewFlow_def lookupName_def LookupWithRefresh_def)
  then show ?thesis
    using assms(2-7) by (simp add: handleIPv4TCP_packet [OF assms(1)] Let_def new_flow4_def)
qed

lemma hijack_flow_leased:
  assumes "ct_inv (tracker_of w)" "w_q w = Some q" "20 \<le> ihl" "ihl + 4 \<le> length pkt" "ic_handle (w_ic w)" "checks_work e"
    and "in_pool p" "port_free (tracker_of w) p"
  obtains w' m g p' a' where
    "hijack_flow e pkt addr ihl key src dst sp dp w = Some w'" "m \<noteq> 0"
    "fp_Get key (ic_policies (w_ic w')) = Some (policyIntercept, m)"
    "CalcChecksums (ev_driver e) (with_tuple pkt ihl loopbackV4 loopbackV4 m (ic_tproxyPort (w_ic w)))
        (addr\<lparr>wa_Bits := wa_Bits addr OR (flagOutbound OR flagLoopback)\<rparr>) = Inr (p', a')"
    "w_q w' = Some (sq_push p' a' q)"
    "ct_lookup (tracker_of w') m = Some g" "orig_key g = orig_key (wanted e addr src dst sp dp)"
proof -
  obtain tracker m where s: "ct_reserve (wanted e addr src dst sp dp) (tracker_of w) = (tracker, Some m)"
    using ct_reserve_free [OF assms(1,7,8)] .
  obtain g where g: "m \<noteq> 0" "ct_lookup tracker m = Some g" "orig_key g = orig_key (wanted e addr src dst sp dp)"
    using ct_reserve_port [OF assms(1) s] by blast
  have "length (with_tuple pkt ihl loopbackV4 loopbackV4 m (ic_tproxyPort (w_ic w))) = length pkt"
    using assms(3,4) by (intro length_with_tuple) (simp_all add: loopbackV4_def)
  then have "with_tuple pkt ihl loopbackV4 loopbackV4 m (ic_tproxyPort (w_ic w)) \<noteq> []"
    using assms(4) by auto
  then obtain p' a' where c: "CalcChecksums (ev_driver e) (with_tuple pkt ihl loopbackV4 loopbackV4 m (ic_tproxyPort (w_ic w)))
        (addr\<lparr>wa_Bits := wa_Bits addr OR (flagOutbound OR flagLoopback)\<rparr>) = Inr (p', a')"
    using CalcChecksums_works [OF assms(6)] by (metis prod.exhaust)
  have h: "hijackTCP e pkt addr (ip4 src) (ip4 dst) sp dp ihl w =
    Some (m, (on_ic (ic_tracker_update (\<lambda>_. tracker)) w)\<lparr>w_q := Some (sq_push p' a' q)\<rparr>)"
    by (rule hijackTCP_queued [OF assms(1-5) s c])
  show thesis
  proof (rule that [where g = g])
    show "hijack_flow e pkt addr ihl key src dst sp dp w = Some (on_ic (ic_policies_update (fp_Set (ev_now e) key policyIntercept m))
        ((on_ic (ic_tracker_update (\<lambda>_. tracker)) w)\<lparr>w_q := Some (sq_push p' a' q)\<rparr>))"
      using g(1) by (simp add: hijack_flow_def h)
    show "m \<noteq> 0" by (rule g(1))
  qed (use g(2,3) c in \<open>simp_all add: fp_Get_def fp_Set_def\<close>)
qed

lemma handleConn_dials:
  assumes "ct_lookup ct m = Some g" "orig_key g = orig_key (wanted e addr src dst sp dp)" "\<not> local4 dst" "dp \<noteq> 0"
    and "ce_remote env = Some (IPv4 127 0 0 1, unat m)"
  obtains peek target where
    "sniff env dp (JoinHostPort (dotted (bytes4 dst)) (Itoa (uint dp))) = Some (peek, target)"
    "handleConn env tp ct = Some (Activate ''127.0.0.1'' m # serve env tp (''127.0.0.1:'' @ Itoa (uint m)) peek target
        @ [Release ''127.0.0.1'' m, CloseClient])"
proof -
  note tgt = leased_target [OF assms(2)]
  obtain peek target where sn: "sniff env dp (JoinHostPort (dotted (bytes4 dst)) (Itoa (uint dp))) = Some (peek, target)"
    using sniff_runs [of dp env "JoinHostPort (dotted (bytes4 dst)) (Itoa (uint dp))"] by (auto simp: runs_def)
  have "originalTarget (OrigDstIP g) (OrigDstPort g) = Inr (JoinHostPort (dotted (bytes4 dst)) (Itoa (uint dp)))"
    using originalTarget_remote [OF assms(3,4) tgt(2)] tgt(4,5) by simp
  then show thesis
    using sn assms(1,5) tgt(4) by (intro that [OF sn]) (simp add: handleConn_def Let_def ct_lookup_def)
qed

lemma conn_env_remote [simp]:
  "ce_stream (env\<lparr>ce_remote := r\<rparr>) = ce_stream env" "ce_dial (env\<lparr>ce_remote := r\<rparr>) = ce_dial env"
  "ce_replay_ok (env\<lparr>ce_remote := r\<rparr>) = ce_replay_ok env" "ce_first_err (env\<lparr>ce_remote := r\<rparr>) = ce_first_err env"
  "ce_second_err (env\<lparr>ce_remote := r\<rparr>) = ce_second_err env"
  by simp_all

lemma sniff_remote: "sniff (env\<lparr>ce_remote := r\<rparr>) = sniff env"
  unfolding sniff_def fun_eq_iff conn_env_remote by simp

lemma serve_remote: "serve (env\<lparr>ce_remote := r\<rparr>) = serve env"
  unfolding serve_def relay_actions_def fun_eq_iff conn_env_remote by simp

text \<open>
  The steps of a connection are those of \<open>handleConn\<close>: when nothing happens in between, look-up, use and finish
  do to the tracker what the actions of \<open>handleConn\<close> do.
\<close>

lemma run_relay_tracker: "cs_tracker (run_actions (relay_actions env tp cid addr) s) = cs_tracker s"
  by (simp add: relay_actions_def)

lemma run_serve_tracker: "cs_tracker (run_actions (serve env tp cid peek addr) s) = cs_tracker s"
  by (simp add: serve_def Let_def run_relay_tracker)

lemma connection_as_steps:
  assumes "ce_remote env = Some (IPv4 127 0 0 1, unat m)" "ct_lookup (sys_tracker s) m = Some g" "sy_conns s d = None"
    and "\<And>d' k. sy_conns s d' = Some k \<Longrightarrow> cn_port k = m \<Longrightarrow> \<not> cn_open k" "cs_tracker c = sys_tracker s"
  obtains acts s' where "handleConn env tp (sys_tracker s) = Some acts" "sys_moves\<^sup>*\<^sup>* s s'"
    "sys_tracker s' = cs_tracker (run_actions acts c)" "sy_conns s' = sy_conns s"
proof -
  obtain acts where acts: "handleConn env tp (sys_tracker s) = Some (Activate ''127.0.0.1'' m # acts @ [Release ''127.0.0.1'' m, CloseClient])"
    "acts = [] \<or> (\<exists>peek addr. acts = serve env tp (conn_id (IPv4 127 0 0 1) (unat m)) peek addr)"
    using handleConn_leased [OF assms(1), of "sys_tracker s" g tp] assms(2)
    by (auto simp: conn_key_def ct_lookup_entries loopback_key_def)
  let ?k = "\<lparr>cn_port = m, cn_target = g, cn_phase = Looked, cn_open = True\<rparr>"
  let ?looked = "set_conn d (Some ?k) s"
  let ?used = "set_conn d (Some (?k\<lparr>cn_phase := Serving (ct_lookup (sys_tracker ?looked) (cn_port ?k))\<rparr>))
    (on_tracker (ct_Activate ''127.0.0.1'' (cn_port ?k)) ?looked)"
  let ?done = "set_conn d None (on_tracker (ct_Delete ''127.0.0.1'' m) ?used)"
  have looked: "sys_step s (Look d) ?looked"
    by (rule look [OF assms(3,4)]) (use assms(2) in \<open>simp_all add: ct_lookup_def\<close>)
  have used: "sys_step ?looked (Serve d) ?used"
    by (rule use) simp_all
  have "sys_step ?used (Finish d) ?done"
    using finish [of ?used d "?k\<lparr>cn_phase := Serving (Some g)\<rparr>" "Some g"] assms(2) by simp
  note steps = moves_step [OF looked moves_step [OF used moves_step [OF this rtranclp.rtrancl_refl]]]
  have "sys_tracker ?done = ct_Delete ''127.0.0.1'' m (ct_Activate ''127.0.0.1'' m (sys_tracker s))"
    by simp
  moreover have "sy_conns ?done = sy_conns s"
    using assms(3) by (simp add: fun_upd_idem)
  moreover have "cs_tracker (run_actions acts x) = cs_tracker x" for x
    using acts(2) run_serve_tracker by auto
  ultimately show thesis
    using assms(5) by (intro that [OF acts(1) steps]) simp_all
qed

text \<open>A first packet of a listed process.\<close>

definition listed_flow :: Flow where
  "listed_flow = \<lparr>fl_LocalIP = u32_of peer_a, fl_LocalPort = 50000, fl_RemoteIP = u32_of peer_b, fl_RemotePort = 443\<rparr>"

definition listed_entry :: Entry where
  "listed_entry = \<lparr>en_Flow = listed_flow, en_PID = 7, en_Name = ''a.exe''\<rparr>"

definition listed_world :: world where
  "listed_world = on_ic (\<lambda>i. (SetWhitelist [''a.exe''] i)\<lparr>ic_resolver := (ic_resolver i)\<lparr>rs_flows := [listed_flow \<mapsto> listed_entry]\<rparr>\<rparr>)
     idle_world"

lemma listed_world_simps [simp]:
  "w_q listed_world = Some newSendQueue" "ic_handle (w_ic listed_world)"
  "tracker_of listed_world = NewConnTracker 15 30 7893" "ic_tproxyPort (w_ic listed_world) = 7893"
  "ic_policies (w_ic listed_world) = newFlowPolicies" "ic_proxy4 (w_ic listed_world) = None"
  "Lookup listed_flow (ic_resolver (w_ic listed_world)) = Some listed_entry"
  by (simp_all add: listed_world_def SetWhitelist_def Lookup_def)

lemma listed_entry_whitelisted: "en_Name listed_entry \<noteq> ''''" "isWhitelisted (en_Name listed_entry) (w_ic listed_world)"
proof -
  have "ToLower ''a.exe'' = ''a.exe''" "TrimSpace ''a.exe'' = ''a.exe''" by code_simp+
  then show "en_Name listed_entry \<noteq> ''''" "isWhitelisted (en_Name listed_entry) (w_ic listed_world)"
    by (simp_all add: listed_world_def listed_entry_def SetWhitelist_def isWhitelisted_def)
qed

lemma checks_work_quiet [simp]: "checks_work quiet_env"
  by (simp add: checks_work_def quiet_env_def plain_driver_def)

lemma listed_port_free: "in_pool 32768" "port_free (NewConnTracker 15 30 7893) 32768"
  by (simp_all add: in_pool_def mappedPortMin_def mappedPortMax_def port_free_def NewConnTracker_def)

lemma SYN_simps [simp]: "tcpSYN AND (tcpFIN OR tcpRST) = 0" "isConnectionStart tcpSYN"
  by (simp_all add: tcpACK_def tcpFIN_def tcpRST_def tcpSYN_def isConnectionStart_def)

lemma segment_header:
  "idx (segment flags) 0 = Some 0x45" "drop_bit 4 (0x45 :: byte) = 4" "20 = unat ((0x45 :: byte) AND 0x0f) * 4" "idx (segment flags) 9 = Some 6"
  by (simp_all add: segment_def idx_def)




lemma listed_lookup:
  "Lookup \<lparr>fl_LocalIP = u32_of peer_a, fl_LocalPort = 50000, fl_RemoteIP = u32_of peer_b, fl_RemotePort = 443\<rparr>
     (ic_resolver (w_ic listed_world)) = Some listed_entry"
  by (simp flip: listed_flow_def)

lemma listed_first_lease:
  "ct_reserve (wanted quiet_env some_address peer_a peer_b 50000 443) (NewConnTracker 15 30 7893) =
     (lease 32768 (wanted quiet_env some_address peer_a peer_b 50000 443)
       ((NewConnTracker 15 30 7893)\<lparr>ct_nextPort := 32769\<rparr>), Some 32768)"
  by (simp add: ct_reserve_def first_lease wanted_def)

lemma listed_packet:
  obtains w where "handlePacket quiet_env (segment tcpSYN) some_address listed_world = Some w" "ic_tproxyPort (w_ic w) = 7893"
    "tracker_of w = lease 32768 (wanted quiet_env some_address peer_a peer_b 50000 443) ((NewConnTracker 15 30 7893)\<lparr>ct_nextPort := 32769\<rparr>)"
    "w_q w \<noteq> None" "ic_handle (w_ic w)"
proof -
  have "fp_Get (key4 peer_a peer_b 50000 443) (ic_policies (w_ic listed_world)) = None"
    by (simp add: fp_Get_def newFlowPolicies_def)
  then have handled: "handlePacket quiet_env (segment tcpSYN) some_address listed_world =
      hijack_flow quiet_env (segment tcpSYN) some_address 20 (key4 peer_a peer_b 50000 443) peer_a peer_b 50000 443 listed_world"
    using listed_lookup listed_entry_whitelisted
    by (simp add: handlePacket_tcp4 [OF segment_packet segment_header]
        new_connection_hijacked [OF segment_packet SYN_simps(2,1)])
  have len: "20 + 4 \<le> length (segment tcpSYN)" by (simp add: segment_def)
  then have "length (with_tuple (segment tcpSYN) 20 loopbackV4 loopbackV4 32768 7893) = length (segment tcpSYN)"
    by (intro length_with_tuple) (simp_all add: loopbackV4_def)
  then have "with_tuple (segment tcpSYN) 20 loopbackV4 loopbackV4 32768 7893 \<noteq> []"
    using len by auto
  then obtain p a where c: "CalcChecksums (ev_driver quiet_env) (with_tuple (segment tcpSYN) 20 loopbackV4 loopbackV4 32768
        (ic_tproxyPort (w_ic listed_world)))
      (some_address\<lparr>wa_Bits := wa_Bits some_address OR (flagOutbound OR flagLoopback)\<rparr>) = Inr (p, a)"
    using CalcChecksums_works [OF checks_work_quiet] by (metis listed_world_simps(4) prod.exhaust)
  have "ct_inv (tracker_of listed_world)" by (simp add: ct_inv_New)
  from hijackTCP_queued [OF this listed_world_simps(1) order_refl len listed_world_simps(2) _ c] show thesis
    using that handled listed_first_lease by (simp add: hijack_flow_def)
qed

lemma served_example:
  obtains s0 c m h s where "sys_reach s0" "activates s0 c m h s"
    "h = wanted quiet_env some_address peer_a peer_b 50000 443" "m = 32768" "ic_tproxyPort (w_ic (sy_world s)) = 7893"
    "w_q (sy_world s) \<noteq> None" "ic_handle (w_ic (sy_world s))"
proof -
  let ?h = "wanted quiet_env some_address peer_a peer_b 50000 443"
  obtain w where w: "handlePacket quiet_env (segment tcpSYN) some_address listed_world = Some w" "ic_tproxyPort (w_ic w) = 7893"
    "tracker_of w = lease 32768 ?h ((NewConnTracker 15 30 7893)\<lparr>ct_nextPort := 32769\<rparr>)" "w_q w \<noteq> None" "ic_handle (w_ic w)"
    by (rule listed_packet)
  let ?s = "\<lparr>sy_world = w, sy_conns = Map.empty\<rparr>"
  let ?k = "\<lparr>cn_port = 32768, cn_target = ?h, cn_phase = Looked, cn_open = True\<rparr>"
  let ?looked = "set_conn 0 (Some ?k) ?s"
  have "room (segment tcpSYN) listed_world"
    by (simp add: room_def newSendQueue_def recvBufSize_def batchPackets_def maxPacketSize_def segment_def)
  moreover have "env_ok quiet_env" by (rule quiet_ok)
  ultimately have "sys_step \<lparr>sy_world = listed_world, sy_conns = Map.empty\<rparr> (Handle quiet_env (segment tcpSYN) some_address) ?s"
    using packet [of "segment tcpSYN" "\<lparr>sy_world = listed_world, sy_conns = Map.empty\<rparr>" quiet_env some_address w] w(1) by simp
  then have "sys_reach ?s"
    by (rule sys_reach.step [OF sys_reach.start [OF listed_world_simps(3)]])
  moreover have l: "ct_lookup (tracker_of w) 32768 = Some ?h"
    by (simp add: w(3) ct_lookup_entries lease_def loopback_key_def)
  then have "sys_step ?s (Look 0) ?looked"
    by (intro look) (simp_all add: ct_lookup_def)
  ultimately have reach: "sys_reach ?looked" by (rule sys_reach.step)
  let ?t = "set_conn 0 (Some (?k\<lparr>cn_phase := Serving (ct_lookup (sys_tracker ?looked) (cn_port ?k))\<rparr>))
      (on_tracker (ct_Activate ''127.0.0.1'' (cn_port ?k)) ?looked)"
  have "sys_step ?looked (Serve 0) ?t"
    by (rule use) simp_all
  then have "activates ?looked 0 32768 ?h ?t"
    using l by (simp add: activates_def)
  from that [OF reach this refl refl] w(2,4,5) show thesis
    by (simp add: on_tracker_def)
qed

section \<open>Properties\<close>

text \<open>C3. A connection that the proxy serves keeps its way home: once \<open>Activate\<close> has found the lease of an
  accepted connection, the tracker holds exactly that lease, answers \<open>Set\<close> for its flow with its
  port without a change and has no other port for the flow, through all packets, other connections, collector ticks,
  changes of settings and the stop, until one of three things happens: the connection's own \<open>Delete\<close>; the late
  \<open>Delete\<close> of another connection from the same port whose socket was closed before; or a packet of its own flow that is
  hijacked anew and that the driver refuses. The lemmas \<open>late_delete_takes_lease\<close> and
  \<open>refused_hijack_takes_lease\<close> show that the last two do take it away.\<close>

theorem live_connection_keeps_its_lease:
  assumes "sys_reach s0" "activates s0 c m h s1" "(undisturbed m)\<^sup>*\<^sup>* s1 s" "orig_key t = orig_key h"
  shows "ct_Get ''127.0.0.1'' m (sys_tracker s) = Some h \<and> ct_reserve t (sys_tracker s) = (sys_tracker s, Some m) \<and>
    {p. \<exists>k. ct_Get ''127.0.0.1'' p (sys_tracker s) = Some k \<and> orig_key k = orig_key h} = {m}"
proof -
  have inv: "ct_inv (sys_tracker s)" and h: "ct_lookup (sys_tracker s) m = Some h"
    using lease_until_taken_back [OF assms(1-3)] by (auto simp: sys_inv_def)
  have "ct_reserve t (sys_tracker s) = (sys_tracker s, Some m)"
    using ct.reserve_known [OF inv h] assms(4) by simp
  moreover have "{p. \<exists>k. ct_lookup (sys_tracker s) p = Some k \<and> orig_key k = orig_key h} = {m}"
    using ct.one_port [OF inv _ h] h by blast
  ultimately show ?thesis
    using h by (simp add: ct_lookup_def)
qed

text \<open>A tick of the collector long after the lease was taken.\<close>

lemma served_and_collected:
  obtains s0 c s1 s where "sys_reach s0" "activates s0 c 32768 (wanted quiet_env some_address peer_a peer_b 50000 443) s1"
    "(undisturbed 32768)\<^sup>*\<^sup>* s1 s" "s = on_tracker (gc_tick (3600 * second) [loopback_key 32768]) s1"
proof -
  obtain s0 c s1 where s: "sys_reach s0" "activates s0 c 32768 (wanted quiet_env some_address peer_a peer_b 50000 443) s1"
    by (rule served_example) blast
  have "undisturbed 32768 s1 (on_tracker (gc_tick (3600 * second) [loopback_key 32768]) s1)"
    unfolding undisturbed_def by (rule exI [of _ Tick]) (auto simp: takes_back_def intro: collect simp del: gc_tick.simps)
  then show thesis using that [OF s r_into_rtranclp] by blast
qed

theorem live_connection_keeps_its_lease_witness:
  "\<exists>s. sys_reach s \<and> ct_Get ''127.0.0.1'' 32768 (sys_tracker (on_tracker (gc_tick (3600 * second) [loopback_key 32768]) s)) =
     Some (wanted quiet_env some_address peer_a peer_b 50000 443)"
proof -
  obtain s0 c s1 s where s: "sys_reach s0" "activates s0 c 32768 (wanted quiet_env some_address peer_a peer_b 50000 443) s1"
    "(undisturbed 32768)\<^sup>*\<^sup>* s1 s" "s = on_tracker (gc_tick (3600 * second) [loopback_key 32768]) s1"
    by (rule served_and_collected)
  have "sys_reach s1"
    using s(1,2) sys_reach.step by (auto simp: activates_def)
  then show ?thesis
    using live_connection_keeps_its_lease [OF s(1-3) refl] unfolding s(4) by blast
qed



text \<open>C2. A new connection of a listed process goes through the proxy to the server the program asked for. Its first
  packet, while a port of the pool is free, is queued with the mapped port as its source and the
  TProxy as its destination, and the flow is fixed as intercepted. When the proxy then accepts the connection from
  that port, it activates the lease, dials the packet's destination (the name in the ClientHello
  instead where there is one, on port 443 only), and gives the lease back.\<close>

theorem new_connection_dials_its_server:
  assumes "tcp4_packet ihl pkt src dst sp dp flags" "idx pkt 0 = Some b" "drop_bit 4 b = 4"
    and "ihl = unat (b AND 0x0f) * 4" "idx pkt 9 = Some 6"
    and "isConnectionStart flags" "flags AND (tcpFIN OR tcpRST) = 0"
    and "sp \<noteq> ic_tproxyPort (w_ic w)" "ic_proxy4 (w_ic w) \<noteq> Some dst" "\<not> local4 dst" "dp \<noteq> 0"
    and "fp_Get (key4 src dst sp dp) (ic_policies (w_ic w)) = None"
    and "Lookup \<lparr>fl_LocalIP = u32_of src, fl_LocalPort = sp, fl_RemoteIP = u32_of dst, fl_RemotePort = dp\<rparr>
        (ic_resolver (w_ic w)) = Some entry" "en_Name entry \<noteq> ''''" "isWhitelisted (en_Name entry) (w_ic w)"
    and "ct_inv (tracker_of w)" "in_pool p" "port_free (tracker_of w) p"
    and "w_q w = Some q" "ic_handle (w_ic w)" "checks_work e"
  shows "\<exists>w' m pkt' addr' peek target. handlePacket e pkt addr w = Some w' \<and>
    CalcChecksums (ev_driver e) (with_tuple pkt ihl loopbackV4 loopbackV4 m (ic_tproxyPort (w_ic w)))
        (addr\<lparr>wa_Bits := wa_Bits addr OR (flagOutbound OR flagLoopback)\<rparr>) = Inr (pkt', addr') \<and>
    w_q w' = Some (sq_push pkt' addr' q) \<and>
    fp_Get (key4 src dst sp dp) (ic_policies (w_ic w')) = Some (policyIntercept, m) \<and>
    sniff env dp (JoinHostPort (dotted (bytes4 dst)) (Itoa (uint dp))) = Some (peek, target) \<and>
    handleConn (env\<lparr>ce_remote := Some (IPv4 127 0 0 1, unat m)\<rparr>) tp (tracker_of w') =
      Some (Activate ''127.0.0.1'' m # serve env tp (''127.0.0.1:'' @ Itoa (uint m)) peek target
        @ [Release ''127.0.0.1'' m, CloseClient])"
proof -
  have len: "20 \<le> ihl" "ihl + 4 \<le> length pkt" using assms(1) by (auto simp: tcp4_packet_def)
  note handled = handlePacket_tcp4 [OF assms(1-5), of e addr w] new_connection_hijacked [OF assms(1,6-10,12-15), of e addr]
  obtain w' m g p' a' where h:
    "hijack_flow e pkt addr ihl (key4 src dst sp dp) src dst sp dp w = Some w'" "m \<noteq> 0"
    "fp_Get (key4 src dst sp dp) (ic_policies (w_ic w')) = Some (policyIntercept, m)"
    "CalcChecksums (ev_driver e) (with_tuple pkt ihl loopbackV4 loopbackV4 m (ic_tproxyPort (w_ic w)))
        (addr\<lparr>wa_Bits := wa_Bits addr OR (flagOutbound OR flagLoopback)\<rparr>) = Inr (p', a')"
    "w_q w' = Some (sq_push p' a' q)"
    "ct_lookup (tracker_of w') m = Some g" "orig_key g = orig_key (wanted e addr src dst sp dp)"
    by (rule hijack_flow_leased [OF assms(16,19) len assms(20,21,17,18)])
  let ?env = "env\<lparr>ce_remote := Some (IPv4 127 0 0 1, unat m)\<rparr>"
  have remote: "ce_remote ?env = Some (IPv4 127 0 0 1, unat m)" by simp
  obtain peek target where t:
    "sniff ?env dp (JoinHostPort (dotted (bytes4 dst)) (Itoa (uint dp))) = Some (peek, target)"
    "handleConn ?env tp (tracker_of w') = Some (Activate ''127.0.0.1'' m #
        serve ?env tp (''127.0.0.1:'' @ Itoa (uint m)) peek target @ [Release ''127.0.0.1'' m, CloseClient])"
    by (rule handleConn_dials [OF h(6,7) assms(10,11) remote, where tp = tp])
  show ?thesis
    using handled h t by (intro exI conjI) (simp_all add: sniff_remote serve_remote)
qed

theorem new_connection_dials_its_server_witness:
  "\<exists>w m. handlePacket quiet_env (segment tcpSYN) some_address listed_world = Some w \<and>
     fp_Get (key4 peer_a peer_b 50000 443) (ic_policies (w_ic w)) = Some (policyIntercept, m) \<and>
     handleConn \<lparr>ce_remote = Some (IPv4 127 0 0 1, unat m), ce_stream = [], ce_dial = \<lambda>_ _. False, ce_replay_ok = True,
         ce_first_err = False, ce_second_err = False\<rparr>
       \<lparr>tp_upstream = NewUpstreamDialer ''socks5'' ''10.0.0.1:1080'' '''' '''', tp_bufferSize = 65536, tp_has_stats = True\<rparr>
       (tracker_of w) =
     Some [Activate ''127.0.0.1'' m, DialUpstream (fst (Dialer (NewUpstreamDialer ''socks5'' ''10.0.0.1:1080'' '''' ''''))) ''1.2.3.4:443'' False,
       Release ''127.0.0.1'' m, CloseClient]"
proof -
  let ?env = "\<lparr>ce_remote = None, ce_stream = [], ce_dial = \<lambda>_ _. False, ce_replay_ok = True,
         ce_first_err = False, ce_second_err = False\<rparr>"
  let ?tp = "\<lparr>tp_upstream = NewUpstreamDialer ''socks5'' ''10.0.0.1:1080'' '''' '''', tp_bufferSize = 65536, tp_has_stats = True\<rparr>"
  have addr: "JoinHostPort (dotted (bytes4 peer_b)) (Itoa 443) = ''1.2.3.4:443''" by code_simp
  have sn: "sniff ?env 443 a = Some ([], a)" for a
    by (simp add: sniff_def readTLSClientHello_def)
  have pol: "fp_Get (key4 peer_a peer_b 50000 443) (ic_policies (w_ic listed_world)) = None"
    by (simp add: fp_Get_def newFlowPolicies_def)
  have tr: "ct_inv (tracker_of listed_world)" "port_free (tracker_of listed_world) 32768"
    using listed_port_free by (simp_all add: ct_inv_New)
  from new_connection_dials_its_server [OF segment_packet [of tcpSYN] segment_header(1) [of tcpSYN] segment_header(2,3) segment_header(4) [of tcpSYN] SYN_simps(2,1) _ _ segment_not_local _ pol listed_lookup listed_entry_whitelisted
      tr(1) listed_port_free(1) tr(2) listed_world_simps(1,2) checks_work_quiet, where env = ?env and addr = some_address and tp = ?tp]
  show ?thesis
    by (auto simp: addr sn serve_def)
qed

end
