(* ===== verification/NatTable.thy ===== *)
theory NatTable
  imports Prelude
begin

text \<open>
  What the program promises as a NAT, without its tables, locks and times: every flow that is
  intercepted has a port of its own, a port in use stays with its flow until its use is ended, and a
  port that is not in use may be taken back at any time. \<open>System\<close> shows that
  interceptor, tracker and proxy together implement this.
\<close>

section \<open>The abstract machine\<close>

record 'f nat_table =
  nt_leases :: "u16 \<rightharpoonup> 'f"
  nt_live :: "u16 set"

definition nat_empty :: "'f nat_table" where
  "nat_empty = \<lparr>nt_leases = Map.empty, nt_live = {}\<rparr>"

inductive nat_step :: "u16 set \<Rightarrow> 'f nat_table \<Rightarrow> 'f nat_table \<Rightarrow> bool" for pool where
  lease: "p \<in> pool \<Longrightarrow> nt_leases t p = None \<Longrightarrow> f \<notin> ran (nt_leases t) \<Longrightarrow>
    nat_step pool t (t\<lparr>nt_leases := (nt_leases t)(p \<mapsto> f)\<rparr>)"
| expire: "p \<notin> nt_live t \<Longrightarrow> nat_step pool t (t\<lparr>nt_leases := (nt_leases t)(p := None)\<rparr>)"
| accept: "nt_leases t p \<noteq> None \<Longrightarrow> p \<notin> nt_live t \<Longrightarrow> nat_step pool t (t\<lparr>nt_live := insert p (nt_live t)\<rparr>)"
| close: "p \<in> nt_live t \<Longrightarrow>
    nat_step pool t \<lparr>nt_leases = (nt_leases t)(p := None), nt_live = nt_live t - {p}\<rparr>"

inductive_cases nat_step_cases: "nat_step pool t t'"

section \<open>What it guarantees\<close>

definition nat_ok :: "u16 set \<Rightarrow> 'f nat_table \<Rightarrow> bool" where
  "nat_ok pool t \<longleftrightarrow> inj_on (nt_leases t) (dom (nt_leases t)) \<and> dom (nt_leases t) \<subseteq> pool \<and> nt_live t \<subseteq> dom (nt_leases t)"

lemma nat_ok_empty: "nat_ok pool nat_empty"
  by (simp add: nat_ok_def nat_empty_def)

lemma nat_ok_step: "nat_step pool t t' \<Longrightarrow> nat_ok pool t \<Longrightarrow> nat_ok pool t'"
proof (induction rule: nat_step.induct)
  case (lease p t f)
  then show ?case by (auto simp: nat_ok_def inj_on_def ran_def)
next
  case (close p t)
  then show ?case by (auto simp: nat_ok_def inj_on_def)
qed (auto simp: nat_ok_def inj_on_def)

lemma nat_ok_steps:
  assumes "(nat_step pool)\<^sup>*\<^sup>* t t'" "nat_ok pool t"
  shows "nat_ok pool t'"
  using assms by (induction rule: rtranclp_induct) (blast intro: nat_ok_step)+

text \<open>A live port keeps its flow as long as it stays live.\<close>

lemma nat_live_keeps: "nat_step pool t t' \<Longrightarrow> p \<in> nt_live t \<Longrightarrow> p \<in> nt_live t' \<Longrightarrow> nt_leases t' p = nt_leases t p \<or> nt_leases t p = None"
  by (induction rule: nat_step.induct) auto

end
