(* ===== verification/SystemSpec.thy ===== *)
theory SystemSpec
  imports System NatTable
begin

text \<open>
  The system refines the abstract NAT of \<open>NatTable\<close>: leases are what the tracker's entries say of ports and
  flows, live ports those whose lease is in use. Times, counters, indices, the state of the connections and the
  settings of the two sides are not visible.
\<close>

section \<open>What is seen of the tracker\<close>

definition nat_pool :: "u16 \<Rightarrow> u16 set" where
  "nat_pool r = {p. in_pool p \<and> p \<noteq> r}"

definition leases :: "ConnTracker \<Rightarrow> u16 \<rightharpoonup> OrigFlowKey" where
  "leases ct p = map_option orig_key (ct_lookup ct p)"

text \<open>The invariant of the tracker with its reserved port.\<close>

definition tracker_ok :: "u16 \<Rightarrow> ConnTracker \<Rightarrow> bool" where
  "tracker_ok r ct \<longleftrightarrow> ct_inv ct \<and> ct_reservedPort ct = r"

lemma alloc_loop_reserved: "ct_reservedPort (fst (alloc_loop n t ct)) = ct_reservedPort ct"
  by (induction n arbitrary: ct) (simp_all add: lease_def Let_def)

lemma gc_tick_reserved: "ct_reservedPort (gc_tick now ks ct) = ct_reservedPort ct"
  by (induction ks arbitrary: ct) (auto simp: gc_visit_def drop_entry_def split: option.split)

lemma tracker_step_ok:
  assumes "tracker_ok r ct"
  shows "tracker_ok r (tracker_step x ct)"
proof -
  have inv: "ct_inv ct" and r: "ct_reservedPort ct = r" using assms by (simp_all add: tracker_ok_def)
  have "ct_reservedPort (tracker_step x ct) = r"
  proof (cases x)
    case (Take t)
    then show ?thesis
      using r by (simp add: ct_reserve_unfold [OF inv] alloc_loop_reserved split: option.split)
  qed (simp_all add: r ct_use_def ct_release_def ct_collect_def gc_tick_reserved ct_Activate_def ct_Delete_def
      drop_entry_def Let_def split: option.split)
  then show ?thesis
    using ct_share.inv_share [OF inv, of x] by (simp add: tracker_ok_def)
qed

lemma lease_in_pool: "tracker_ok r ct \<Longrightarrow> ct_lookup ct p = Some t \<Longrightarrow> p \<in> nat_pool r"
  using ct_inv_entry [of ct "loopback_key p" t]
  by (auto simp: tracker_ok_def nat_pool_def ct_lookup_entries)

definition tracker_view :: "ConnTracker \<Rightarrow> OrigFlowKey nat_table" where
  "tracker_view ct = \<lparr>nt_leases = leases ct, nt_live = {p. ct_used ct p}\<rparr>"

section \<open>One operation on the tracker\<close>

lemma leases_update: "ct_lookup ct' = (ct_lookup ct)(p := x) \<Longrightarrow> leases ct' = (leases ct)(p := map_option orig_key x)"
  by (auto simp: leases_def fun_eq_iff)

lemma take_refines:
  assumes "tracker_ok r ct"
  shows "(nat_step (nat_pool r))\<^sup>*\<^sup>* (tracker_view ct) (tracker_view (tracker_step (Take t) ct))"
proof -
  have inv: "ct_inv ct" using assms by (simp add: tracker_ok_def)
  obtain ct' x where c: "ct_reserve t ct = (ct', x)" by fastforce
  have ok: "tracker_ok r ct'" using tracker_step_ok [OF assms, of "Take t"] c by simp
  have live: "{p. ct_used ct' p} = {p. ct_used ct p}"
    using ct_reserve_active [OF inv, of t] c by (simp add: ct_used_def)
  show ?thesis
  proof (cases "\<exists>p g. ct_lookup ct p = Some g \<and> orig_key g = orig_key t")
    case True
    then obtain p g where "ct_lookup ct p = Some g" "orig_key g = orig_key t" by blast
    then have "ct' = ct" using ct.reserve_known [OF inv] c by simp
    then show ?thesis by (simp add: c)
  next
    case False
    show ?thesis
    proof (cases x)
      case None
      then have "leases ct' = leases ct"
        using ct.reserve_none [OF inv] c by (simp add: leases_def fun_eq_iff)
      then show ?thesis by (simp add: c tracker_view_def live)
    next
      case (Some p)
      then have p: "ct_lookup ct p = None" "ct_lookup ct' = (ct_lookup ct)(p \<mapsto> t)"
        using ct.reserve_new [OF inv _ c [unfolded Some]] False by blast+
      have "leases ct' = (leases ct)(p \<mapsto> orig_key t)" "leases ct p = None" "p \<in> nat_pool r"
        using leases_update [OF p(2)] p lease_in_pool [OF ok, of p t] by (simp_all add: leases_def)
      moreover have "orig_key t \<notin> ran (leases ct)"
        using False by (auto simp: leases_def ran_def)
      ultimately show ?thesis
        using nat_step.lease [of p "nat_pool r" "tracker_view ct" "orig_key t"] c by (auto simp: tracker_view_def live)
    qed
  qed
qed

lemma use_refines:
  assumes "tracker_ok r ct"
  shows "(nat_step (nat_pool r))\<^sup>*\<^sup>* (tracker_view ct) (tracker_view (tracker_step (Use p) ct))"
proof (cases "ct_lookup ct p")
  case None
  then have "tracker_step (Use p) ct = ct"
    by (simp add: ct_use_def ct_Activate_def ct_lookup_entries loopback_key_def Let_def)
  then show ?thesis by simp
next
  case (Some h)
  have leases: "leases (tracker_step (Use p) ct) = leases ct"
    using ct_share.lookup_use [of p ct] by (simp add: leases_def fun_eq_iff)
  have live: "{q. ct_used (tracker_step (Use p) ct) q} = insert p {q. ct_used ct q}"
    using Some by (auto simp: ct_used_def ct_use_def ct_Activate_def ct_lookup_entries loopback_key_def Let_def)
  have "tracker_view (tracker_step (Use p) ct) = tracker_view ct" if "ct_used ct p"
    using that leases live by (simp add: tracker_view_def insert_absorb)
  moreover have "nat_step (nat_pool r) (tracker_view ct) (tracker_view (tracker_step (Use p) ct))" if "\<not> ct_used ct p"
    using nat_step.accept [of "tracker_view ct" p "nat_pool r"] that Some leases live
    by (simp add: tracker_view_def leases_def)
  ultimately show ?thesis by (cases "ct_used ct p") auto
qed

lemma give_refines:
  assumes "tracker_ok r ct"
  shows "(nat_step (nat_pool r))\<^sup>*\<^sup>* (tracker_view ct) (tracker_view (tracker_step (Give p) ct))"
proof -
  have leases: "leases (tracker_step (Give p) ct) = (leases ct)(p := None)"
    using ct.lookup_release [of ct p] assms by (auto simp: leases_def tracker_ok_def fun_eq_iff)
  have live: "{q. ct_used (tracker_step (Give p) ct) q} = {q. ct_used ct q} - {p}"
    by (auto simp: ct_used_def ct_release_active loopback_key_def)
  have "nat_step (nat_pool r) (tracker_view ct) (tracker_view (tracker_step (Give p) ct))"
    using nat_step.close [of p "tracker_view ct" "nat_pool r"] nat_step.expire [of p "tracker_view ct" "nat_pool r"] leases live
    by (cases "ct_used ct p") (auto simp: tracker_view_def)
  then show ?thesis ..
qed

lemma collect_refines:
  assumes "tracker_ok r ct"
  shows "(nat_step (nat_pool r))\<^sup>*\<^sup>* (tracker_view ct) (tracker_view (gc_tick now ks ct))"
  using assms
proof (induction ks arbitrary: ct)
  case (Cons k ks)
  have tick: "gc_visit now k ct = tracker_step (Collect (now, [k])) ct" by (simp add: ct_collect_def)
  have live: "ct_used (gc_visit now k ct) = ct_used ct"
    using gc_tick_simps(1) [of now "[k]" ct] by (simp add: ct_used_def fun_eq_iff)
  have one: "(nat_step (nat_pool r))\<^sup>*\<^sup>* (tracker_view ct) (tracker_view (gc_visit now k ct))"
  proof (cases "ct_entries (gc_visit now k ct) = ct_entries ct")
    case True
    then have "leases (gc_visit now k ct) = leases ct" by (simp add: leases_def ct_lookup_entries fun_eq_iff)
    then show ?thesis by (simp add: tracker_view_def live)
  next
    case False
    then obtain v where v: "ct_entries ct k = Some v" "k \<notin> ct_active ct" "ct_entries (gc_visit now k ct) = (ct_entries ct)(k := None)"
      by (auto simp: gc_visit_def split: option.splits if_splits)
    then obtain p where p: "k = loopback_key p"
      using ct_inv_entry [of ct k v] Cons.prems(1) by (auto simp: tracker_ok_def loopback_key_def)
    moreover have "leases (gc_visit now k ct) = (leases ct)(p := None)"
      by (auto simp: leases_def ct_lookup_entries v(3) [unfolded p] p fun_eq_iff)
    ultimately show ?thesis
      using nat_step.expire [of p "tracker_view ct" "nat_pool r"] v(2) by (auto simp: tracker_view_def live ct_used_def)
  qed
  have "tracker_ok r (gc_visit now k ct)"
    unfolding tick by (rule tracker_step_ok [OF Cons.prems(1)])
  from Cons.IH [OF this] one show ?case by simp
qed simp

lemma op_refines:
  assumes "tracker_ok r ct"
  shows "(nat_step (nat_pool r))\<^sup>*\<^sup>* (tracker_view ct) (tracker_view (tracker_step x ct))"
proof (cases x)
  case (Collect c)
  then show ?thesis using collect_refines [OF assms, of "fst c" "snd c"] by (simp add: ct_collect_def)
qed (use take_refines use_refines give_refines assms in blast)+

lemma ops_refine:
  assumes "tracker_ok r ct"
  shows "tracker_ok r (fold tracker_step ops ct) \<and>
    (nat_step (nat_pool r))\<^sup>*\<^sup>* (tracker_view ct) (tracker_view (fold tracker_step ops ct))"
  using assms
proof (induction ops arbitrary: ct)
  case (Cons x ops)
  note ok = tracker_step_ok [OF Cons.prems, of x]
  show ?case
    using Cons.IH [OF ok] op_refines [OF Cons.prems, of x] by (auto intro: rtranclp_trans)
qed simp

section \<open>The system as a NAT\<close>

definition nat_view :: "system \<Rightarrow> OrigFlowKey nat_table" where
  "nat_view s = tracker_view (sys_tracker s)"

definition sys_start :: "u16 \<Rightarrow> system \<Rightarrow> bool" where
  "sys_start r s \<longleftrightarrow> (\<exists>gc t. sys_tracker s = NewConnTracker gc t r) \<and> sy_conns s = Map.empty"

definition spec_inv :: "u16 \<Rightarrow> system \<Rightarrow> bool" where
  "spec_inv r s \<longleftrightarrow> sys_inv s \<and> ct_reservedPort (sys_tracker s) = r"

lemma spec_inv_tracker: "spec_inv r s \<Longrightarrow> tracker_ok r (sys_tracker s)"
  by (simp add: spec_inv_def sys_inv_def tracker_ok_def)

lemma sys_step_refines:
  assumes "spec_inv r s" "sys_step s a s'"
  shows "tracker_ok r (sys_tracker s') \<and> (nat_step (nat_pool r))\<^sup>*\<^sup>* (nat_view s) (nat_view s')"
proof -
  have ok: "tracker_ok r (sys_tracker s)" by (rule spec_inv_tracker [OF assms(1)])
  have closed: "tracker_ok r (ct_Close (sys_tracker s))" "tracker_view (ct_Close (sys_tracker s)) = tracker_view (sys_tracker s)"
    using ok by (simp_all add: tracker_ok_def ct_inv_Close tracker_view_def leases_def fun_eq_iff) (simp add: ct_Close_def)
  obtain ops where "sys_ops s a s' ops"
    using sys_step_ops [OF assms(2)] ok by (auto simp: tracker_ok_def)
  then show ?thesis
    using ops_refine [OF ok, of ops] closed by (auto simp: sys_ops_def nat_view_def)
qed

interpretation nat: refinement "sys_start r" sys_moves "spec_inv r" nat_view "\<lambda>t. t = nat_empty" "nat_step (nat_pool r)" for r
proof
  have new: "ct_lookup (NewConnTracker gc t r) m = None" "\<not> ct_used (NewConnTracker gc t r) m" for gc t m
    by (simp_all add: ct_lookup_entries ct_used_def NewConnTracker_def)
  show "spec_inv r s" if "sys_start r s" for s
    using that new by (auto simp: sys_start_def spec_inv_def sys_inv_def ct_inv_New) (simp add: NewConnTracker_def)
  show "nat_view s = nat_empty" if "sys_start r s" for s
    using that new by (auto simp: sys_start_def nat_view_def tracker_view_def nat_empty_def leases_def fun_eq_iff)
  show "spec_inv r s'" if "spec_inv r s" "sys_moves s s'" for s s'
    using that sys_step_refines sys_inv_step by (auto simp: spec_inv_def tracker_ok_def)
  show "(nat_step (nat_pool r))\<^sup>*\<^sup>* (nat_view s) (nat_view s')" if "spec_inv r s" "sys_moves s s'" for s s'
    using that sys_step_refines by blast
qed

lemma sys_reach_start: "sys_reach s \<Longrightarrow> \<exists>r s0. sys_start r s0 \<and> sys_moves\<^sup>*\<^sup>* s0 s"
proof (induction rule: sys_reach.induct)
  case (start w gc t r)
  then have "sys_start r \<lparr>sy_world = w, sy_conns = Map.empty\<rparr>" by (auto simp: sys_start_def)
  then show ?case by blast
next
  case (step s a s')
  then obtain r s0 where s0: "sys_start r s0" "sys_moves\<^sup>*\<^sup>* s0 s" by blast
  have "sys_moves s s'" using step.hyps(2) by blast
  then have "sys_moves\<^sup>*\<^sup>* s0 s'" by (rule rtranclp.rtrancl_into_rtrancl [OF s0(2)])
  with s0(1) show ?case by blast
qed

section \<open>Properties\<close>

text \<open>C4. The program is a NAT: what packet handlers (also those whose packet the driver refuses), proxy connections,
  collector, background refreshes, changes of settings and the stop do, in any order, is to ports, flows
  and ports in use only what the abstract machine allows. A port is leased only when it is free, of the pool and
  not the TProxy's own, to a flow that has none, so no two ports ever have the same flow. Every port in use has its
  lease and a connection that is being served; and the only steps that end its use are a \<open>Delete\<close> of a connection
  accepted from the port and a refused packet of its own flow (\<open>takes_back\<close>).\<close>

theorem system_implements_nat:
  assumes "sys_reach s"
  shows "(nat_step (nat_pool (ct_reservedPort (sys_tracker s))))\<^sup>*\<^sup>* nat_empty (nat_view s) \<and>
    inj_on (leases (sys_tracker s)) (dom (leases (sys_tracker s))) \<and>
    (\<forall>p. ct_used (sys_tracker s) p \<longrightarrow> leases (sys_tracker s) p \<noteq> None \<and> (\<exists>c. serves s c p) \<and>
       (\<forall>a s'. sys_step s a s' \<longrightarrow> takes_back p s a \<or>
          ct_used (sys_tracker s') p \<and> leases (sys_tracker s') p = leases (sys_tracker s) p))"
proof -
  obtain r s0 where s0: "sys_start r s0" "sys_moves\<^sup>*\<^sup>* s0 s"
    using sys_reach_start [OF assms] by blast
  have "ct_reservedPort (sys_tracker s) = r"
    using nat.inv_steps [OF s0(2) nat.start_inv [OF s0(1)]] by (simp add: spec_inv_def)
  moreover have "(nat_step (nat_pool r))\<^sup>*\<^sup>* nat_empty (nat_view s)"
    using nat.simulated [OF s0] by metis
  moreover have ok: "nat_ok (nat_pool r) (nat_view s)"
    by (rule nat.transferred [OF _ s0]) (auto intro: nat_ok_steps nat_ok_empty)
  moreover have inv: "sys_inv s" by (rule sys_inv_reach [OF assms])
  moreover have "leases (sys_tracker s) p \<noteq> None \<and> (\<exists>c. serves s c p) \<and> (\<forall>a s'. sys_step s a s' \<longrightarrow> takes_back p s a \<or>
      ct_used (sys_tracker s') p \<and> leases (sys_tracker s') p = leases (sys_tracker s) p)" if "ct_used (sys_tracker s) p" for p
  proof -
    have "p \<in> dom (leases (sys_tracker s))"
      using ok that by (auto simp: nat_ok_def nat_view_def tracker_view_def)
    then obtain h where "ct_lookup (sys_tracker s) p = Some h"
      by (auto simp: leases_def)
    then show ?thesis
      using lease_kept [OF inv _ _ _ that] inv that by (auto simp: leases_def sys_inv_def)
  qed
  ultimately show ?thesis by (simp add: nat_ok_def nat_view_def tracker_view_def)
qed

theorem system_implements_nat_witness:
  "\<exists>s r. sys_reach s \<and> ct_used (sys_tracker s) 32768 \<and> (nat_step (nat_pool r))\<^sup>*\<^sup>* nat_empty (nat_view s) \<and>
     leases (sys_tracker s) 32768 \<noteq> None"
proof -
  obtain s0 c m h s where s: "sys_reach s0" "activates s0 c m h s" "m = 32768"
    by (rule served_example)
  have "sys_reach s" using s(1,2) sys_reach.step by (auto simp: activates_def)
  moreover have "ct_used (sys_tracker s) 32768"
    using activated_lease [OF s(1,2)] s(3) by simp
  ultimately show ?thesis
    using system_implements_nat [of s] by blast
qed

end
