(* ===== verification/Blocking.thy ===== *)
theory Blocking
  imports Routing
begin

text \<open>
  What the interceptor keeps from going out past the proxy: the IPv6 connections and the QUIC
  datagrams of listed processes are dropped, which makes the program fall back to TCP over IPv4,
  which is hijacked.
\<close>

section \<open>IPv6 packets as the handlers see them\<close>

definition tcp6_packet :: "byte list \<Rightarrow> byte list \<Rightarrow> byte list \<Rightarrow> u16 \<Rightarrow> u16 \<Rightarrow> byte \<Rightarrow> bool" where
  "tcp6_packet pkt src dst sp dp flags \<longleftrightarrow> 60 \<le> length pkt \<and> map_option (drop_bit 4) (idx pkt 0) = Some 6 \<and> idx pkt 6 = Some 6 \<and>
     subslice pkt 8 24 = Some src \<and> subslice pkt 24 40 = Some dst \<and>
     be16_at pkt 40 = Some sp \<and> be16_at pkt 42 = Some dp \<and> idx pkt 53 = Some flags"

definition key6 :: "byte list \<Rightarrow> byte list \<Rightarrow> u16 \<Rightarrow> u16 \<Rightarrow> flowKey" where
  "key6 src dst sp dp = \<lparr>fk_srcIP = src, fk_dstIP = dst, fk_srcPort = sp, fk_dstPort = dp, fk_ver = 6\<rparr>"

lemma handlePacket_tcp6:
  assumes "tcp6_packet pkt src dst sp dp flags" "\<not> isPrivateOrLocalV6 dst"
  shows "handlePacket e pkt addr w = (let key = key6 src dst sp dp in
    case fp_Get key (ic_policies (w_ic w)) of
      Some (kind, _) \<Rightarrow>
        if flags AND (tcpFIN OR tcpRST) \<noteq> 0 \<or> kind = policyUndecided \<and> isConnectionStart flags
        then new_flow6 e pkt addr key flags (on_ic (ic_policies_update (fp_Delete key)) w)
        else if kind = policyIntercept then Some w
        else sendPass e pkt addr w
    | None \<Rightarrow> new_flow6 e pkt addr key flags w)"
  using assms
  by (auto simp: tcp6_packet_def handlePacket_def handleIPv6_def handleIPv6TCP_def key6_def Let_def)

text \<open>The process of an IPv6 connection is known and listed.\<close>

definition listed6 :: "byte list \<Rightarrow> byte list \<Rightarrow> u16 \<Rightarrow> u16 \<Rightarrow> Interceptor \<Rightarrow> bool" where
  "listed6 src dst sp dp i = (case LookupIPv6TCP \<lparr>t6_LocalIP = src, t6_LocalPort = sp, t6_RemoteIP = dst, t6_RemotePort = dp\<rparr> (ic_tcp6 i) of
     None \<Rightarrow> False | Some name \<Rightarrow> name \<noteq> '''' \<and> isWhitelisted name i)"

lemma new_flow6_listed:
  assumes "flags AND (tcpFIN OR tcpRST) = 0" "isConnectionStart flags" "listed6 src dst sp dp (w_ic w)"
  shows "new_flow6 e pkt addr (key6 src dst sp dp) flags w =
    Some (on_ic (ic_policies_update (fp_Set (ev_now e) (key6 src dst sp dp) policyIntercept 0)) w)"
  using assms
  by (auto simp: new_flow6_def listed6_def decideNewFlow_def lookupName6_def key6_def Let_def split: option.splits)





section \<open>Example packets\<close>

definition v6_header :: "byte \<Rightarrow> byte list" where
  "v6_header nxt = [0x60, 0, 0, 0, 0, 20, nxt, 64] @ [0x20, 1, 0x0d, 0xb8] @ replicate 11 0 @ [1]
     @ [0x26, 0, 0x1f, 0x18] @ replicate 11 0 @ [2]"

definition v6_segment :: "byte \<Rightarrow> byte list" where
  "v6_segment flags = v6_header 6 @ port_bytes 50000 @ port_bytes 443 @ replicate 9 0 @ [flags] @ replicate 6 0"

definition quic6 :: "byte list" where
  "quic6 = v6_header 17 @ port_bytes 50000 @ port_bytes 443 @ replicate 4 0"

definition quic4 :: "byte list" where
  "quic4 = [0x45, 0, 0, 28, 0, 0, 0, 0, 64, 17, 0, 0, 10, 0, 0, 5, 1, 2, 3, 4] @ port_bytes 50000 @ port_bytes 443 @ replicate 4 0"

abbreviation "host_a \<equiv> [0x20, 1, 0x0d, 0xb8] @ replicate 11 (0 :: byte) @ [1]"
abbreviation "host_b \<equiv> [0x26, 0, 0x1f, 0x18] @ replicate 11 (0 :: byte) @ [2]"

lemmas packet_defs = v6_header_def v6_segment_def quic6_def quic4_def port_bytes_def

lemma example_versions [simp]:
  "map_option (drop_bit 4) (idx (v6_segment flags) 0) = Some 6" "map_option (drop_bit 4) (idx quic6 0) = Some 6"
  "map_option (\<lambda>b. (drop_bit 4 b, unat (b AND 0x0f) * 4)) (idx quic4 0) = Some (4, 20)"
  by (simp_all add: packet_defs idx_def)

lemma example_slices [simp]:
  "subslice (v6_segment flags) 8 24 = Some host_a" "subslice (v6_segment flags) 24 40 = Some host_b"
  "subslice quic6 8 24 = Some host_a" "subslice quic6 24 40 = Some host_b"
  by (simp_all add: packet_defs slice_Some numeral_eq_Suc)

lemma v6_segment_packet: "tcp6_packet (v6_segment flags) host_a host_b 50000 443 flags"
  by (simp add: tcp6_packet_def) (simp add: packet_defs idx_def be16_at_Some nth_append)


lemma host_b_remote: "\<not> isPrivateOrLocalV6 host_b"
  by code_simp

section \<open>Properties\<close>

text \<open>C7. A listed process has no direct IPv6 connection: when the first segment of a connection to a public IPv6
  address belongs to a listed process it is dropped and the decision is remembered, and every
  further segment of a flow so decided, unless it closes the flow, is dropped as well, whatever the
  tables and the whitelist say by then.\<close>

theorem listed_ipv6_blocked:
  assumes "tcp6_packet pkt src dst sp dp flags" "\<not> isPrivateOrLocalV6 dst" "flags AND (tcpFIN OR tcpRST) = 0"
    and "(\<exists>m. fp_Get (key6 src dst sp dp) (ic_policies (w_ic w)) = Some (policyIntercept, m)) \<or>
      isConnectionStart flags \<and> listed6 src dst sp dp (w_ic w) \<and>
      fp_Get (key6 src dst sp dp) (ic_policies (w_ic w)) \<in> {None, Some (policyUndecided, old)}"
  shows "\<exists>i m. handlePacket e pkt addr w = Some (w\<lparr>w_ic := i\<rparr>) \<and>
    fp_Get (key6 src dst sp dp) (ic_policies i) = Some (policyIntercept, m)"
proof -
  let ?key = "key6 src dst sp dp"
  have fresh: "\<exists>i m. new_flow6 e pkt addr ?key flags v = Some (w\<lparr>w_ic := i\<rparr>) \<and> fp_Get ?key (ic_policies i) = Some (policyIntercept, m)"
    if "isConnectionStart flags" "listed6 src dst sp dp (w_ic v)" "v = w \<or> v = on_ic (ic_policies_update (fp_Delete ?key)) w" for v
    using new_flow6_listed [OF assms(3) that(1,2), of e pkt addr] that(3) by (auto simp: on_ic_def)
  have listed: "listed6 src dst sp dp (w_ic (on_ic (ic_policies_update (fp_Delete ?key)) w)) = listed6 src dst sp dp (w_ic w)"
    by (simp add: listed6_def isWhitelisted_def split: option.split)
  consider (decided) m where "fp_Get ?key (ic_policies (w_ic w)) = Some (policyIntercept, m)"
    | (new) "fp_Get ?key (ic_policies (w_ic w)) = None" "isConnectionStart flags" "listed6 src dst sp dp (w_ic w)"
    | (retry) "fp_Get ?key (ic_policies (w_ic w)) = Some (policyUndecided, old)" "isConnectionStart flags" "listed6 src dst sp dp (w_ic w)"
    using assms(4) by auto
  then show ?thesis
  proof cases
    case decided
    then have "handlePacket e pkt addr w = Some (w\<lparr>w_ic := w_ic w\<rparr>)"
      using assms(3) by (simp add: handlePacket_tcp6 [OF assms(1,2)] Let_def)
    with decided show ?thesis by blast
  next
    case new
    then show ?thesis using fresh [of w] by (simp add: handlePacket_tcp6 [OF assms(1,2)] Let_def)
  next
    case retry
    then show ?thesis
      using fresh [of "on_ic (ic_policies_update (fp_Delete ?key)) w"] listed
      by (simp add: handlePacket_tcp6 [OF assms(1,2)] Let_def)
  qed
qed

definition listed_world6 :: world where
  "listed_world6 = on_ic (\<lambda>i. i\<lparr>ic_whitelist := {''a.exe''}, ic_tcp6 := (ic_tcp6 i)\<lparr>t6_flows :=
       [\<lparr>t6_LocalIP = host_a, t6_LocalPort = 50000, t6_RemoteIP = host_b, t6_RemotePort = 443\<rparr> \<mapsto> ''a.exe'']\<rparr>,
     ic_udp6 := (ic_udp6 i)\<lparr>u6_m := [\<lparr>u6_LocalIP = host_a, u6_LocalPort = 50000\<rparr> \<mapsto> ''a.exe'']\<rparr>,
     ic_resolver := (ic_resolver i)\<lparr>rs_udpFlows := [\<lparr>uf_LocalIP = u32_of peer_a, uf_LocalPort = 50000\<rparr> \<mapsto>
       \<lparr>ue_Flow = \<lparr>uf_LocalIP = u32_of peer_a, uf_LocalPort = 50000\<rparr>, ue_PID = 7, ue_Name = ''a.exe''\<rparr>]\<rparr>\<rparr>) idle_world"

lemma listed_world6_whitelist: "isWhitelisted ''a.exe'' (w_ic listed_world6)"
proof -
  have "ToLower ''a.exe'' = ''a.exe''" by code_simp
  then show ?thesis by (simp add: isWhitelisted_def listed_world6_def)
qed

theorem listed_ipv6_blocked_witness:
  "\<exists>i m. handlePacket quiet_env (v6_segment tcpSYN) some_address listed_world6 = Some (listed_world6\<lparr>w_ic := i\<rparr>) \<and>
     fp_Get (key6 host_a host_b 50000 443) (ic_policies i) = Some (policyIntercept, m)"
proof -
  have listed: "listed6 host_a host_b 50000 443 (w_ic listed_world6)"
    using listed_world6_whitelist by (simp add: listed6_def LookupIPv6TCP_def) (simp add: listed_world6_def)
  have none: "fp_Get (key6 host_a host_b 50000 443) (ic_policies (w_ic listed_world6)) = None"
    by (simp add: listed_world6_def)
  have syn: "tcpSYN AND (tcpFIN OR tcpRST) = 0" "isConnectionStart tcpSYN"
    by (simp_all add: tcpACK_def tcpFIN_def tcpRST_def tcpSYN_def isConnectionStart_def)
  show ?thesis
    by (rule listed_ipv6_blocked [OF v6_segment_packet host_b_remote syn(1), where old = 0]) (use listed none syn(2) in blast)
qed



end
