(* ===== verification/Statuses.thy ===== *)
theory Statuses
  imports Interceptor
begin

text \<open>
  \<open>ProcessStatuses\<close> of \<open>windivert.go\<close>, the list of programs with their connections that the status
  page shows: the entries of the resolver's snapshot grouped by process id and status.
\<close>

section \<open>Process statuses\<close>

record ProcessStatus =
  ps_Process :: string
  ps_PID :: u32
  ps_Status :: string
  ps_Connections :: int
  ps_Targets :: "string list"

text \<open>The grouping loop of \<open>Interceptor.ProcessStatuses\<close>: one entry of the snapshot.\<close>

definition status_of :: "Interceptor \<Rightarrow> string \<Rightarrow> string" where
  "status_of i name = (if isWhitelisted name i then ''proxy'' else ''direct'')"

definition group_key :: "u32 \<Rightarrow> string \<Rightarrow> string" where
  "group_key pid status = nat_dec (unat pid) @ ''|'' @ status"

definition entry_target :: "Entry \<Rightarrow> string" where
  "entry_target en = JoinHostPort (IP_String (ipFromUint32 (fl_RemoteIP (en_Flow en)))) (nat_dec (unat (fl_RemotePort (en_Flow en))))"

definition group_entry :: "Interceptor \<Rightarrow> Entry \<Rightarrow> (string \<rightharpoonup> ProcessStatus) \<Rightarrow> (string \<rightharpoonup> ProcessStatus)" where
  "group_entry i en groups =
     (if en_Name en = [] then groups
      else let status = status_of i (en_Name en);
               key = group_key (en_PID en) status;
               g = (case groups key of Some g \<Rightarrow> g
                    | None \<Rightarrow> \<lparr>ps_Process = en_Name en, ps_PID = en_PID en, ps_Status = status, ps_Connections = 0, ps_Targets = []\<rparr>);
               g = g\<lparr>ps_Connections := ps_Connections g + 1\<rparr>;
               target = entry_target en;
               g = (if length (ps_Targets g) < 4 \<and> target \<notin> set (ps_Targets g)
                    then g\<lparr>ps_Targets := ps_Targets g @ [target]\<rparr> else g)
           in groups(key \<mapsto> g))"

text \<open>\<open>flows\<close> and \<open>keys\<close> are the orders in which Go ranges over the resolver's table and the groups.\<close>

definition groups_of :: "Interceptor \<Rightarrow> Entry list \<Rightarrow> (string \<rightharpoonup> ProcessStatus)" where
  "groups_of i entries = foldl (\<lambda>g en. group_entry i en g) Map.empty entries"

definition ProcessStatuses :: "Flow list \<Rightarrow> string list \<Rightarrow> Interceptor \<Rightarrow> ProcessStatus list" where
  "ProcessStatuses flows keys i =
     (let groups = groups_of i (Snapshot flows (ic_resolver i)) in List.map_filter groups keys)"

section \<open>Groups\<close>

lemma group_key_inject: "group_key p s = group_key q t \<longleftrightarrow> p = q \<and> s = t"
proof -
  have bar: "CHR ''|'' \<notin> set (nat_dec n)" for n
    by (rule digit_not_mem) (simp add: is_digit_def)
  have "xs @ CHR ''|'' # us = ys @ CHR ''|'' # vs \<longleftrightarrow> xs = ys \<and> us = vs"
    if "CHR ''|'' \<notin> set xs" "CHR ''|'' \<notin> set ys" for xs ys us vs
    using that
  proof (induction xs arbitrary: ys)
    case Nil
    then show ?case by (cases ys) auto
  next
    case (Cons x xs)
    then show ?case by (cases ys) auto
  qed
  from this [OF bar bar] show ?thesis
    by (auto simp: group_key_def word_unat_eq_iff)
qed

text \<open>
  The entries of one group, and what the loop has made of them: the name of the first, their number, and
  their different targets, at most four; all of them when there are fewer.
\<close>

definition in_group :: "Interceptor \<Rightarrow> u32 \<Rightarrow> string \<Rightarrow> Entry \<Rightarrow> bool" where
  "in_group i pid st en \<longleftrightarrow> en_Name en \<noteq> [] \<and> en_PID en = pid \<and> status_of i (en_Name en) = st"

text \<open>The remote end of a connection as it is shown: the dotted address of the table, low byte first, and the port.\<close>

definition remote_end :: "Entry \<Rightarrow> string" where
  "remote_end en = (let v = fl_RemoteIP (en_Flow en)
     in dotted [ucast v, ucast (drop_bit 8 v), ucast (drop_bit 16 v), ucast (drop_bit 24 v)] @ CHR '':'' # nat_dec (unat (fl_RemotePort (en_Flow en))))"

lemma entry_target_remote: "entry_target en = remote_end en"
proof -
  have "CHR '':'' \<notin> set (dotted [a, b, c, d])" for a b c d
    using dotted_chars [of "CHR '':''" a b c d] by (auto simp: is_digit_def)
  then show ?thesis
    by (simp add: entry_target_def remote_end_def ipFromUint32_def JoinHostPort_def Let_def)
qed

definition group_shows :: "ProcessStatus \<Rightarrow> Entry list \<Rightarrow> bool" where
  "group_shows g es \<longleftrightarrow> es \<noteq> [] \<and> ps_Process g = en_Name (hd es) \<and> ps_Connections g = int (length es) \<and>
     length (ps_Targets g) \<le> 4 \<and> distinct (ps_Targets g) \<and> set (ps_Targets g) \<subseteq> remote_end ` set es \<and>
     (length (ps_Targets g) < 4 \<longrightarrow> set (ps_Targets g) = remote_end ` set es)"

definition group_ok :: "Interceptor \<Rightarrow> Entry list \<Rightarrow> u32 \<Rightarrow> string \<Rightarrow> ProcessStatus option \<Rightarrow> bool" where
  "group_ok i entries pid st g = (let es = filter (in_group i pid st) entries in
     case g of None \<Rightarrow> es = []
     | Some g \<Rightarrow> ps_PID g = pid \<and> ps_Status g = st \<and> group_shows g es)"

definition groups_ok :: "Interceptor \<Rightarrow> Entry list \<Rightarrow> (string \<rightharpoonup> ProcessStatus) \<Rightarrow> bool" where
  "groups_ok i entries groups \<longleftrightarrow> (\<forall>pid st. group_ok i entries pid st (groups (group_key pid st))) \<and>
     (\<forall>k. groups k \<noteq> None \<longrightarrow> (\<exists>pid st. k = group_key pid st))"

lemma group_entry_other: "\<not> in_group i pid st en \<Longrightarrow> group_entry i en groups (group_key pid st) = groups (group_key pid st)"
  by (auto simp: group_entry_def in_group_def Let_def group_key_inject)

lemma group_entry_own:
  assumes "in_group i pid st en" "group_ok i entries pid st (groups (group_key pid st))"
  shows "group_ok i (entries @ [en]) pid st (group_entry i en groups (group_key pid st))"
proof -
  have en: "en_Name en \<noteq> []" "en_PID en = pid" "status_of i (en_Name en) = st"
    using assms(1) by (simp_all add: in_group_def)
  show ?thesis
    using assms unfolding group_entry_def Let_def en
    by (cases "groups (group_key pid st)") (auto simp: group_ok_def group_shows_def en entry_target_remote Let_def hd_append)
qed

lemma groups_ok_entry: "groups_ok i entries groups \<Longrightarrow> groups_ok i (entries @ [en]) (group_entry i en groups)"
  unfolding groups_ok_def
proof (elim conjE, intro conjI allI impI)
  fix pid st assume ok: "\<forall>pid st. group_ok i entries pid st (groups (group_key pid st))"
  show "group_ok i (entries @ [en]) pid st (group_entry i en groups (group_key pid st))"
  proof (cases "in_group i pid st en")
    case True
    with ok show ?thesis by (blast intro: group_entry_own)
  next
    case False
    then show ?thesis
      using ok by (simp add: group_entry_other group_ok_def)
  qed
next
  fix k assume "\<forall>k. groups k \<noteq> None \<longrightarrow> (\<exists>pid st. k = group_key pid st)" "group_entry i en groups k \<noteq> None"
  then show "\<exists>pid st. k = group_key pid st"
    by (auto simp: group_entry_def Let_def split: if_splits)
qed

lemma groups_ok_groups_of: "groups_ok i entries (groups_of i entries)"
proof (induction entries rule: rev_induct)
  case Nil
  show ?case by (simp add: groups_ok_def groups_of_def group_ok_def)
next
  case (snoc en entries)
  then show ?case
    using groups_ok_entry [OF snoc] by (simp add: groups_of_def)
qed

text \<open>C26. The status page shows exactly the groups of the resolver's named entries: whatever the order of the
  table and of the groups, every connection of a named process is in the one group of its process id
  and status, no other group is shown, and each shows the name of its first entry, the number of its connections, and up to
  four different remote addresses of its own connections, all of them when there are fewer than four.\<close>

theorem process_statuses_exact:
  assumes "set keys = dom (groups_of i (Snapshot flows (ic_resolver i)))" "distinct keys"
  shows "let entries = Snapshot flows (ic_resolver i); out = ProcessStatuses flows keys i in
    (\<forall>g\<in>set out. group_shows g (filter (in_group i (ps_PID g) (ps_Status g)) entries)) \<and>
    (\<forall>en\<in>set entries. en_Name en \<noteq> [] \<longrightarrow>
       (\<exists>!g. g \<in> set out \<and> ps_PID g = en_PID en \<and> ps_Status g = status_of i (en_Name en)))"
proof -
  let ?entries = "Snapshot flows (ic_resolver i)"
  let ?gs = "groups_of i ?entries" and ?out = "ProcessStatuses flows keys i"
  have ok: "groups_ok i ?entries ?gs"
    by (rule groups_ok_groups_of)
  have out: "g \<in> set ?out \<longleftrightarrow> (\<exists>k. ?gs k = Some g)" for g
    using assms(1) by (force simp: ProcessStatuses_def List.map_filter_def Let_def dom_def)
  have key: "\<exists>k. ?gs k = Some g \<Longrightarrow> ?gs (group_key (ps_PID g) (ps_Status g)) = Some g \<and>
      group_ok i ?entries (ps_PID g) (ps_Status g) (Some g)" for g
  proof -
    assume "\<exists>k. ?gs k = Some g"
    then obtain pid st where "?gs (group_key pid st) = Some g"
      using ok unfolding groups_ok_def by (metis option.discI)
    moreover from this have "group_ok i ?entries pid st (Some g)"
      using ok unfolding groups_ok_def by metis
    ultimately show ?thesis
      by (auto simp: group_ok_def Let_def)
  qed
  have "\<exists>!g. g \<in> set ?out \<and> ps_PID g = en_PID en \<and> ps_Status g = status_of i (en_Name en)"
    if en: "en \<in> set ?entries" "en_Name en \<noteq> []" for en
  proof -
    let ?k = "group_key (en_PID en) (status_of i (en_Name en))"
    have g: "group_ok i ?entries (en_PID en) (status_of i (en_Name en)) (?gs ?k)"
      using ok by (simp add: groups_ok_def)
    have "in_group i (en_PID en) (status_of i (en_Name en)) en"
      using en by (simp add: in_group_def)
    then obtain g where "?gs ?k = Some g"
      using g en(1) by (cases "?gs ?k") (auto simp: group_ok_def Let_def filter_empty_conv)
    moreover from this g have "ps_PID g = en_PID en" "ps_Status g = status_of i (en_Name en)"
      by (simp_all add: group_ok_def Let_def)
    ultimately show ?thesis
      using key unfolding out by (intro ex1I [of _ g]) (auto, metis option.inject)
  qed
  moreover have "\<forall>g\<in>set ?out. group_shows g (filter (in_group i (ps_PID g) (ps_Status g)) ?entries)"
  proof
    fix g assume "g \<in> set ?out"
    from key [OF this [unfolded out]]
    show "group_shows g (filter (in_group i (ps_PID g) (ps_Status g)) ?entries)"
      by (simp add: group_ok_def Let_def)
  qed
  ultimately show ?thesis
    by (simp add: Let_def)
qed

definition status_flow :: Flow where
  "status_flow = \<lparr>fl_LocalIP = 1, fl_LocalPort = 50000, fl_RemoteIP = 0x04030201, fl_RemotePort = 443\<rparr>"

definition status_interceptor :: Interceptor where
  "status_interceptor = (NewInterceptor (NewConnTracker 15 30 7893) [] 0 7893 [''a.exe''])
     \<lparr>ic_resolver := NewResolver\<lparr>rs_flows := [status_flow \<mapsto> \<lparr>en_Flow = status_flow, en_PID = 7, en_Name = ''A.exe''\<rparr>]\<rparr>\<rparr>"

lemma process_statuses_exact_witness:
  "\<exists>g. g \<in> set (ProcessStatuses [status_flow] [group_key 7 ''proxy''] status_interceptor) \<and> ps_PID g = 7 \<and> ps_Status g = ''proxy'' \<and>
     ps_Connections g = 1 \<and> set (ps_Targets g) = {''1.2.3.4:443''}"
proof -
  let ?en = "\<lparr>en_Flow = status_flow, en_PID = 7, en_Name = ''A.exe''\<rparr>"
  let ?i = "status_interceptor"
  have snap: "Snapshot [status_flow] (ic_resolver ?i) = [?en]"
    by (simp add: Snapshot_def status_interceptor_def List.map_filter_def)
  have proxy: "status_of ?i ''A.exe'' = ''proxy''" and target: "remote_end ?en = ''1.2.3.4:443''"
    by code_simp+
  have grouped: "filter (in_group ?i 7 ''proxy'') [?en] = [?en]"
    by (simp add: in_group_def proxy)
  have "dom (groups_of ?i [?en]) = {group_key 7 ''proxy''}"
    by (simp add: groups_of_def group_entry_def proxy Let_def)
  then have exact: "let out = ProcessStatuses [status_flow] [group_key 7 ''proxy''] ?i in
    (\<forall>g\<in>set out. group_shows g (filter (in_group ?i (ps_PID g) (ps_Status g)) [?en])) \<and>
    (\<exists>!g. g \<in> set out \<and> ps_PID g = 7 \<and> ps_Status g = ''proxy'')"
    using process_statuses_exact [of "[group_key 7 ''proxy'']" ?i "[status_flow]"] unfolding snap
    by (simp add: Let_def proxy)
  then have shows_all: "\<forall>g\<in>set (ProcessStatuses [status_flow] [group_key 7 ''proxy''] ?i). group_shows g (filter (in_group ?i (ps_PID g) (ps_Status g)) [?en])"
    and "\<exists>!g. g \<in> set (ProcessStatuses [status_flow] [group_key 7 ''proxy''] ?i) \<and> ps_PID g = 7 \<and> ps_Status g = ''proxy''"
    unfolding Let_def by blast+
  then obtain g where g: "g \<in> set (ProcessStatuses [status_flow] [group_key 7 ''proxy''] ?i)" "ps_PID g = 7" "ps_Status g = ''proxy''"
    by blast
  have "group_shows g [?en]"
    using bspec [OF shows_all g(1)] unfolding g(2,3) grouped .
  moreover from this have "length (ps_Targets g) \<noteq> 4"
    using distinct_card [of "ps_Targets g"] card_mono [of "{''1.2.3.4:443''}" "set (ps_Targets g)"] target
    by (auto simp: group_shows_def)
  ultimately show ?thesis
    using g(1-3) target by (auto simp: group_shows_def)
qed

end
