(* ===== verification/Divert.thy ===== *)
theory Divert
  imports Interceptor
begin

text \<open>
  The driver's service, files and DLL (\<open>windivert.go\<close>): removing a left-over WinDivert service, putting
  the embedded DLL and driver file into the working directory, loading the DLL once, opening and
  closing handles, the preflight check, and the clean-up at start and shutdown. What Windows answers
  to each call is a parameter; the calls to the service manager are returned in order, an attempt to
  open something with its success.
\<close>

section \<open>Removing a service\<close>

datatype svc_call = OpenManager bool | CloseManager | OpenService string bool | CloseService
  | StopService | QueryStatus | DeleteService | Sleep int

text \<open>
  Does the manager open; does the i-th \<open>OpenService\<close> succeed; what the i-th status query says,
  \<open>None\<close> for an error, otherwise whether the service has stopped.
\<close>

record service_env =
  sc_manager :: bool
  sc_opens :: "nat \<Rightarrow> bool"
  sc_query :: "nat \<Rightarrow> bool option"

text \<open>The two polling loops, with \<open>n\<close> rounds left and the number \<open>i\<close> of the next call.\<close>

primrec wait_stopped :: "(nat \<Rightarrow> bool option) \<Rightarrow> nat \<Rightarrow> nat \<Rightarrow> svc_call list" where
  "wait_stopped query i 0 = []"
| "wait_stopped query i (Suc n) = [Sleep (100 * millisecond), QueryStatus] @
     (if query i = Some False then wait_stopped query (i + 1) n else [])"

primrec wait_gone :: "string \<Rightarrow> (nat \<Rightarrow> bool) \<Rightarrow> nat \<Rightarrow> nat \<Rightarrow> svc_call list" where
  "wait_gone name opens i 0 = []"
| "wait_gone name opens i (Suc n) = OpenService name (opens i) #
     (if opens i then [CloseService, Sleep (500 * millisecond)] @ wait_gone name opens (i + 1) n else [])"

definition stopAndRemoveService :: "service_env \<Rightarrow> string \<Rightarrow> svc_call list" where
  "stopAndRemoveService env name = OpenManager (sc_manager env) #
     (if \<not> sc_manager env then []
      else OpenService name (sc_opens env 0) #
        (if \<not> sc_opens env 0 then []
         else [StopService] @ wait_stopped (sc_query env) 0 50 @ [DeleteService, CloseService]
              @ wait_gone name (sc_opens env) 1 30)
        @ [CloseManager])"

definition stopAndRemoveWinDivertDriver :: "(string \<Rightarrow> service_env) \<Rightarrow> svc_call list" where
  "stopAndRemoveWinDivertDriver svc =
     stopAndRemoveService (svc ''WinDivert'') ''WinDivert'' @ stopAndRemoveService (svc ''WinDivert14'') ''WinDivert14''"

section \<open>Files\<close>

text \<open>
  A failed \<open>os.WriteFile\<close> has not opened the file, or has written a part of the data (all of it, when
  only the close failed). \<open>fs_readable\<close> tells apart the first and the second look at a file.
\<close>

datatype write_result = Written | NotOpened | Partial nat

record fs_env =
  fs_cwd :: "string option"
  fs_readable :: "nat \<Rightarrow> string \<Rightarrow> bool"
  fs_write :: "string \<Rightarrow> write_result"
  fs_move_ok :: bool
  fs_remove_ok :: "string \<Rightarrow> bool"

type_synonym files = "string \<rightharpoonup> byte list"

definition write_file :: "fs_env \<Rightarrow> string \<Rightarrow> byte list \<Rightarrow> files \<Rightarrow> bool \<times> files" where
  "write_file env path data f = (case fs_write env path of
       Written \<Rightarrow> (True, f(path \<mapsto> data))
     | NotOpened \<Rightarrow> (False, f)
     | Partial n \<Rightarrow> (False, f(path \<mapsto> take n data)))"

definition remove_file :: "fs_env \<Rightarrow> string \<Rightarrow> files \<Rightarrow> files" where
  "remove_file env path f = (if fs_remove_ok env path then f(path := None) else f)"

text \<open>\<open>filepath.Join(cwd, name)\<close> for a clean \<open>cwd\<close>, which is \<open>.\<close> when \<open>Getwd\<close> fails.\<close>

definition in_cwd :: "fs_env \<Rightarrow> string \<Rightarrow> string" where
  "in_cwd env name = (case fs_cwd env of None \<Rightarrow> name
     | Some cwd \<Rightarrow> if cwd \<noteq> [] \<and> last cwd = CHR 0x5C then cwd @ name else cwd @ CHR 0x5C # name)"

definition fileContentMatch :: "bool \<Rightarrow> string \<Rightarrow> byte list \<Rightarrow> files \<Rightarrow> bool" where
  "fileContentMatch can_read path want f = (case f path of None \<Rightarrow> False
     | Some data \<Rightarrow>
         if \<not> can_read then False
         else if length data \<noteq> length want then False
         else list_all (\<lambda>i. data ! i = want ! i) [0..<length data])"

datatype extract_error = TempNotWritten | ReplaceFailed

definition extractSysFile :: "fs_env \<Rightarrow> string \<Rightarrow> byte list \<Rightarrow> files \<Rightarrow> extract_error option \<times> files" where
  "extractSysFile env path data f =
     (let (ok, f) = write_file env path data f in
      if ok then (None, f)
      else let tmp = path @ ''.tmp''; (ok, f) = write_file env tmp data f in
        if \<not> ok then (Some TempNotWritten, f)
        else if fs_move_ok env then (None, f(path := f tmp, tmp := None))
        else (Some ReplaceFailed, remove_file env tmp f))"

section \<open>The DLL\<close>

text \<open>
  A loaded DLL with the procedures found in it, and the package's variables with what they act on; \<open>dv_opened\<close>
  records every handle that \<open>WinDivertOpen\<close> has returned.
\<close>

record winDivertDLL =
  dll_image :: "byte list"
  procOpen :: bool
  procRecv :: bool
  procRecvEx :: bool
  procSend :: bool
  procSendEx :: bool
  procClose :: bool
  procCalcChecks :: bool

datatype load_error = DLLNotWritten | SysNotWritten extract_error | LoadFailed | MissingProc string

record divert =
  dv_once :: bool
  wdDLL :: "winDivertDLL option"
  wdErr :: "load_error option"
  dv_files :: files
  dv_calls :: "svc_call list"
  dv_opened :: "nat list"

text \<open>\<open>le_dll\<close> and \<open>le_sys\<close> are the embedded files; \<open>le_loads\<close> says whether Windows loads a file of these
  bytes, \<open>le_exports\<close> whether a procedure is found in it.\<close>

record load_env =
  le_svc :: "string \<Rightarrow> service_env"
  le_fs :: fs_env
  le_dll :: "byte list"
  le_sys :: "byte list"
  le_loads :: "byte list \<Rightarrow> bool"
  le_exports :: "string \<Rightarrow> bool"

text \<open>The procedures that \<open>find\<close> looks up, in order; a missing one sets \<open>wdErr\<close>, the last one stays.\<close>

definition required_procs :: "string list" where
  "required_procs = [''WinDivertOpen'', ''WinDivertRecv'', ''WinDivertSend'', ''WinDivertClose'', ''WinDivertHelperCalcChecksums'']"

definition load_procs :: "(string \<Rightarrow> bool) \<Rightarrow> byte list \<Rightarrow> winDivertDLL \<times> load_error option" where
  "load_procs exports img =
     (\<lparr>dll_image = img, procOpen = exports ''WinDivertOpen'', procRecv = exports ''WinDivertRecv'',
       procRecvEx = exports ''WinDivertRecvEx'', procSend = exports ''WinDivertSend'', procSendEx = exports ''WinDivertSendEx'',
       procClose = exports ''WinDivertClose'', procCalcChecks = exports ''WinDivertHelperCalcChecksums''\<rparr>,
      fold (\<lambda>n err. if exports n then err else Some (MissingProc n)) required_procs None)"

text \<open>Both files are written unless they are there already; a driver file that cannot be replaced may
  stay when it has the right bytes.\<close>

definition place_dll :: "load_env \<Rightarrow> files \<Rightarrow> bool \<times> files" where
  "place_dll env f = (let fs = le_fs env; path = in_cwd fs ''WinDivert.dll'' in
     if fileContentMatch (fs_readable fs 0 path) path (le_dll env) f then (True, f) else write_file fs path (le_dll env) f)"

definition place_sys :: "load_env \<Rightarrow> files \<Rightarrow> extract_error option \<times> files" where
  "place_sys env f = (let fs = le_fs env; path = in_cwd fs ''WinDivert64.sys'' in
     if fileContentMatch (fs_readable fs 0 path) path (le_sys env) f then (None, f)
     else let (err, f) = extractSysFile fs path (le_sys env) f in
       if err \<noteq> None \<and> \<not> fileContentMatch (fs_readable fs 1 path) path (le_sys env) f then (err, f) else (None, f))"

definition prepare_files :: "load_env \<Rightarrow> files \<Rightarrow> load_error option \<times> files" where
  "prepare_files env f = (let (ok, f) = place_dll env f in
     if \<not> ok then (Some DLLNotWritten, f)
     else let (err, f) = place_sys env f in (map_option SysNotWritten err, f))"

text \<open>The body of \<open>wdOnce.Do\<close>.\<close>

definition load_once :: "load_env \<Rightarrow> divert \<Rightarrow> divert" where
  "load_once env s =
     (let (err, f) = prepare_files env (dv_files s);
          s = s\<lparr>dv_once := True, dv_calls := dv_calls s @ stopAndRemoveWinDivertDriver (le_svc env), dv_files := f\<rparr>
      in case err of Some e \<Rightarrow> s\<lparr>wdErr := Some e\<rparr>
         | None \<Rightarrow>
            (case f (in_cwd (le_fs env) ''WinDivert.dll'') of None \<Rightarrow> s\<lparr>wdErr := Some LoadFailed\<rparr>
             | Some img \<Rightarrow>
                 if le_loads env img
                 then (let (dll, e) = load_procs (le_exports env) img in s\<lparr>wdDLL := Some dll, wdErr := e\<rparr>)
                 else s\<lparr>wdErr := Some LoadFailed\<rparr>))"

definition loadWinDivert :: "load_env \<Rightarrow> divert \<Rightarrow> (winDivertDLL option \<times> load_error option) \<times> divert" where
  "loadWinDivert env s = (let s = (if dv_once s then s else load_once env s) in ((wdDLL s, wdErr s), s))"

section \<open>Handles\<close>

text \<open>An open handle, or \<open>None\<close> for \<open>InvalidHandle\<close>; a nil procedure or DLL makes its call panic.\<close>

record winDivertHandle =
  wh_handle :: "nat option"
  wh_dll :: winDivertDLL

datatype open_error = NotLoaded load_error | BadFilter | OpenFailed

definition wdOpen :: "load_env \<Rightarrow> (string \<Rightarrow> nat option) \<Rightarrow> string \<Rightarrow> divert \<Rightarrow> ((open_error + winDivertHandle) \<times> divert) option" where
  "wdOpen env opened filt s = (case loadWinDivert env s of
       ((dll, Some err), s) \<Rightarrow> Some (Inl (NotLoaded err), s)
     | ((dll, None), s) \<Rightarrow>
         if CHR 0x00 \<in> set filt then Some (Inl BadFilter, s)
         else do {
           d \<leftarrow> dll;
           if \<not> procOpen d then None
           else case opened filt of
             None \<Rightarrow> Some (Inl OpenFailed, s)
           | Some h \<Rightarrow> Some (Inr \<lparr>wh_handle = Some h, wh_dll = d\<rparr>, s\<lparr>dv_opened := dv_opened s @ [h]\<rparr>) })"

text \<open>The handles the call to \<open>WinDivertClose\<close> closes, and the handle afterwards.\<close>

definition wd_Close :: "winDivertHandle \<Rightarrow> (nat list \<times> winDivertHandle) option" where
  "wd_Close h = (case wh_handle h of None \<Rightarrow> Some ([], h)
     | Some n \<Rightarrow> if procClose (wh_dll h) then Some ([n], h\<lparr>wh_handle := None\<rparr>) else None)"

text \<open>The process token, if it can be opened, tells whether it is elevated.\<close>

definition isProcessElevated :: "bool option \<Rightarrow> bool" where
  "isProcessElevated token = (case token of None \<Rightarrow> False | Some elevated \<Rightarrow> elevated)"

datatype preflight_error = NotElevated | DriverFailed open_error

definition preflight :: "bool \<Rightarrow> load_env \<Rightarrow> (string \<Rightarrow> nat option) \<Rightarrow> Interceptor \<Rightarrow> divert \<Rightarrow>
    (preflight_error option \<times> nat list \<times> divert) option" where
  "preflight elevated env opened i s =
     (if \<not> elevated then Some (Some NotElevated, [], s)
      else do {
        (r, s) \<leftarrow> wdOpen env opened (buildFilter i) s;
        case r of
          Inl err \<Rightarrow> Some (Some (DriverFailed err), [], s)
        | Inr h \<Rightarrow> do { (closed, _) \<leftarrow> wd_Close h; Some (None, closed, s) } })"

section \<open>Clean-up\<close>

definition divert_files :: "string list" where
  "divert_files = [''WinDivert.dll'', ''WinDivert64.sys'', ''WinDivert64.sys.tmp'']"

definition CleanUp_Dependencies :: "load_env \<Rightarrow> divert \<Rightarrow> divert" where
  "CleanUp_Dependencies env s = s\<lparr>dv_calls := dv_calls s @ stopAndRemoveWinDivertDriver (le_svc env),
     dv_files := fold (\<lambda>n. remove_file (le_fs env) (in_cwd (le_fs env) n)) divert_files (dv_files s)\<rparr>"

definition CleanUp_OnShutdown :: "load_env \<Rightarrow> divert \<Rightarrow> divert" where
  "CleanUp_OnShutdown env s = s\<lparr>wdDLL := None, dv_calls := dv_calls s @ stopAndRemoveWinDivertDriver (le_svc env),
     dv_files := (if fs_cwd (le_fs env) = None then dv_files s
       else fold (\<lambda>n. remove_file (le_fs env) (in_cwd (le_fs env) n)) divert_files (dv_files s))\<rparr>"

section \<open>The service is removed in bounded time\<close>

primrec sleep_of :: "svc_call \<Rightarrow> int" where
  "sleep_of (OpenManager b) = 0" | "sleep_of CloseManager = 0" | "sleep_of (OpenService n b) = 0"
| "sleep_of CloseService = 0" | "sleep_of StopService = 0" | "sleep_of QueryStatus = 0"
| "sleep_of DeleteService = 0" | "sleep_of (Sleep t) = t"

definition slept :: "svc_call list \<Rightarrow> int" where
  "slept calls = sum_list (map sleep_of calls)"

text \<open>Handles opened but not closed: of services, and of the manager.\<close>

definition open_services :: "svc_call list \<Rightarrow> int" where
  "open_services calls = int (length (filter (\<lambda>c. \<exists>n. c = OpenService n True) calls)) - int (count_list calls CloseService)"

definition open_managers :: "svc_call list \<Rightarrow> int" where
  "open_managers calls = int (count_list calls (OpenManager True)) - int (count_list calls CloseManager)"

lemma calls_simps [simp]:
  "slept [] = 0" "slept (c # cs) = sleep_of c + slept cs" "slept (cs @ ds) = slept cs + slept ds"
  "open_services [] = 0" "open_services (cs @ ds) = open_services cs + open_services ds"
  "open_services (OpenService n b # cs) = (if b then 1 else 0) + open_services cs"
  "open_services (CloseService # cs) = open_services cs - 1"
  "c \<noteq> CloseService \<Longrightarrow> (\<And>n. c \<noteq> OpenService n True) \<Longrightarrow> open_services (c # cs) = open_services cs"
  "open_managers [] = 0" "open_managers (cs @ ds) = open_managers cs + open_managers ds"
  "open_managers (OpenManager b # cs) = (if b then 1 else 0) + open_managers cs"
  "open_managers (CloseManager # cs) = open_managers cs - 1"
  "c \<noteq> CloseManager \<Longrightarrow> c \<noteq> OpenManager True \<Longrightarrow> open_managers (c # cs) = open_managers cs"
  by (auto simp: slept_def open_services_def open_managers_def)

lemma wait_stopped_bounds:
  "slept (wait_stopped query i n) \<le> int n * (100 * millisecond) \<and> length (wait_stopped query i n) \<le> 2 * n \<and>
   open_services (wait_stopped query i n) = 0 \<and> open_managers (wait_stopped query i n) = 0"
proof (induction n arbitrary: i)
  case (Suc n)
  have "0 \<le> int n * (100 * millisecond)" by simp
  with Suc [of "i + 1"] show ?case by (auto simp: algebra_simps)
qed simp

lemma wait_gone_bounds:
  "slept (wait_gone name opens i n) \<le> int n * (500 * millisecond) \<and> length (wait_gone name opens i n) \<le> 3 * n \<and>
   open_services (wait_gone name opens i n) = 0 \<and> open_managers (wait_gone name opens i n) = 0"
proof (induction n arbitrary: i)
  case (Suc n)
  have "0 \<le> int n * (500 * millisecond)" by simp
  with Suc [of "i + 1"] show ?case by (auto simp: algebra_simps)
qed simp

text \<open>C40. Removing the driver's services ends, whatever the service manager answers, also when a service
  never stops or never disappears: at most 196 calls and 20 seconds of waiting for a service, so twice as much for the
  two names; every handle that was opened is closed, and a service that could be opened is told to stop before it is
  deleted.\<close>

theorem service_removal_bounded:
  "slept (stopAndRemoveService env name) \<le> 20 * second \<and> length (stopAndRemoveService env name) \<le> 196 \<and>
   slept (stopAndRemoveWinDivertDriver svc) \<le> 2 * (20 * second) \<and> length (stopAndRemoveWinDivertDriver svc) \<le> 2 * 196 \<and>
   open_services (stopAndRemoveService env name) = 0 \<and> open_managers (stopAndRemoveService env name) = 0 \<and>
   (sc_manager env \<and> sc_opens env 0 \<longleftrightarrow> DeleteService \<in> set (stopAndRemoveService env name)) \<and>
   (DeleteService \<in> set (stopAndRemoveService env name) \<longleftrightarrow>
      (\<exists>rest. stopAndRemoveService env name = [OpenManager True, OpenService name True, StopService] @ rest))"
proof -
  have one: "slept (stopAndRemoveService env name) \<le> 20 * second \<and> length (stopAndRemoveService env name) \<le> 196 \<and>
      open_services (stopAndRemoveService env name) = 0 \<and> open_managers (stopAndRemoveService env name) = 0" for env name
    using wait_stopped_bounds [of "sc_query env" 0 50] wait_gone_bounds [of name "sc_opens env" 1 30]
    by (auto simp: stopAndRemoveService_def)
  have "sc_manager env \<and> sc_opens env 0 \<longleftrightarrow> DeleteService \<in> set (stopAndRemoveService env name)"
    by (auto simp: stopAndRemoveService_def)
  moreover have "sc_manager env \<and> sc_opens env 0 \<longleftrightarrow>
      (\<exists>rest. stopAndRemoveService env name = [OpenManager True, OpenService name True, StopService] @ rest)"
    by (auto simp: stopAndRemoveService_def)
  ultimately show ?thesis
    using one [of "svc ''WinDivert''" "''WinDivert''"] one [of "svc ''WinDivert14''" "''WinDivert14''"] one [of env name]
    by (simp add: stopAndRemoveWinDivertDriver_def)
qed

section \<open>What is loaded\<close>

lemma in_cwd_inject [simp]: "in_cwd env n = in_cwd env m \<longleftrightarrow> n = m"
  by (simp add: in_cwd_def split: option.split)

lemma in_cwd_tmp [simp]: "in_cwd env n @ t = in_cwd env m \<longleftrightarrow> n @ t = m"
  by (auto simp: in_cwd_def split: option.split)

lemma fileContentMatch_iff: "fileContentMatch can_read path want f \<longleftrightarrow> can_read \<and> f path = Some want"
  by (auto simp: fileContentMatch_def list_all_iff intro: nth_equalityI split: option.split)

lemma write_file_ok: "write_file env path data f = (True, f') \<Longrightarrow> f' = f(path \<mapsto> data)"
  by (simp add: write_file_def split: write_result.splits)

lemma write_file_other: "write_file env path data f = (ok, f') \<Longrightarrow> p \<noteq> path \<Longrightarrow> f' p = f p"
  by (auto simp: write_file_def split: write_result.splits)

lemma extractSysFile_ok:
  assumes "extractSysFile env path data f = (None, f')"
  shows "f' path = Some data"
proof (cases "fst (write_file env path data f)")
  case True
  then show ?thesis
    using assms write_file_ok [of env path data f] by (cases "write_file env path data f") (auto simp: extractSysFile_def)
next
  case False
  then obtain g where g: "write_file env path data f = (False, g)"
    by (cases "write_file env path data f") auto
  obtain ok h where h: "write_file env (path @ ''.tmp'') data g = (ok, h)" by fastforce
  show ?thesis
    using assms g h write_file_ok [of env "path @ ''.tmp''" data g h]
    by (auto simp: extractSysFile_def Let_def split: if_splits)
qed

lemma extractSysFile_other:
  assumes "extractSysFile env path data f = (err, f')" "p \<noteq> path" "p \<noteq> path @ ''.tmp''"
  shows "f' p = f p"
proof -
  obtain ok g where g: "write_file env path data f = (ok, g)" by fastforce
  obtain ok' h where h: "write_file env (path @ ''.tmp'') data g = (ok', h)" by fastforce
  have "g p = f p" "h p = g p"
    using write_file_other [OF g assms(2)] write_file_other [OF h assms(3)] by simp_all
  then show ?thesis
    using assms g h by (auto simp: extractSysFile_def remove_file_def Let_def split: if_splits)
qed

lemma load_procs_ok:
  "load_procs exports img = (dll, None) \<Longrightarrow> dll_image dll = img \<and> procOpen dll \<and> procRecv dll \<and> procSend dll \<and>
     procClose dll \<and> procCalcChecks dll"
  by (auto simp: load_procs_def required_procs_def split: if_splits)

text \<open>The state before the first use.\<close>

definition unloaded :: "divert \<Rightarrow> bool" where
  "unloaded s \<longleftrightarrow> \<not> dv_once s \<and> wdDLL s = None \<and> wdErr s = None"

text \<open>What a successful load leaves: the embedded bytes in both files and in the DLL, with all procedures.\<close>

definition loaded :: "load_env \<Rightarrow> divert \<Rightarrow> winDivertDLL \<Rightarrow> bool" where
  "loaded env s dll \<longleftrightarrow> dll_image dll = le_dll env \<and> procOpen dll \<and> procRecv dll \<and> procSend dll \<and> procClose dll \<and>
     procCalcChecks dll \<and> dv_files s (in_cwd (le_fs env) ''WinDivert.dll'') = Some (le_dll env) \<and>
     dv_files s (in_cwd (le_fs env) ''WinDivert64.sys'') = Some (le_sys env)"

lemma prepare_files_ok:
  assumes "prepare_files env f = (None, g)"
  shows "g (in_cwd (le_fs env) ''WinDivert.dll'') = Some (le_dll env) \<and> g (in_cwd (le_fs env) ''WinDivert64.sys'') = Some (le_sys env)"
proof -
  let ?fs = "le_fs env" and ?d = "in_cwd (le_fs env) ''WinDivert.dll''" and ?s = "in_cwd (le_fs env) ''WinDivert64.sys''"
  obtain ok h where h: "place_dll env f = (ok, h)" by fastforce
  then have ok: "ok" and sys: "place_sys env h = (None, g)"
    using assms by (auto simp: prepare_files_def split: if_splits prod.splits)
  have d: "h ?d = Some (le_dll env)"
    using h ok write_file_ok [of ?fs ?d "le_dll env" f h] by (auto simp: place_dll_def fileContentMatch_iff Let_def split: if_splits)
  obtain err k where k: "extractSysFile ?fs ?s (le_sys env) h = (err, k)" by fastforce
  have "?s @ ''.tmp'' \<noteq> ?d" by simp
  then have "k ?d = h ?d"
    using extractSysFile_other [OF k, of ?d] by (simp add: not_sym)
  then show ?thesis
    using sys k d extractSysFile_ok [of ?fs ?s "le_sys env" h k]
    by (auto simp: place_sys_def fileContentMatch_iff Let_def split: if_splits)
qed

lemma load_once_opened [simp]: "dv_opened (load_once env s) = dv_opened s"
proof -
  obtain err f where "prepare_files env (dv_files s) = (err, f)" by fastforce
  then show ?thesis by (simp add: load_once_def Let_def split: option.split prod.split)
qed

text \<open>The package's variables after a successful load.\<close>

definition ready :: "load_env \<Rightarrow> divert \<Rightarrow> winDivertDLL \<Rightarrow> bool" where
  "ready env s dll \<longleftrightarrow> dv_once s \<and> wdDLL s = Some dll \<and> wdErr s = None \<and> loaded env s dll"

lemma ready_opened [simp]: "ready env (s\<lparr>dv_opened := hs\<rparr>) dll = ready env s dll"
  by (simp add: ready_def loaded_def)

lemma load_once_cases:
  assumes "unloaded s"
  shows "dv_once (load_once env s) \<and> (wdErr (load_once env s) \<noteq> None \<or> (\<exists>dll. ready env (load_once env s) dll))"
proof -
  obtain err f where p: "prepare_files env (dv_files s) = (err, f)" by fastforce
  show ?thesis
  proof (cases err)
    case None
    obtain dll e where l: "load_procs (le_exports env) (le_dll env) = (dll, e)" by fastforce
    show ?thesis
      using prepare_files_ok [of env "dv_files s" f] p None l load_procs_ok [of "le_exports env" "le_dll env" dll] assms
      by (cases e) (simp_all add: load_once_def loaded_def ready_def unloaded_def Let_def)
  qed (simp add: load_once_def p)
qed

section \<open>The preflight check\<close>

lemma exempt_no_nul: "CHR 0x00 \<notin> set (exempt_proxy p)"
proof -
  have "CHR 0x00 \<notin> set (IP_String v)" if "To4 ip = Some v" for ip v
  proof -
    have "length v = 4" using that by (rule length_To4)
    then obtain a b c d where "v = [a, b, c, d]"
      by (auto simp: length_Suc_conv numeral_eq_Suc)
    then show ?thesis
      using dotted_chars [of "CHR 0x00" a b c d] by (auto simp: is_digit_def)
  qed
  then show ?thesis
    by (auto simp: exempt_proxy_def split: option.split)
qed

lemma filter_no_nul: "CHR 0x00 \<notin> set (buildFilter i)"
  using exempt_no_nul [of "ic_proxyIP i"] digit_not_mem [of "CHR 0x00" "unat (ic_tproxyPort i)"]
  by (simp add: buildFilter_def Let_def is_digit_def)

text \<open>Opening once the DLL is loaded, and opening for the first time.\<close>

lemma wdOpen_ready:
  assumes "ready env s dll" "CHR 0x00 \<notin> set filt"
  shows "wdOpen env opened filt s = Some (case opened filt of None \<Rightarrow> (Inl OpenFailed, s)
    | Some h \<Rightarrow> (Inr \<lparr>wh_handle = Some h, wh_dll = dll\<rparr>, s\<lparr>dv_opened := dv_opened s @ [h]\<rparr>))"
  using assms by (simp add: wdOpen_def loadWinDivert_def ready_def loaded_def Let_def split: option.split)

lemma wdOpen_load: "unloaded s \<Longrightarrow> wdOpen env opened filt s = wdOpen env opened filt (load_once env s)" if "dv_once (load_once env s)"
  using that by (simp add: wdOpen_def loadWinDivert_def unloaded_def Let_def)

lemma wdOpen_loaded:
  assumes "unloaded s"
  obtains e where "wdOpen env opened filt s = Some (Inl (NotLoaded e), load_once env s)"
  | dll where "ready env (load_once env s) dll"
      "CHR 0x00 \<notin> set filt \<Longrightarrow> wdOpen env opened filt s = Some (case opened filt of None \<Rightarrow> (Inl OpenFailed, load_once env s)
         | Some h \<Rightarrow> (Inr \<lparr>wh_handle = Some h, wh_dll = dll\<rparr>, (load_once env s)\<lparr>dv_opened := dv_opened s @ [h]\<rparr>))"
proof -
  note once = load_once_cases [OF assms, of env]
  show thesis
  proof (cases "wdErr (load_once env s)")
    case None
    then obtain dll where "ready env (load_once env s) dll" using once by blast
    moreover from this have "wdOpen env opened filt s = Some (case opened filt of None \<Rightarrow> (Inl OpenFailed, load_once env s)
         | Some h \<Rightarrow> (Inr \<lparr>wh_handle = Some h, wh_dll = dll\<rparr>, (load_once env s)\<lparr>dv_opened := dv_opened s @ [h]\<rparr>))"
      if "CHR 0x00 \<notin> set filt"
      using wdOpen_load [OF _ assms] once wdOpen_ready [OF _ that, of env _ dll opened] by (cases "opened filt") simp_all
    ultimately show thesis by (rule that(2))
  next
    case (Some e)
    with that(1) [of e] assms show thesis
      by (simp add: wdOpen_def loadWinDivert_def unloaded_def Let_def)
  qed
qed

lemma preflight_result:
  assumes "unloaded s"
  shows "\<exists>err closed s'. preflight elevated env opened i s = Some (err, closed, s') \<and> dv_opened s' = dv_opened s @ closed \<and>
    (case err of
       None \<Rightarrow> elevated \<and> (\<exists>h. opened (buildFilter i) = Some h \<and> closed = [h]) \<and> (\<exists>dll. ready env s' dll)
     | Some e \<Rightarrow> closed = [])"
proof (cases elevated)
  case True
  show ?thesis
    using assms
  proof (cases rule: wdOpen_loaded [of s env opened "buildFilter i"])
    case (1 e)
    with True show ?thesis by (simp add: preflight_def)
  next
    case (2 dll)
    then have close: "procClose dll" by (simp add: ready_def loaded_def)
    show ?thesis
      using True 2(1) 2(2) [OF filter_no_nul] close
      by (cases "opened (buildFilter i)") (auto simp: preflight_def wd_Close_def)
  qed
qed (simp add: preflight_def)

lemma preflight_succeeds:
  assumes "unloaded s" "wdErr (load_once env s) = None" "opened (buildFilter i) = Some h"
  obtains s' where "preflight True env opened i s = Some (None, [h], s')"
  using assms(1)
proof (cases rule: wdOpen_loaded [of s env opened "buildFilter i"])
  case (1 e)
  obtain dll where "ready env (load_once env s) dll" using load_once_cases [OF assms(1), of env] assms(2) by blast
  with 1 show thesis
    using wdOpen_load [OF _ assms(1)] load_once_cases [OF assms(1), of env] assms(3)
      wdOpen_ready [OF _ filter_no_nul, of env _ dll opened i] by simp
next
  case (2 dll)
  have "procClose dll" using 2(1) by (simp add: ready_def loaded_def)
  with 2(2) [OF filter_no_nul] assms(3) that show thesis by (simp add: preflight_def wd_Close_def)
qed

text \<open>C19. The preflight check is sound and leaves nothing open: whatever Windows answers, it returns without a
  panic; it succeeds only for an elevated process, with the embedded bytes in both files and in the
  loaded DLL, every required procedure found, and a handle opened with the interceptor's filter; and
  whether it succeeds or fails, the handles it closes are exactly those that \<open>WinDivertOpen\<close> returned to it.\<close>

theorem preflight_sound:
  assumes "unloaded s"
  shows "\<exists>err closed s'. preflight elevated env opened i s = Some (err, closed, s') \<and> dv_opened s' = dv_opened s @ closed \<and>
    (case err of
       None \<Rightarrow> elevated \<and> (\<exists>h. opened (buildFilter i) = Some h \<and> closed = [h]) \<and>
         (\<exists>dll. wdDLL s' = Some dll \<and> wdErr s' = None \<and> loaded env s' dll)
     | Some e \<Rightarrow> closed = [])"
  using preflight_result [OF assms, of elevated env opened i] by (auto simp: ready_def split: option.splits)

definition blank_divert :: divert where
  "blank_divert = \<lparr>dv_once = False, wdDLL = None, wdErr = None, dv_files = Map.empty, dv_calls = [], dv_opened = []\<rparr>"

definition willing_env :: load_env where
  "willing_env = \<lparr>le_svc = \<lambda>_. \<lparr>sc_manager = True, sc_opens = \<lambda>_. False, sc_query = \<lambda>_. None\<rparr>,
     le_fs = \<lparr>fs_cwd = Some ''C:'', fs_readable = \<lambda>_ _. True, fs_write = \<lambda>_. Written, fs_move_ok = True, fs_remove_ok = \<lambda>_. True\<rparr>,
     le_dll = [77, 90], le_sys = [77, 91], le_loads = \<lambda>_. True, le_exports = \<lambda>_. True\<rparr>"

lemma preflight_sound_witness:
  "\<exists>s'. preflight True willing_env (\<lambda>_. Some 5) (NewInterceptor (NewConnTracker 15 30 7893) '''' 0 7893 []) blank_divert
     = Some (None, [5], s') \<and> dv_files s' (in_cwd (le_fs willing_env) ''WinDivert.dll'') = Some [77, 90]"
proof -
  let ?i = "NewInterceptor (NewConnTracker 15 30 7893) '''' 0 7893 []"
  have u: "unloaded blank_divert" by (simp add: unloaded_def blank_divert_def)
  have "wdErr (load_once willing_env blank_divert) = None"
    by (simp add: load_once_def prepare_files_def place_dll_def place_sys_def willing_env_def blank_divert_def
        fileContentMatch_def write_file_def extractSysFile_def load_procs_def required_procs_def Let_def)
  then obtain s' where p: "preflight True willing_env (\<lambda>_. Some 5) ?i blank_divert = Some (None, [5], s')"
    by (rule preflight_succeeds [OF u, where h = 5 and i = ?i]) simp_all
  then have "\<exists>dll. loaded willing_env s' dll"
    using preflight_sound [OF u, of True willing_env "\<lambda>_. Some 5" ?i] by auto
  moreover have "le_dll willing_env = [77, 90]"
    by (simp add: willing_env_def)
  ultimately show ?thesis
    using p by (auto simp: loaded_def)
qed

text \<open>Loading happens once: later calls answer the same and touch nothing.\<close>

lemma load_again: "loadWinDivert env s = (r, s') \<Longrightarrow> dv_once s' \<Longrightarrow> loadWinDivert env' s' = (r, s')"
  by (auto simp: loadWinDivert_def Let_def)

text \<open>After the clean-up at shutdown a late \<open>wdOpen\<close>, which the goroutine of \<open>Interceptor.Start\<close> may still be
  about to make, calls a procedure of a nil DLL.\<close>

lemma open_after_shutdown_panics:
  assumes "dv_once s" "wdErr s = None"
  shows "wdOpen env' opened (buildFilter i) (CleanUp_OnShutdown env s) = None"
  using assms filter_no_nul [of i] by (simp add: wdOpen_def loadWinDivert_def CleanUp_OnShutdown_def Let_def)

text \<open>The clean-up removes every driver file that can be removed, and no other file.\<close>

lemma CleanUp_Dependencies_files:
  assumes "fs_remove_ok (le_fs env) = (\<lambda>_. True)"
  shows "dv_files (CleanUp_Dependencies env s) = dv_files s |` (- in_cwd (le_fs env) ` set divert_files)"
  using assms by (auto simp: CleanUp_Dependencies_def divert_files_def remove_file_def restrict_map_def fun_eq_iff)

end
