(* ===== verification/Engine.thy ===== *)
theory Engine
  imports Statuses TProxy Divert
begin

text \<open>
  \<open>engine.go\<close>: the engine that holds the configuration, the TProxy and the interceptor together, and
  the settings that change them while they run. A method that takes the configuration's lock and
  then calls the other parts without it is its locked part followed by the calls;
  \<open>mutate_locked\<close> and \<open>apply_whitelist\<close> are the two halves of \<open>mutateWhitelist\<close>.
  The tracker is shared: \<open>Stop\<close> closes the engine's and the interceptor's view of it.
\<close>

section \<open>State\<close>

record Engine =
  e_cfg :: Config
  e_tracker :: ConnTracker
  e_tproxy :: "TProxy option"
  e_interceptor :: "Interceptor option"
  e_Stats :: Stats
  e_listening :: bool

definition eng_New :: "int \<Rightarrow> Config \<Rightarrow> Engine" where
  "eng_New pid cfg = \<lparr>e_cfg = cfg,
     e_tracker = NewConnTracker (ConnTrackGCInterval (cfg_System cfg)) (ConnTrackTTL (cfg_System cfg))
       (word_of_int (TProxyPort (cfg_System cfg))),
     e_tproxy = None, e_interceptor = None,
     e_Stats = \<lparr>st_PID = pid, st_Connections = 0, st_active = Map.empty\<rparr>, e_listening = False\<rparr>"

section \<open>Addresses\<close>

definition addr_port :: "string \<Rightarrow> int \<Rightarrow> string" where
  "addr_port address port = address @ '':'' @ Itoa port"

definition parseAddr :: "string \<Rightarrow> (string \<times> int) option" where
  "parseAddr addr = (case SplitHostPort addr of None \<Rightarrow> None
     | Some (host, port) \<Rightarrow> (case Atoi port of None \<Rightarrow> None
        | Some p \<Rightarrow> if p \<le> 0 \<or> 65535 < p then None else Some (host, p)))"

text \<open>\<open>lookup\<close> is \<open>net.LookupIP\<close>, \<open>None\<close> for an error.\<close>

definition v4_outside :: "IP \<Rightarrow> string option" where
  "v4_outside ip = (case To4 ip of Some v \<Rightarrow> if IsLoopback v then None else Some (IP_String v) | None \<Rightarrow> None)"

primrec first_outside :: "IP list \<Rightarrow> string" where
  "first_outside [] = []"
| "first_outside (ip # ips) = (case v4_outside ip of Some s \<Rightarrow> s | None \<Rightarrow> first_outside ips)"

definition proxyFilterIP :: "(string \<Rightarrow> IP list option) \<Rightarrow> string \<Rightarrow> string" where
  "proxyFilterIP lookup host =
     (let literal = (case ParseIP host of None \<Rightarrow> None
        | Some ip \<Rightarrow> (case To4 ip of None \<Rightarrow> None | Some v \<Rightarrow> if IsLoopback ip then None else Some (IP_String v)))
      in case literal of Some s \<Rightarrow> s
         | None \<Rightarrow> (case lookup host of None \<Rightarrow> [] | Some ips \<Rightarrow> first_outside ips))"

section \<open>Starting and stopping\<close>

datatype start_error = NoUpstream | BadUpstream | TProxyFailed | PreflightFailed preflight_error

text \<open>What the system answers: may the port be listened on, the preflight's error, name resolution.\<close>

record start_env =
  se_listen_ok :: "string \<Rightarrow> bool"
  se_preflight :: "Interceptor \<Rightarrow> preflight_error option"
  se_lookup :: "string \<Rightarrow> IP list option"

definition usable :: "Server \<Rightarrow> bool" where
  "usable srv \<longleftrightarrow> srv_Type srv = ''socks5'' \<or> srv_Type srv = ''http''"

text \<open>
  \<open>Start\<close> launches two goroutines when it has succeeded; what they do is not part of it: \<open>tp.Accept\<close> is
  \<open>accept_loop\<close> and \<open>handleConn\<close> of theory \<open>TProxy\<close>, \<open>i.Start\<close> is \<open>start_loop\<close> of theory \<open>ReceiveLoop\<close>, whose
  first step is \<open>go_receiving\<close>, and their race with \<open>Stop\<close> is in theory \<open>Lifecycle\<close>.
\<close>

text \<open>\<open>Start\<close> up to the preflight check: the proxy, which listens from then on, and the interceptor.\<close>

definition prepare_start :: "start_env \<Rightarrow> Engine \<Rightarrow> start_error + (TProxy \<times> Interceptor)" where
  "prepare_start env e =
     (case find usable (elems (Servers (cfg_Outbounds (e_cfg e)))) of
        None \<Rightarrow> Inl NoUpstream
      | Some srv \<Rightarrow>
         (let proxyAddr = addr_port (srv_Address srv) (srv_Port srv) in
          case parseAddr proxyAddr of None \<Rightarrow> Inl BadUpstream
          | Some (proxyHost, proxyPort) \<Rightarrow>
             (case NewTProxy (se_listen_ok env) (srv_Type srv) proxyAddr (srv_Username srv) (srv_Password srv) True
                     (cfg_Performance (e_cfg e)) (TProxyPort (cfg_System (e_cfg e))) of
                None \<Rightarrow> Inl TProxyFailed
              | Some tp \<Rightarrow> Inr (tp,
                  NewInterceptor (e_tracker e) (proxyFilterIP (se_lookup env) proxyHost) (word_of_int proxyPort)
                    (word_of_int (TProxyPort (cfg_System (e_cfg e)))) (elems (cfg_ProcessWhitelist (e_cfg e)))))))"

definition eng_Start :: "start_env \<Rightarrow> Engine \<Rightarrow> start_error option \<times> Engine" where
  "eng_Start env e = (case prepare_start env e of
       Inl err \<Rightarrow> (Some err, e)
     | Inr (tp, i) \<Rightarrow> (case se_preflight env i of
           Some err \<Rightarrow> (Some (PreflightFailed err), e\<lparr>e_listening := False\<rparr>)
         | None \<Rightarrow> (None, e\<lparr>e_tproxy := Some tp, e_interceptor := Some i, e_listening := True\<rparr>)))"

definition eng_Stop :: "Engine \<Rightarrow> Engine" where
  "eng_Stop e = e\<lparr>
     e_interceptor := map_option (\<lambda>i. (Close i)\<lparr>ic_tracker := ct_Close (ic_tracker i)\<rparr>) (e_interceptor e),
     e_listening := (if e_tproxy e = None then e_listening e else False),
     e_tracker := ct_Close (e_tracker e)\<rparr>"

section \<open>Settings\<close>

text \<open>\<open>save\<close> is the path of the configuration file, empty for none; the result of the save is ignored.\<close>

definition SaveConfig :: "save_env \<Rightarrow> string \<Rightarrow> Engine \<Rightarrow> disk \<Rightarrow> save_error option \<times> disk" where
  "SaveConfig env path e d = (let r = Save env path (e_cfg e) d in (fst r, final_disk r))"

definition save_if :: "save_env \<Rightarrow> string \<Rightarrow> Engine \<Rightarrow> disk \<Rightarrow> disk" where
  "save_if env save e d = (if save \<noteq> [] then snd (SaveConfig env save e d) else d)"

text \<open>\<open>UpdatePerformance\<close>: its locked part, and the call it makes when the lock is released.\<close>

definition performance_locked :: "PerformanceConfig \<Rightarrow> Engine \<Rightarrow> Engine" where
  "performance_locked p e = e\<lparr>e_cfg := (e_cfg e)\<lparr>cfg_Performance := p\<rparr>\<rparr>"

definition push_performance :: "PerformanceConfig \<Rightarrow> Engine \<Rightarrow> Engine" where
  "push_performance p e = e\<lparr>e_tproxy := map_option (tp_UpdatePerformance p) (e_tproxy e)\<rparr>"

definition eng_UpdatePerformance :: "PerformanceConfig \<Rightarrow> Engine \<Rightarrow> Engine" where
  "eng_UpdatePerformance p e =
     (let p = p\<lparr>BufferSize := ClampBufferSize (BufferSize p)\<rparr> in push_performance p (performance_locked p e))"

definition set_upstream :: "string \<Rightarrow> string \<Rightarrow> int \<Rightarrow> Server list \<Rightarrow> Server list" where
  "set_upstream pt address port srvs = (case srvs of
       [] \<Rightarrow> [zero_Server\<lparr>srv_Tag := ''proxy'', srv_Type := pt, srv_Address := address, srv_Port := port\<rparr>]
     | s # ss \<Rightarrow> s\<lparr>srv_Type := pt, srv_Address := address, srv_Port := port\<rparr> # ss)"

text \<open>
  \<open>UpdateUpstream\<close> step by step: what it does under the lock, with the credentials it takes out of it,
  and the two calls it makes when the lock is released. \<open>switch_upstream\<close> is the three in a row.
\<close>

definition upstream_locked :: "string \<Rightarrow> string \<Rightarrow> int \<Rightarrow> Engine \<Rightarrow> (string \<times> string) \<times> Engine" where
  "upstream_locked pt address port e =
     (let srvs = set_upstream pt address port (elems (Servers (cfg_Outbounds (e_cfg e))))
      in ((srv_Username (hd srvs), srv_Password (hd srvs)), e\<lparr>e_cfg := (e_cfg e)\<lparr>cfg_Outbounds := \<lparr>Servers = Some srvs\<rparr>\<rparr>\<rparr>))"

definition push_tproxy :: "string \<Rightarrow> string \<Rightarrow> int \<Rightarrow> string \<times> string \<Rightarrow> Engine \<Rightarrow> Engine" where
  "push_tproxy pt address port cred e =
     e\<lparr>e_tproxy := map_option (tp_UpdateUpstream pt (addr_port address port) (fst cred) (snd cred)) (e_tproxy e)\<rparr>"

definition push_interceptor :: "(string \<Rightarrow> IP list option) \<Rightarrow> string \<Rightarrow> int \<Rightarrow> Engine \<Rightarrow> Engine" where
  "push_interceptor lookup address port e =
     e\<lparr>e_interceptor := map_option (SetProxyAddr (proxyFilterIP lookup address) (word_of_int port)) (e_interceptor e)\<rparr>"

definition switch_upstream :: "(string \<Rightarrow> IP list option) \<Rightarrow> string \<Rightarrow> string \<Rightarrow> int \<Rightarrow> Engine \<Rightarrow> Engine" where
  "switch_upstream lookup pt address port e =
     (let (cred, e) = upstream_locked pt address port e
      in push_interceptor lookup address port (push_tproxy pt address port cred e))"

definition eng_UpdateUpstream :: "(string \<Rightarrow> IP list option) \<Rightarrow> save_env \<Rightarrow> string \<Rightarrow> string \<Rightarrow> int \<Rightarrow> string \<Rightarrow>
    Engine \<Rightarrow> disk \<Rightarrow> Engine \<times> disk" where
  "eng_UpdateUpstream lookup env pt address port save e d =
     (let e = switch_upstream lookup pt address port e in (e, save_if env save e d))"

section \<open>The whitelist\<close>

primrec norm_loop :: "string set \<Rightarrow> string list \<Rightarrow> string list" where
  "norm_loop seen [] = []"
| "norm_loop seen (n # ns) =
     (let n = TrimSpace (ToLower n) in
      if n = [] then norm_loop seen ns
      else if n \<in> seen then norm_loop seen ns
      else n # norm_loop (insert n seen) ns)"

definition normalizeWhitelist :: "string list \<Rightarrow> string list" where
  "normalizeWhitelist names = norm_loop {} names"

definition mutate_locked :: "(string list \<Rightarrow> string list) \<Rightarrow> Engine \<Rightarrow> string list \<times> Engine" where
  "mutate_locked f e = (let clean = f (elems (cfg_ProcessWhitelist (e_cfg e)))
     in (clean, e\<lparr>e_cfg := (e_cfg e)\<lparr>cfg_ProcessWhitelist := Some clean\<rparr>\<rparr>))"

definition apply_whitelist :: "string list \<Rightarrow> Engine \<Rightarrow> Engine" where
  "apply_whitelist clean e = e\<lparr>e_interceptor := map_option (SetWhitelist clean) (e_interceptor e)\<rparr>"

definition mutateWhitelist :: "save_env \<Rightarrow> string \<Rightarrow> (string list \<Rightarrow> string list) \<Rightarrow> Engine \<Rightarrow> disk \<Rightarrow>
    string slice \<times> Engine \<times> disk" where
  "mutateWhitelist env save f e d =
     (let (clean, e) = mutate_locked f e;
          e = apply_whitelist clean e
      in (append_nil clean, e, save_if env save e d))"

definition GetProcessWhitelist :: "Engine \<Rightarrow> string slice" where
  "GetProcessWhitelist e = append_nil (elems (cfg_ProcessWhitelist (e_cfg e)))"

definition add_to :: "string \<Rightarrow> string list \<Rightarrow> string list" where
  "add_to name cur = (if list_ex (\<lambda>p. EqualFold p name) cur then normalizeWhitelist cur
     else normalizeWhitelist (cur @ [name]))"

definition AddProcess :: "save_env \<Rightarrow> string \<Rightarrow> string \<Rightarrow> Engine \<Rightarrow> disk \<Rightarrow> string slice \<times> Engine \<times> disk" where
  "AddProcess env name save e d = (let name = TrimSpace name in
     if name = [] then (GetProcessWhitelist e, e, d) else mutateWhitelist env save (add_to name) e d)"

definition remove_from :: "string \<Rightarrow> string list \<Rightarrow> string list" where
  "remove_from name cur = (if name = [] then normalizeWhitelist cur
     else normalizeWhitelist (filter (\<lambda>p. \<not> EqualFold p name) cur))"

definition RemoveProcess :: "save_env \<Rightarrow> string \<Rightarrow> string \<Rightarrow> Engine \<Rightarrow> disk \<Rightarrow> string slice \<times> Engine \<times> disk" where
  "RemoveProcess env name save e d = mutateWhitelist env save (remove_from (TrimSpace name)) e d"

text \<open>The two strings \<open>InterceptorState\<close> returns without an interceptor; the message in UTF-8.\<close>

definition not_started :: string where
  "not_started = map char_of [0xe6, 0x8b, 0xa6, 0xe6, 0x88, 0xaa, 0xe5, 0x99, 0xa8, 0xe6, 0x9c, 0xaa, 0xe5, 0x90, 0xaf, 0xe5, 0x8a, 0xa8 :: nat]"

definition InterceptorState :: "Engine \<Rightarrow> string \<times> string" where
  "InterceptorState e = (case e_interceptor e of None \<Rightarrow> (''stopped'', not_started) | Some i \<Rightarrow> State i)"

definition GetConfig :: "Engine \<Rightarrow> Config" where
  "GetConfig e = (e_cfg e)\<lparr>
     cfg_Outbounds := \<lparr>Servers = append_nil (elems (Servers (cfg_Outbounds (e_cfg e))))\<rparr>,
     cfg_ProcessWhitelist := append_nil (elems (cfg_ProcessWhitelist (e_cfg e)))\<rparr>"

text \<open>The statuses of the interceptor (theory \<open>Statuses\<close>), none before it starts.\<close>

definition GetProcessStatuses :: "Flow list \<Rightarrow> string list \<Rightarrow> Engine \<Rightarrow> ProcessStatus list" where
  "GetProcessStatuses flows keys e = (case e_interceptor e of None \<Rightarrow> [] | Some i \<Rightarrow> ProcessStatuses flows keys i)"

section \<open>Normalised lists\<close>

definition norm_name :: "string \<Rightarrow> string" where
  "norm_name n = TrimSpace (ToLower n)"

lemma norm_name_idem [simp]: "norm_name (norm_name n) = norm_name n"
  by (simp add: norm_name_def TrimSpace_ToLower)

lemma ToLower_norm_name [simp]: "ToLower (norm_name n) = norm_name n"
  by (simp add: norm_name_def TrimSpace_ToLower)

lemma norm_name_TrimSpace [simp]: "norm_name (TrimSpace n) = norm_name n"
  by (simp add: norm_name_def TrimSpace_ToLower)

lemma norm_name_Nil [simp]: "norm_name [] = []"
  by (simp add: norm_name_def TrimSpace_def ToLower_def)

lemma TrimSpace_Nil_iff: "TrimSpace n = [] \<longleftrightarrow> norm_name n = []"
  by (simp add: norm_name_def TrimSpace_ToLower)

lemma ToLower_TrimSpace: "ToLower (TrimSpace n) = norm_name n"
  by (simp add: norm_name_def TrimSpace_ToLower)

definition normalized :: "string list \<Rightarrow> bool" where
  "normalized ns \<longleftrightarrow> distinct ns \<and> (\<forall>n\<in>set ns. n \<noteq> [] \<and> norm_name n = n)"

lemma remdups_snoc: "remdups (xs @ [x]) = filter (\<lambda>y. y \<noteq> x) (remdups xs) @ [x]"
  by (induction xs) auto

lemma norm_loop_eq:
  "norm_loop seen ns = rev (remdups (rev (filter (\<lambda>n. n \<noteq> [] \<and> n \<notin> seen) (map norm_name ns))))"
proof (induction ns arbitrary: seen)
  case (Cons n ns)
  have "rev (remdups (rev xs @ [x])) = x # rev (remdups (rev (filter (\<lambda>y. y \<noteq> x) xs)))" for x :: string and xs
    by (simp add: remdups_snoc remdups_filter rev_filter)
  moreover have "filter (\<lambda>y. y \<noteq> norm_name n) (filter (\<lambda>n. n \<noteq> [] \<and> n \<notin> seen) (map norm_name ns)) =
      filter (\<lambda>m. m \<noteq> [] \<and> m \<notin> insert (norm_name n) seen) (map norm_name ns)"
    by (simp add: conj_commute conj_left_commute)
  ultimately show ?case
    using Cons.IH [of seen] Cons.IH [of "insert (norm_name n) seen"]
    by (simp add: Let_def flip: norm_name_def)
qed simp

lemma set_normalize: "set (normalizeWhitelist ns) = {m. m \<noteq> [] \<and> m \<in> norm_name ` set ns}"
  by (auto simp: normalizeWhitelist_def norm_loop_eq)

lemma normalized_normalize: "normalized (normalizeWhitelist ns)"
  by (auto simp: normalized_def normalizeWhitelist_def norm_loop_eq)

lemma normalize_id: "normalized ns \<Longrightarrow> normalizeWhitelist ns = ns"
proof -
  assume n: "normalized ns"
  then have "map norm_name ns = ns" "filter (\<lambda>n. n \<noteq> [] \<and> n \<notin> {}) ns = ns"
    by (auto simp: normalized_def map_idI)
  with n show ?thesis
    by (simp add: normalizeWhitelist_def norm_loop_eq normalized_def distinct_remdups_id)
qed

lemma EqualFold_normal: "norm_name p = p \<Longrightarrow> EqualFold p (TrimSpace n) \<longleftrightarrow> p = norm_name n"
  by (metis EqualFold_def ToLower_TrimSpace ToLower_norm_name)

lemma normalized_snoc: "normalized ns \<Longrightarrow> norm_name m \<noteq> [] \<Longrightarrow> norm_name m \<notin> set ns \<Longrightarrow> normalized (ns @ [norm_name m])"
  by (auto simp: normalized_def)

lemma normalize_snoc:
  assumes "normalized ns" "norm_name m \<noteq> []" "norm_name m \<notin> set ns"
  shows "normalizeWhitelist (ns @ [m]) = ns @ [norm_name m]"
proof -
  have "normalizeWhitelist (ns @ [m]) = normalizeWhitelist (ns @ [norm_name m])"
    by (simp add: normalizeWhitelist_def norm_loop_eq)
  then show ?thesis
    using normalize_id [OF normalized_snoc [OF assms]] by simp
qed

text \<open>On a normalised list, adding appends and removing drops exactly the named process.\<close>

lemma add_to_normal:
  assumes "normalized ns" "norm_name m \<noteq> []"
  shows "add_to (TrimSpace m) ns = (if norm_name m \<in> set ns then ns else ns @ [norm_name m])"
proof -
  have "list_ex (\<lambda>p. EqualFold p (TrimSpace m)) ns \<longleftrightarrow> norm_name m \<in> set ns"
    using assms(1) by (auto simp: list_ex_iff normalized_def EqualFold_normal)
  then show ?thesis
    using assms normalize_id [OF assms(1)] normalize_snoc [OF assms(1), of "TrimSpace m"]
    by (simp add: add_to_def)
qed

lemma remove_from_normal:
  assumes "normalized ns"
  shows "remove_from (TrimSpace m) ns = filter (\<lambda>p. p \<noteq> norm_name m) ns"
proof -
  have "filter (\<lambda>p. \<not> EqualFold p (TrimSpace m)) ns = filter (\<lambda>p. p \<noteq> norm_name m) ns"
    using assms by (intro filter_cong) (auto simp: normalized_def EqualFold_normal)
  moreover have "normalized (filter (\<lambda>p. p \<noteq> norm_name m) ns)"
    using assms by (auto simp: normalized_def)
  moreover have "norm_name m = [] \<Longrightarrow> filter (\<lambda>p. p \<noteq> norm_name m) ns = ns"
    using assms by (auto simp: normalized_def filter_id_conv)
  ultimately show ?thesis
    using assms by (simp add: remove_from_def normalize_id TrimSpace_Nil_iff)
qed

section \<open>The whitelist of a running engine\<close>

definition names_of :: "Engine \<Rightarrow> string list" where
  "names_of e = elems (cfg_ProcessWhitelist (e_cfg e))"

text \<open>The configured list is normalised, and the interceptor, if any, works with it.\<close>

definition in_step :: "Engine \<Rightarrow> bool" where
  "in_step e \<longleftrightarrow> normalized (names_of e) \<and> (\<forall>i. e_interceptor e = Some i \<longrightarrow> ic_whitelist i = set (names_of e))"

lemma SetWhitelist_normal: "normalized ns \<Longrightarrow> ic_whitelist (SetWhitelist ns i) = set ns"
  by (force simp: SetWhitelist_def normalized_def norm_name_def)

definition with_names :: "string list \<Rightarrow> Engine \<Rightarrow> Engine" where
  "with_names ns e = e\<lparr>e_cfg := (e_cfg e)\<lparr>cfg_ProcessWhitelist := Some ns\<rparr>,
     e_interceptor := map_option (SetWhitelist ns) (e_interceptor e)\<rparr>"

lemma names_of_with_names [simp]: "names_of (with_names ns e) = ns"
  by (simp add: names_of_def with_names_def)

lemma in_step_with_names: "normalized ns \<Longrightarrow> in_step (with_names ns e)"
  by (auto simp: in_step_def with_names_def names_of_def SetWhitelist_normal)

lemma mutateWhitelist_eq:
  "mutateWhitelist env save f e d =
     (append_nil (f (names_of e)), with_names (f (names_of e)) e, save_if env save (with_names (f (names_of e)) e) d)"
  by (simp add: mutateWhitelist_def mutate_locked_def apply_whitelist_def with_names_def names_of_def Let_def)

lemma AddProcess_step:
  assumes "in_step e" "AddProcess env name save e d = (r, e', d')"
  shows "in_step e' \<and> r = append_nil (names_of e') \<and>
    names_of e' = (if norm_name name = [] \<or> norm_name name \<in> set (names_of e) then names_of e else names_of e @ [norm_name name])"
proof (cases "norm_name name = []")
  case True
  with assms show ?thesis
    by (auto simp: AddProcess_def Let_def TrimSpace_Nil_iff GetProcessWhitelist_def names_of_def)
next
  case False
  have n: "normalized (names_of e)"
    using assms(1) by (simp add: in_step_def)
  let ?L = "add_to (TrimSpace name) (names_of e)"
  have a: "?L = (if norm_name name \<in> set (names_of e) then names_of e else names_of e @ [norm_name name])"
    using n False by (rule add_to_normal)
  have "normalized ?L"
    using n False unfolding a by (simp add: normalized_snoc)
  moreover have "r = append_nil ?L" "e' = with_names ?L e"
    using assms(2) False by (simp_all add: AddProcess_def Let_def TrimSpace_Nil_iff mutateWhitelist_eq)
  ultimately have "in_step e'" "r = append_nil ?L" "names_of e' = ?L"
    by (simp_all add: in_step_with_names)
  with False show ?thesis
    by (simp add: a)
qed

lemma RemoveProcess_step:
  assumes "in_step e" "RemoveProcess env name save e d = (r, e', d')"
  shows "in_step e' \<and> r = append_nil (names_of e') \<and> names_of e' = filter (\<lambda>p. p \<noteq> norm_name name) (names_of e)"
proof -
  have n: "normalized (names_of e)"
    using assms(1) by (simp add: in_step_def)
  have L: "remove_from (TrimSpace name) (names_of e) = filter (\<lambda>p. p \<noteq> norm_name name) (names_of e)"
    by (rule remove_from_normal [OF n])
  have "normalized (filter (\<lambda>p. p \<noteq> norm_name name) (names_of e))"
    using n by (auto simp: normalized_def)
  then show ?thesis
    using assms(2) by (auto simp: RemoveProcess_def mutateWhitelist_eq L in_step_with_names)
qed

section \<open>The whitelist as a set\<close>

text \<open>
  The abstract whitelist is the set of normalised names, also of a list that was edited by hand. The
  interceptor matches when it works with that set.
\<close>

definition allowed :: "Engine \<Rightarrow> string set" where
  "allowed e = {m. m \<noteq> [] \<and> m \<in> norm_name ` set (names_of e)}"

definition matching :: "Engine \<Rightarrow> bool" where
  "matching e \<longleftrightarrow> (\<forall>i. e_interceptor e = Some i \<longrightarrow> ic_whitelist i = allowed e)"

lemma ic_whitelist_SetWhitelist: "ic_whitelist (SetWhitelist ns i) = {m. m \<noteq> [] \<and> m \<in> norm_name ` set ns}"
  by (auto simp: SetWhitelist_def norm_name_def)

lemma allowed_with_names [simp]: "allowed (with_names ns e) = {m. m \<noteq> [] \<and> m \<in> norm_name ` set ns}"
  by (simp add: allowed_def)

lemma matching_with_names: "matching (with_names ns e)"
  by (auto simp: matching_def with_names_def ic_whitelist_SetWhitelist allowed_def names_of_def)

lemma normalized_names: "normalized ns \<Longrightarrow> {m. m \<noteq> [] \<and> m \<in> norm_name ` set ns} = set ns"
  by (force simp: normalized_def)

lemma image_normalize: "{m. m \<noteq> [] \<and> m \<in> norm_name ` set (normalizeWhitelist ns)} = {m. m \<noteq> [] \<and> m \<in> norm_name ` set ns}"
  unfolding normalized_names [OF normalized_normalize] by (rule set_normalize)

lemma add_to_set:
  "{m. m \<noteq> [] \<and> m \<in> norm_name ` set (add_to (TrimSpace name) ns)} =
   {m. m \<noteq> [] \<and> m \<in> norm_name ` set ns} \<union> ({norm_name name} - {[]})"
proof -
  have "list_ex (\<lambda>p. EqualFold p (TrimSpace name)) ns \<Longrightarrow> norm_name name \<in> norm_name ` set ns"
    by (auto simp: list_ex_iff EqualFold_def norm_name_def ToLower_TrimSpace [unfolded norm_name_def] intro: rev_image_eqI)
  then show ?thesis
    by (auto simp: add_to_def image_normalize)
qed

lemma add_to_normalized: "normalized (add_to name ns)"
  by (simp add: add_to_def normalized_normalize)

lemma AddProcess_set:
  assumes "matching e" "AddProcess env name save e d = (r, e', d')"
  shows "matching e' \<and> allowed e' = allowed e \<union> ({norm_name name} - {[]}) \<and> (norm_name name \<noteq> [] \<longrightarrow> normalized (names_of e'))"
proof (cases "norm_name name = []")
  case False
  then have "e' = with_names (add_to (TrimSpace name) (names_of e)) e"
    using assms(2) by (simp add: AddProcess_def Let_def TrimSpace_Nil_iff mutateWhitelist_eq)
  then show ?thesis
    by (simp add: matching_with_names add_to_set add_to_normalized) (simp add: allowed_def)
qed (use assms in \<open>simp add: AddProcess_def Let_def TrimSpace_Nil_iff\<close>)

lemma RemoveProcess_set:
  assumes "RemoveProcess env name save e d = (r, e', d')" "norm_name name \<noteq> [] \<longrightarrow> normalized (names_of e)"
  shows "matching e' \<and> allowed e' = allowed e - {norm_name name} \<and> normalized (names_of e')"
proof -
  let ?L = "remove_from (TrimSpace name) (names_of e)"
  have e': "e' = with_names ?L e"
    using assms(1) by (simp add: RemoveProcess_def mutateWhitelist_eq)
  have norm: "normalized ?L"
    by (simp add: remove_from_def normalized_normalize)
  have "{m. m \<noteq> [] \<and> m \<in> norm_name ` set ?L} = allowed e - {norm_name name}"
  proof (cases "norm_name name = []")
    case True
    then show ?thesis
      by (simp add: remove_from_def TrimSpace_Nil_iff image_normalize) (auto simp: allowed_def)
  next
    case False
    with assms(2) have n: "normalized (names_of e)" by simp
    have "{m. m \<noteq> [] \<and> m \<in> norm_name ` set ?L} = set ?L"
      by (rule normalized_names [OF norm])
    also have "\<dots> = set (names_of e) - {norm_name name}"
      unfolding remove_from_normal [OF n] by auto
    finally show ?thesis
      unfolding allowed_def normalized_names [OF n] .
  qed
  with e' norm show ?thesis
    by (simp add: matching_with_names)
qed

lemma with_names_config:
  assumes "wf_config (e_cfg e)" "config_ints (e_cfg e)"
  shows "wf_config (e_cfg (with_names ns e))" "config_ints (e_cfg (with_names ns e))"
  using assms by (simp_all add: with_names_def wf_config_def config_ints_def)

lemma save_if_loads:
  assumes "wf_config (e_cfg e)" "config_ints (e_cfg e)" "save \<noteq> []" "fst (Save env save (e_cfg e) d) = None"
  shows "Load True save (save_if env save e d) = Inr (e_cfg e)"
  using Load_saved [OF assms(1,2,4)] assms(3) by (simp add: save_if_def SaveConfig_def Let_def)

lemma mutateWhitelist_saves:
  assumes "wf_config (e_cfg e)" "config_ints (e_cfg e)" "save \<noteq> []" "mutateWhitelist env save f e d = (r, e', d')"
  shows "wf_config (e_cfg e') \<and> config_ints (e_cfg e') \<and> r = append_nil (names_of e') \<and>
    e_cfg e' = (e_cfg e)\<lparr>cfg_ProcessWhitelist := Some (names_of e')\<rparr> \<and>
    (fst (Save env save (e_cfg e') d) = None \<longrightarrow> Load True save d' = Inr (e_cfg e'))"
proof -
  have e': "e' = with_names (f (names_of e)) e" "d' = save_if env save e' d" "r = append_nil (names_of e')"
    using assms(4) by (auto simp: mutateWhitelist_eq)
  have "wf_config (e_cfg e')" "config_ints (e_cfg e')"
    unfolding e'(1) by (rule with_names_config [OF assms(1,2)])+
  moreover have "e_cfg e' = (e_cfg e)\<lparr>cfg_ProcessWhitelist := Some (names_of e')\<rparr>"
    by (simp add: e'(1)) (simp add: with_names_def)
  ultimately show ?thesis
    using save_if_loads [of e' save env d] assms(3) e'(2,3) by simp
qed

text \<open>C13. Editing the whitelist refines editing a set, one call after the other: from any configuration,
  also one edited by hand, adding a process adds exactly its normalised name, adding and then removing
  it (what the API's DELETE does) takes exactly that name away. After either the interceptor works with
  the configured set, the answer is the configured list, nothing else of the configuration has changed,
  and a save that succeeds leaves a file that loads as the new configuration; adding an empty name
  changes nothing. (\<open>whitelist_edits_race\<close> shows what two overlapping calls can do.)\<close>

theorem whitelist_refines_set:
  assumes "matching e" "wf_config (e_cfg e)" "config_ints (e_cfg e)" "save \<noteq> []"
    and "AddProcess env name save e d = (r1, e1, d1)" "RemoveProcess env name save e1 d1 = (r2, e2, d2)"
  shows "allowed e1 = allowed e \<union> ({norm_name name} - {[]}) \<and> matching e1 \<and> r1 = append_nil (names_of e1) \<and>
    (if norm_name name = [] then e1 = e \<and> d1 = d
     else e_cfg e1 = (e_cfg e)\<lparr>cfg_ProcessWhitelist := Some (names_of e1)\<rparr> \<and>
       (fst (Save env save (e_cfg e1) d) = None \<longrightarrow> Load True save d1 = Inr (e_cfg e1))) \<and>
    allowed e2 = allowed e - {norm_name name} \<and> matching e2 \<and> normalized (names_of e2) \<and> r2 = append_nil (names_of e2) \<and>
    e_cfg e2 = (e_cfg e)\<lparr>cfg_ProcessWhitelist := Some (names_of e2)\<rparr> \<and>
    (fst (Save env save (e_cfg e2) d1) = None \<longrightarrow> Load True save d2 = Inr (e_cfg e2))"
proof -
  have "[] \<notin> allowed e"
    by (simp add: allowed_def)
  then have sets: "allowed e1 = allowed e \<union> ({norm_name name} - {[]})" "matching e1"
      "allowed e2 = allowed e - {norm_name name}" "matching e2" "normalized (names_of e2)"
    using AddProcess_set [OF assms(1,5)] RemoveProcess_set [OF assms(6)] by auto
  have r2: "mutateWhitelist env save (remove_from (TrimSpace name)) e1 d1 = (r2, e2, d2)"
    using assms(6) by (simp add: RemoveProcess_def)
  show ?thesis
  proof (cases "norm_name name = []")
    case True
    then have "e1 = e" "d1 = d" "r1 = append_nil (names_of e)"
      using assms(5) by (auto simp: AddProcess_def Let_def TrimSpace_Nil_iff GetProcessWhitelist_def names_of_def)
    with True sets mutateWhitelist_saves [OF assms(2,3,4)] r2 show ?thesis
      by simp
  next
    case False
    then have r1: "mutateWhitelist env save (add_to (TrimSpace name)) e d = (r1, e1, d1)"
      using assms(5) by (simp add: AddProcess_def Let_def TrimSpace_Nil_iff)
    note saved = mutateWhitelist_saves [OF assms(2,3,4) r1]
    then have "wf_config (e_cfg e1)" "config_ints (e_cfg e1)"
      by blast+
    from mutateWhitelist_saves [OF this assms(4) r2] saved sets False show ?thesis
      by simp
  qed
qed

definition hand_edited :: Engine where
  "hand_edited = eng_New 1 (DefaultConfig\<lparr>cfg_ProcessWhitelist := Some ['' Chrome.exe '', ''curl.exe'']\<rparr>)"

lemma whitelist_refines_set_witness:
  "let (r1, e1, d1) = AddProcess good_env ''chrome.EXE'' ''config.json'' hand_edited Map.empty;
       (r2, e2, d2) = RemoveProcess good_env ''chrome.EXE'' ''config.json'' e1 d1
   in allowed e2 = allowed hand_edited - {norm_name ''chrome.EXE''} \<and> Load True ''config.json'' d1 = Inr (e_cfg e1)"
proof -
  obtain r1 e1 d1 where a: "AddProcess good_env ''chrome.EXE'' ''config.json'' hand_edited Map.empty = (r1, e1, d1)"
    by (cases "AddProcess good_env ''chrome.EXE'' ''config.json'' hand_edited Map.empty") auto
  obtain r2 e2 d2 where b: "RemoveProcess good_env ''chrome.EXE'' ''config.json'' e1 d1 = (r2, e2, d2)"
    by (cases "RemoveProcess good_env ''chrome.EXE'' ''config.json'' e1 d1") auto
  have "matching hand_edited"
    by (simp add: matching_def hand_edited_def eng_New_def)
  moreover have "wf_config (e_cfg hand_edited)"
    using DefaultConfig_wf by (simp add: hand_edited_def eng_New_def wf_config_def)
  moreover have "config_ints (e_cfg hand_edited)"
    by (simp add: hand_edited_def eng_New_def config_ints_def DefaultConfig_def int64_def)
  moreover have "fst (Save good_env ''config.json'' (e_cfg e1) Map.empty) = None"
    by (rule Save_good [OF CreateTemp_good]) simp_all
  moreover have "norm_name ''chrome.EXE'' \<noteq> []"
    by code_simp
  ultimately show ?thesis
    using whitelist_refines_set [OF _ _ _ _ a b] by (simp add: a b)
qed

text \<open>
  Two edits at the same time: both change the list under the lock, in this order, but nothing orders
  their calls of \<open>SetWhitelist\<close> behind it. When those come in the other order, the second process is
  configured, and shown as such, while its packets still go out directly.
\<close>

lemma whitelist_edits_race:
  assumes "e_interceptor e = Some i" "normalized (names_of e)"
    and "norm_name a \<noteq> []" "norm_name b \<noteq> []" "norm_name a \<noteq> norm_name b" "norm_name b \<notin> set (names_of e)"
    and "mutate_locked (add_to (TrimSpace a)) e = (la, e1)" "mutate_locked (add_to (TrimSpace b)) e1 = (lb, e2)"
    and "e3 = apply_whitelist la (apply_whitelist lb e2)"
  shows "norm_name b \<in> set (names_of e3) \<and> (\<exists>i3. e_interceptor e3 = Some i3 \<and> \<not> isWhitelisted (norm_name b) i3)"
proof -
  have la: "la = add_to (TrimSpace a) (names_of e)" "names_of e1 = la" "e_interceptor e1 = Some i"
    using assms(1,7) by (auto simp: mutate_locked_def names_of_def Let_def)
  then have na: "normalized la"
    by (simp add: add_to_normalized)
  have lb: "lb = add_to (TrimSpace b) la" "names_of e3 = lb"
    using assms(8,9) la(2) by (auto simp: mutate_locked_def names_of_def apply_whitelist_def Let_def)
  have "norm_name b \<in> set lb"
    unfolding lb(1) add_to_normal [OF na assms(4)] by simp
  moreover have "norm_name b \<notin> set la"
    unfolding la(1) add_to_normal [OF assms(2,3)] using assms(5,6) by auto
  moreover have "e_interceptor e3 = Some (SetWhitelist la (SetWhitelist lb i))"
    using assms(8,9) la(3) by (auto simp: mutate_locked_def apply_whitelist_def Let_def)
  ultimately show ?thesis
    using lb(2) na by (simp add: isWhitelisted_def SetWhitelist_normal)
qed

section \<open>Addresses\<close>

lemma port_like_Itoa: "port_like (Itoa p)"
  using digit_not_mem [of _ "nat (- p)"] port_like_nat_dec [of "nat p"] by (auto simp: Itoa_def port_like_def host_like_def)

lemma parseAddr_addr_port:
  assumes "host_like host" "int64 p"
  shows "parseAddr (addr_port host p) = (if CHR '':'' \<in> set host \<or> p \<le> 0 \<or> 65535 < p then None else Some (host, p))"
proof (cases "CHR '':'' \<in> set host")
  case True
  then have "hd host \<noteq> CHR ''[''"
    using assms(1) by (cases host) (auto simp: host_like_def)
  then show ?thesis
    using Split_too_many_colons [OF True _, of "Itoa p"] port_like_Itoa [of p] True
    by (simp add: parseAddr_def addr_port_def port_like_def)
next
  case False
  then show ?thesis
    using Split_plain [OF assms(1) False port_like_Itoa [of p]] assms(2)
    by (simp add: parseAddr_def addr_port_def)
qed

lemma v4_outside_Some: "v4_outside ip = Some s \<Longrightarrow> \<exists>a b c d. s = dotted [a, b, c, d] \<and> a \<noteq> 127"
proof -
  assume s: "v4_outside ip = Some s"
  then obtain v where v: "To4 ip = Some v" "\<not> IsLoopback v" "s = IP_String v"
    by (auto simp: v4_outside_def split: option.splits if_splits)
  then obtain a b c d where "v = [a, b, c, d]"
    using length_To4 [OF v(1)] by (auto simp: length_Suc_conv numeral_eq_Suc)
  with v(2,3) show ?thesis
    by (auto simp: IsLoopback_def intro: exI [of _ a])
qed

text \<open>The upstream's address in the filter is nothing or a dotted IPv4 address outside the loopback net.\<close>

lemma proxyFilterIP_result:
  "proxyFilterIP lookup host = [] \<or> (\<exists>a b c d. proxyFilterIP lookup host = dotted [a, b, c, d] \<and> a \<noteq> 127)"
proof -
  have first: "first_outside ips = [] \<or> (\<exists>a b c d. first_outside ips = dotted [a, b, c, d] \<and> a \<noteq> 127)" for ips
    by (induction ips) (auto split: option.splits dest: v4_outside_Some)
  have lit: "To4 ip = Some v \<Longrightarrow> \<not> IsLoopback ip \<Longrightarrow> \<exists>a b c d. IP_String v = dotted [a, b, c, d] \<and> a \<noteq> 127" for ip v
    using v4_outside_Some [of ip "IP_String v"] length_To4 [of ip v]
    by (auto simp: v4_outside_def IsLoopback_def To4_def split: if_splits option.splits)
  show ?thesis
    using first lit by (auto simp: proxyFilterIP_def Let_def split: option.split if_split)
qed

section \<open>Starting\<close>

definition server_params :: "Server \<Rightarrow> params" where
  "server_params srv = \<lparr>p_type = srv_Type srv, p_addr = addr_port (srv_Address srv) (srv_Port srv),
     p_user = srv_Username srv, p_pass = srv_Password srv\<rparr>"

lemma NewTProxy_Some:
  "NewTProxy ok t a u p b perf port = Some tp \<Longrightarrow>
   u_params (tp_upstream tp) = \<lparr>p_type = t, p_addr = a, p_user = u, p_pass = p\<rparr> \<and> u_cached (tp_upstream tp) = None \<and>
   32 * 1024 \<le> tp_bufferSize tp \<and> tp_bufferSize tp \<le> 1024 * 1024"
  using ClampBufferSize_bounds [of "BufferSize perf"]
  by (auto simp: NewTProxy_def NewUpstreamDialer_def split: if_splits)

lemma NewInterceptor_whitelist [simp]:
  "ic_whitelist (NewInterceptor ct pip pp tp ns) = {m. m \<noteq> [] \<and> m \<in> norm_name ` set ns}"
  "ic_proxyIP (NewInterceptor ct pip pp tp ns) = pip" "ic_proxyPort (NewInterceptor ct pip pp tp ns) = pp"
  "ic_tproxyPort (NewInterceptor ct pip pp tp ns) = tp" "ic_state (NewInterceptor ct pip pp tp ns) = ''stopped''"
  unfolding NewInterceptor_def ic_whitelist_SetWhitelist
  by (simp_all add: SetWhitelist_def setState_def SetProxyAddr_def)

text \<open>C24. Starting is all or nothing: either \<open>Start\<close> reports an error and the engine has neither proxy nor
  interceptor and holds no port, or both run, with the first usable server of the configuration as
  upstream, its credentials included, the interceptor exempts that server's address and port, and it
  works with the configured whitelist.\<close>

theorem start_all_or_nothing:
  assumes "e_tproxy e = None" "e_interceptor e = None" "\<not> e_listening e"
  shows "case eng_Start env e of
     (Some err, e') \<Rightarrow> e' = e
   | (None, e') \<Rightarrow> \<exists>srv tp i host port.
        find usable (elems (Servers (cfg_Outbounds (e_cfg e)))) = Some srv \<and>
        e_cfg e' = e_cfg e \<and> e_tproxy e' = Some tp \<and> e_interceptor e' = Some i \<and> e_listening e' \<and>
        u_params (tp_upstream tp) = server_params srv \<and> u_cached (tp_upstream tp) = None \<and>
        parseAddr (addr_port (srv_Address srv) (srv_Port srv)) = Some (host, port) \<and>
        ic_proxyIP i = proxyFilterIP (se_lookup env) host \<and> ic_proxyPort i = word_of_int port \<and> matching e'"
proof (cases "find usable (elems (Servers (cfg_Outbounds (e_cfg e))))")
  case None
  then show ?thesis by (simp add: eng_Start_def prepare_start_def)
next
  case (Some srv)
  show ?thesis
  proof (cases "parseAddr (addr_port (srv_Address srv) (srv_Port srv))")
    case None
    with Some show ?thesis by (simp add: eng_Start_def prepare_start_def Let_def)
  next
    case addr: (Some hp)
    obtain host port where hp: "hp = (host, port)" by force
    let ?tp = "NewTProxy (se_listen_ok env) (srv_Type srv) (addr_port (srv_Address srv) (srv_Port srv)) (srv_Username srv)
        (srv_Password srv) True (cfg_Performance (e_cfg e)) (TProxyPort (cfg_System (e_cfg e)))"
    let ?i = "NewInterceptor (e_tracker e) (proxyFilterIP (se_lookup env) host) (word_of_int port)
        (word_of_int (TProxyPort (cfg_System (e_cfg e)))) (elems (cfg_ProcessWhitelist (e_cfg e)))"
    show ?thesis
    proof (cases "?tp")
      case None
      with Some addr hp show ?thesis by (simp add: eng_Start_def prepare_start_def Let_def)
    next
      case tp: (Some tp)
      note params = NewTProxy_Some [OF tp]
      show ?thesis
      proof (cases "se_preflight env ?i")
        case None
        with Some addr hp tp params show ?thesis
          by (simp add: eng_Start_def prepare_start_def Let_def server_params_def matching_def allowed_def names_of_def)
      next
        case pre: (Some err)
        have "e\<lparr>e_listening := False\<rparr> = e"
          using assms(3) by simp
        with Some addr hp tp pre show ?thesis
          by (simp add: eng_Start_def prepare_start_def Let_def)
      qed
    qed
  qed
qed

lemma start_all_or_nothing_witness:
  "\<exists>e' tp. eng_Start \<lparr>se_listen_ok = \<lambda>_. True, se_preflight = \<lambda>_. None, se_lookup = \<lambda>_. None\<rparr> (eng_New 1 DefaultConfig) = (None, e') \<and>
     e_tproxy e' = Some tp \<and> u_params (tp_upstream tp) = \<lparr>p_type = ''socks5'', p_addr = ''127.0.0.1:9192'', p_user = [], p_pass = []\<rparr>"
proof -
  let ?env = "\<lparr>se_listen_ok = \<lambda>_. True, se_preflight = \<lambda>_. None, se_lookup = \<lambda>_. None\<rparr>" and ?e = "eng_New 1 DefaultConfig"
  let ?srv = "hd (elems (Servers (cfg_Outbounds DefaultConfig)))"
  have f: "find usable (elems (Servers (cfg_Outbounds (e_cfg ?e)))) = Some ?srv"
    by (simp add: eng_New_def DefaultConfig_def usable_def)
  have "Itoa 9192 = ''9192''"
    by (simp add: Itoa_def nat_dec.simps [of 9192] nat_dec_small digit_char_def) code_simp
  then have p: "server_params ?srv = \<lparr>p_type = ''socks5'', p_addr = ''127.0.0.1:9192'', p_user = [], p_pass = []\<rparr>"
    by (simp add: server_params_def DefaultConfig_def addr_port_def)
  have "parseAddr (addr_port (srv_Address ?srv) (srv_Port ?srv)) = Some (''127.0.0.1'', 9192)"
    using parseAddr_addr_port [of "''127.0.0.1''" 9192] by (simp add: DefaultConfig_def host_like_def int64_def)
  then obtain e' where e': "eng_Start ?env ?e = (None, e')"
    using f by (simp add: eng_Start_def prepare_start_def Let_def NewTProxy_def)
  have new: "e_tproxy ?e = None" "e_interceptor ?e = None" "\<not> e_listening ?e"
    by (simp_all add: eng_New_def)
  obtain srv tp where "find usable (elems (Servers (cfg_Outbounds (e_cfg ?e)))) = Some srv" "e_tproxy e' = Some tp"
    "u_params (tp_upstream tp) = server_params srv"
    using start_all_or_nothing [OF new, of ?env] unfolding e' by (simp only: prod.case option.case) blast
  moreover from this(1) have "srv = ?srv"
    using f by (simp only: option.inject)
  ultimately have "e_tproxy e' = Some tp" "u_params (tp_upstream tp) = \<lparr>p_type = ''socks5'', p_addr = ''127.0.0.1:9192'', p_user = [], p_pass = []\<rparr>"
    by (simp_all only: p)
  with e' show ?thesis by blast
qed

section \<open>Changing the upstream\<close>

lemma Dialer_Update: "fst (Dialer (Update t a u p x)) = build \<lparr>p_type = t, p_addr = a, p_user = u, p_pass = p\<rparr>"
  by (simp add: Dialer_def Dialer_read_def Dialer_write_def Update_def Let_def)

lemmas switch_upstream_defs = switch_upstream_def upstream_locked_def push_tproxy_def push_interceptor_def

lemma switch_config:
  assumes "wf_config (e_cfg e)" "config_ints (e_cfg e)" "int64 port"
  shows "wf_config (e_cfg (switch_upstream lookup pt address port e))"
    "config_ints (e_cfg (switch_upstream lookup pt address port e))"
proof -
  show "wf_config (e_cfg (switch_upstream lookup pt address port e))"
    using assms(1) by (simp add: switch_upstream_defs set_upstream_def wf_config_def Let_def split: list.split)
  show "config_ints (e_cfg (switch_upstream lookup pt address port e))"
    using assms(2,3)
    by (cases "elems (Servers (cfg_Outbounds (e_cfg e)))")
      (simp_all add: switch_upstream_defs set_upstream_def config_ints_def Let_def)
qed

text \<open>C23. When a call of \<open>UpdateUpstream\<close> that no other call overlaps has returned, the parts agree on
  the new upstream and the credentials are kept: the next dial of the TProxy uses the new type and
  address with the user and password of the configured server, the interceptor exempts the new
  address, only type, address and port of the first server have changed in the configuration, and
  when the save succeeded, the file loads as that configuration. (While the call runs the parts may
  still disagree, and \<open>upstream_edits_race\<close> shows what two overlapping calls can leave; that the next
  \<open>Start\<close> accepts the address is not said, \<open>Api.ipv6_upstream_breaks_start\<close> has one it refuses.)\<close>

theorem upstream_switch_consistent:
  assumes "wf_config (e_cfg e)" "config_ints (e_cfg e)" "int64 port" "save \<noteq> []"
    and "elems (Servers (cfg_Outbounds (e_cfg e))) = srv # others"
    and "e_tproxy e = Some tp" "e_interceptor e = Some i"
    and "eng_UpdateUpstream lookup env pt address port save e d = (e', d')"
  shows "\<exists>tp' i'. e_tproxy e' = Some tp' \<and> e_interceptor e' = Some i' \<and>
    fst (Dialer (tp_upstream tp')) = build \<lparr>p_type = pt, p_addr = addr_port address port,
      p_user = srv_Username srv, p_pass = srv_Password srv\<rparr> \<and>
    ic_proxyIP i' = proxyFilterIP lookup address \<and> ic_proxyPort i' = word_of_int port \<and>
    ic_whitelist i' = ic_whitelist i \<and>
    e_cfg e' = (e_cfg e)\<lparr>cfg_Outbounds :=
      \<lparr>Servers = Some (srv\<lparr>srv_Type := pt, srv_Address := address, srv_Port := port\<rparr> # others)\<rparr>\<rparr> \<and>
    (fst (Save env save (e_cfg e') d) = None \<longrightarrow> Load True save d' = Inr (e_cfg e'))"
proof -
  have e': "e' = switch_upstream lookup pt address port e"
    and d': "d' = final_disk (Save env save (e_cfg e') d)"
    using assms(4,8) by (auto simp: eng_UpdateUpstream_def Let_def save_if_def SaveConfig_def)
  have load: "fst (Save env save (e_cfg e') d) = None \<longrightarrow> Load True save d' = Inr (e_cfg e')"
    using Load_saved [OF switch_config [OF assms(1-3), of lookup pt address]] d' unfolding e' by blast
  have tp: "e_tproxy e' = Some (tp_UpdateUpstream pt (addr_port address port) (srv_Username srv) (srv_Password srv) tp)"
    using assms(5,6) by (simp add: e' switch_upstream_defs set_upstream_def Let_def)
  have i: "e_interceptor e' = Some (SetProxyAddr (proxyFilterIP lookup address) (word_of_int port) i)"
    using assms(7) by (simp add: e' switch_upstream_defs Let_def)
  have cfg: "e_cfg e' = (e_cfg e)\<lparr>cfg_Outbounds :=
      \<lparr>Servers = Some (srv\<lparr>srv_Type := pt, srv_Address := address, srv_Port := port\<rparr> # others)\<rparr>\<rparr>"
    using assms(5) by (simp add: e' switch_upstream_defs set_upstream_def Let_def)
  show ?thesis
    by (rule exI, rule exI, intro conjI, rule tp, rule i)
      (simp_all add: load cfg tp_UpdateUpstream_def Dialer_Update SetProxyAddr_def)
qed

text \<open>
  Two calls at the same time: both change the configuration under the lock, in this order, but
  nothing orders their calls of the TProxy behind it. When those come in the other order, the
  configuration, what the API shows and the saved file name the second upstream for good, while every
  new connection is dialled through the first.
\<close>

lemma upstream_edits_race:
  assumes "e_tproxy e = Some tp"
    and "upstream_locked pt host port e = (ca, e1)" "upstream_locked pt' host' port' e1 = (cb, e2)"
    and "e3 = push_tproxy pt host port ca (push_tproxy pt' host' port' cb e2)"
  shows "\<exists>srv others tp3. elems (Servers (cfg_Outbounds (e_cfg e3))) = srv # others \<and>
    srv_Type srv = pt' \<and> srv_Address srv = host' \<and> srv_Port srv = port' \<and> e_tproxy e3 = Some tp3 \<and>
    fst (Dialer (tp_upstream tp3)) = build \<lparr>p_type = pt, p_addr = addr_port host port, p_user = fst ca, p_pass = snd ca\<rparr>"
proof -
  have cfg: "e_cfg e3 = e_cfg e2" "elems (Servers (cfg_Outbounds (e_cfg e2))) =
      set_upstream pt' host' port' (elems (Servers (cfg_Outbounds (e_cfg e1))))"
    using assms(3,4) by (auto simp: upstream_locked_def push_tproxy_def Let_def)
  have "e_tproxy e2 = Some tp"
    using assms(1-3) by (auto simp: upstream_locked_def Let_def)
  then have "e_tproxy e3 = Some (tp_UpdateUpstream pt (addr_port host port) (fst ca) (snd ca)
      (tp_UpdateUpstream pt' (addr_port host' port') (fst cb) (snd cb) tp))"
    by (simp add: assms(4) push_tproxy_def)
  then show ?thesis
    using cfg by (cases "elems (Servers (cfg_Outbounds (e_cfg e1)))")
      (simp_all add: set_upstream_def tp_UpdateUpstream_def Dialer_Update)
qed

definition running_engine :: Engine where
  "running_engine = (eng_New 1 DefaultConfig)\<lparr>
     e_tproxy := Some \<lparr>tp_upstream = NewUpstreamDialer ''socks5'' ''127.0.0.1:9192'' ''u'' ''p'', tp_bufferSize = 65536, tp_has_stats = True\<rparr>,
     e_interceptor := Some (NewInterceptor (NewConnTracker 15 30 7893) [] 9192 7893 []), e_listening := True\<rparr>"

lemma upstream_switch_consistent_witness:
  "\<exists>tp'. e_tproxy (fst (eng_UpdateUpstream (\<lambda>_. None) good_env ''http'' ''10.0.0.1'' 8080 ''config.json'' running_engine Map.empty)) = Some tp' \<and>
     fst (Dialer (tp_upstream tp')) = build \<lparr>p_type = ''http'', p_addr = addr_port ''10.0.0.1'' 8080, p_user = [], p_pass = []\<rparr>"
proof -
  let ?srv = "hd (elems (Servers (cfg_Outbounds DefaultConfig)))"
  have cfg: "e_cfg running_engine = DefaultConfig"
    by (simp add: running_engine_def eng_New_def)
  have srv: "elems (Servers (cfg_Outbounds (e_cfg running_engine))) = [?srv]" "srv_Username ?srv = []" "srv_Password ?srv = []"
    by (simp_all add: cfg DefaultConfig_def)
  have wf: "wf_config (e_cfg running_engine)"
    by (simp only: cfg DefaultConfig_wf)
  have ok: "config_ints (e_cfg running_engine)" "int64 8080" "''config.json'' \<noteq> []"
    by (simp_all add: cfg config_ints_def int64_def DefaultConfig_def)
  obtain tp i where ti: "e_tproxy running_engine = Some tp" "e_interceptor running_engine = Some i"
    by (simp add: running_engine_def)
  show ?thesis
    using upstream_switch_consistent [OF wf ok srv(1) ti, of "\<lambda>_. None" good_env "''http''" "''10.0.0.1''" Map.empty
        "fst (eng_UpdateUpstream (\<lambda>_. None) good_env ''http'' ''10.0.0.1'' 8080 ''config.json'' running_engine Map.empty)"
        "snd (eng_UpdateUpstream (\<lambda>_. None) good_env ''http'' ''10.0.0.1'' 8080 ''config.json'' running_engine Map.empty)"]
    unfolding srv(2,3) by (simp only: prod.collapse simp_thms) blast
qed

section \<open>Counting connections\<close>

datatype stat_op = CountedIn string string | CountedOut string

primrec stat_step :: "stat_op \<Rightarrow> Stats \<Rightarrow> Stats" where
  "stat_step (CountedIn cid target) s = AddActiveConn cid target s"
| "stat_step (CountedOut cid) s = RemoveActiveConn cid s"

definition stats_ok :: "Stats \<Rightarrow> bool" where
  "stats_ok s \<longleftrightarrow> finite (dom (st_active s)) \<and> st_Connections s = int (card (dom (st_active s)))"

lemma stats_ok_step: "stats_ok s \<Longrightarrow> stats_ok (stat_step x s)"
proof (cases x)
  case (CountedIn cid target)
  assume "stats_ok s"
  then show ?thesis
    by (cases "cid \<in> dom (st_active s)")
      (simp_all add: CountedIn stats_ok_def AddActiveConn_def Let_def insert_absorb domIff)
next
  case (CountedOut cid)
  assume ok: "stats_ok s"
  show ?thesis
  proof (cases "st_active s cid")
    case None
    with ok show ?thesis by (simp add: CountedOut RemoveActiveConn_def)
  next
    case (Some t)
    then have "cid \<in> dom (st_active s)" by blast
    moreover from this have "0 < card (dom (st_active s))"
      using ok by (metis card_gt_0_iff empty_iff stats_ok_def)
    ultimately show ?thesis
      using ok Some by (simp add: CountedOut RemoveActiveConn_def stats_ok_def)
  qed
qed

text \<open>The number of connections the API reports is the number of connections being relayed: after
  any calls of \<open>AddActiveConn\<close> and \<open>RemoveActiveConn\<close>, by any connections in any order, repeated and
  unknown ids included, \<open>Connections\<close> is the number of active ids and never negative.\<close>

theorem connections_counted:
  "let s = foldl (\<lambda>s x. stat_step x s) (e_Stats (eng_New pid cfg)) ops in
     st_Connections s = int (card (dom (st_active s))) \<and> 0 \<le> st_Connections s \<and> st_PID s = pid"
proof -
  have "stats_ok (foldl (\<lambda>s x. stat_step x s) s ops) \<and> st_PID (foldl (\<lambda>s x. stat_step x s) s ops) = st_PID s" if "stats_ok s" for s
    using that
  proof (induction ops arbitrary: s)
    case (Cons x ops)
    have "st_PID (stat_step x s) = st_PID s"
      by (cases x) (simp_all add: AddActiveConn_def RemoveActiveConn_def Let_def)
    with Cons show ?case by (simp add: stats_ok_step)
  qed simp
  moreover have "stats_ok (e_Stats (eng_New pid cfg))" "st_PID (e_Stats (eng_New pid cfg)) = pid"
    by (simp_all add: stats_ok_def eng_New_def)
  ultimately show ?thesis
    by (simp add: stats_ok_def Let_def)
qed

end
