(* ===== verification/HttpProxy.thy ===== *)
theory HttpProxy
  imports Upstream
begin

text \<open>
  \<open>httpproxy.go\<close>: the CONNECT request to an HTTP upstream and what becomes of the connection.
  The network's answers are fields of \<open>connect_env\<close>; the operations on the connection are returned
  in order. For an address made of host characters the request's target is the address itself;
  what \<open>net/url\<close> makes of any other address is the field \<open>ce_url\<close>.
\<close>

section \<open>The request\<close>

definition crlf :: string where "crlf = [CHR 0x0D, CHR 0x0A]"

definition b64_char :: "nat \<Rightarrow> char" where
  "b64_char n = (if n < 26 then char_of (65 + n) else if n < 52 then char_of (71 + n)
     else if n < 62 then char_of (n - 4) else if n = 62 then CHR ''+'' else CHR ''/'')"

text \<open>\<open>base64.StdEncoding.EncodeToString\<close>\<close>

fun base64 :: "string \<Rightarrow> string" where
  "base64 (a # b # c # s) = (let n = of_char a * 65536 + of_char b * 256 + (of_char c :: nat) in
     [b64_char (n div 262144), b64_char (n div 4096 mod 64), b64_char (n div 64 mod 64), b64_char (n mod 64)] @ base64 s)"
| "base64 [a, b] = (let n = of_char a * 65536 + (of_char b :: nat) * 256 in
     [b64_char (n div 262144), b64_char (n div 4096 mod 64), b64_char (n div 64 mod 64), CHR ''=''])"
| "base64 [a] = (let n = (of_char a :: nat) * 65536 in
     [b64_char (n div 262144), b64_char (n div 4096 mod 64), CHR ''='', CHR ''=''])"
| "base64 [] = []"

definition Version :: string where "Version = ''v1.9.0''"

definition TrimPrefix :: "string \<Rightarrow> string \<Rightarrow> string" where
  "TrimPrefix s p = (if HasPrefix s p then drop (length p) s else s)"

definition connect_request :: "string \<Rightarrow> string \<Rightarrow> string \<Rightarrow> string" where
  "connect_request host user pass =
     ''CONNECT '' @ host @ '' HTTP/1.1'' @ crlf @ ''Host: '' @ host @ crlf
     @ ''User-Agent: GoPass/'' @ TrimPrefix Version ''v'' @ crlf
     @ (if user \<noteq> [] then ''Proxy-Authorization: Basic '' @ base64 (user @ '':'' @ pass) @ crlf else [])
     @ crlf"

section \<open>The dial\<close>

definition host_char :: "char \<Rightarrow> bool" where
  "host_char c \<longleftrightarrow> (let n = (of_char c :: nat) in (48 \<le> n \<and> n \<le> 57) \<or> (65 \<le> n \<and> n \<le> 90) \<or> (97 \<le> n \<and> n \<le> 122))
     \<or> c \<in> {CHR ''.'', CHR ''-'', CHR ''_'', CHR '':'', CHR ''['', CHR '']''}"

datatype conn_op = SetDeadline "time option" | WriteConn string | CloseConn

datatype http_error = ForwardFailed | BadTarget | SendFailed | ResponseFailed | Rejected nat

text \<open>The connection itself, or one that first returns the bytes read ahead.\<close>

datatype proxy_conn = PlainConn | BufferedConn string

text \<open>\<open>ce_response\<close>: the status of the response and what the reader holds behind its head.\<close>

record connect_env =
  ce_forward_ok :: bool
  ce_now :: time
  ce_url :: "string \<Rightarrow> string option"
  ce_write_ok :: bool
  ce_response :: "(nat \<times> string) option"

definition request_target :: "connect_env \<Rightarrow> string \<Rightarrow> string option" where
  "request_target env addr = (if addr \<noteq> [] \<and> list_all host_char addr \<and> SplitHostPort addr \<noteq> None then Some addr else ce_url env addr)"

definition HTTP_Dial :: "connect_env \<Rightarrow> string \<Rightarrow> string \<Rightarrow> string \<Rightarrow> (http_error + proxy_conn) \<times> conn_op list" where
  "HTTP_Dial env user pass addr =
     (if \<not> ce_forward_ok env then (Inl ForwardFailed, [])
      else let deadline = SetDeadline (Some (ce_now env + 10 * second))
      in case request_target env addr of None \<Rightarrow> (Inl BadTarget, [deadline, CloseConn])
         | Some host \<Rightarrow>
            let sent = [deadline, WriteConn (connect_request host user pass)]
            in if \<not> ce_write_ok env then (Inl SendFailed, sent @ [CloseConn])
               else (case ce_response env of None \<Rightarrow> (Inl ResponseFailed, sent @ [CloseConn])
                 | Some (code, ahead) \<Rightarrow>
                    if code \<noteq> 200 then (Inl (Rejected code), sent @ [CloseConn])
                    else (Inr (if ahead \<noteq> [] then BufferedConn ahead else PlainConn), sent @ [SetDeadline None])))"

text \<open>What reading a connection returns in all, when \<open>rest\<close> is still to come from the network.\<close>

primrec conn_bytes :: "proxy_conn \<Rightarrow> string \<Rightarrow> string" where
  "conn_bytes PlainConn rest = rest"
| "conn_bytes (BufferedConn ahead) rest = ahead @ rest"

section \<open>Properties\<close>

lemma b64_char_not_cr: "b64_char n \<notin> {CHR 0x0D, CHR 0x0A}"
proof -
  have "(of_char (b64_char n) :: nat) \<noteq> 13 \<and> (of_char (b64_char n) :: nat) \<noteq> 10"
    by (auto simp: b64_char_def)
  then show ?thesis by auto
qed

lemma base64_one_line: "CHR 0x0D \<notin> set (base64 s)" "CHR 0x0A \<notin> set (base64 s)"
  by (induction s rule: base64.induct) (use b64_char_not_cr in \<open>force simp: Let_def\<close>)+

definition lines_of :: "string \<Rightarrow> nat" where
  "lines_of s = length (filter (\<lambda>c. c = CHR 0x0D \<or> c = CHR 0x0A) s)"

lemma lines_of_simps [simp]:
  "lines_of [] = 0" "lines_of (a @ b) = lines_of a + lines_of b"
  "lines_of (c # s) = (if c = CHR 0x0D \<or> c = CHR 0x0A then Suc (lines_of s) else lines_of s)"
  by (simp_all add: lines_of_def)

lemma lines_of_zero: "CHR 0x0D \<notin> set s \<Longrightarrow> CHR 0x0A \<notin> set s \<Longrightarrow> lines_of s = 0"
  by (induction s) auto

lemma host_char_one_line: "list_all host_char s \<Longrightarrow> lines_of s = 0"
  by (rule lines_of_zero) (auto simp: list_all_iff host_char_def Let_def)

text \<open>No user name or password can add a header or a second request to the CONNECT request:
  it has its four line ends, and one more for the credentials, whatever they contain.\<close>

theorem connect_request_not_injectable:
  "list_all host_char host \<Longrightarrow>
   lines_of (connect_request host user pass) = (if user = [] then 8 else 10)"
  by (simp add: connect_request_def host_char_one_line lines_of_zero base64_one_line crlf_def TrimPrefix_def HasPrefix_def Version_def)

lemma connect_request_not_injectable_witness:
  "lines_of (connect_request ''example.com:443'' [CHR 0x0D, CHR 0x0A] ''x'') = 10"
  using connect_request_not_injectable [of "''example.com:443''" "[CHR 0x0D, CHR 0x0A]" "''x''"]
  by (simp add: host_char_def)

definition closes :: "conn_op list \<Rightarrow> nat" where
  "closes ops = length (filter (\<lambda>x. x = CloseConn) ops)"

text \<open>C36. A CONNECT dial that fails after the upstream was reached closes its connection, once and
  last; one that succeeds leaves it open without a deadline, and what is read from it is every byte
  the upstream sent behind the response, also those read ahead with it.\<close>

theorem connect_outcomes:
  "case HTTP_Dial env user pass addr of
     (Inl e, ops) \<Rightarrow> (if e = ForwardFailed then ops = [] else closes ops = 1 \<and> last ops = CloseConn)
   | (Inr conn, ops) \<Rightarrow> closes ops = 0 \<and> last ops = SetDeadline None \<and>
        (\<exists>ahead. ce_response env = Some (200, ahead) \<and> (\<forall>rest. conn_bytes conn rest = ahead @ rest))"
  by (auto simp: HTTP_Dial_def Let_def closes_def split: option.splits)

end
