(* ===== verification/Api.thy ===== *)
theory Api
  imports Engine HttpProxy
begin

text \<open>
  \<open>internal/api/api.go\<close>: the control API. A request is routed, guarded and handled in one step on the
  engine and the disk; the four handlers are methods of \<open>Server\<close>. A response is its status with the
  JSON value or the error text of its body. Paths are matched as they are, without the redirects of
  \<open>http.ServeMux\<close> and \<open>http.FileServer\<close>; every path but the API's four is that of an embedded file of
  the console, or 404.
\<close>

section \<open>Requests\<close>

record request =
  rq_Method :: string
  rq_Path :: string
  rq_Host :: string
  rq_Origin :: string
  rq_Body :: string

datatype reply_body = JsonBody json | ErrorText string | FileBody string

record response =
  rs_Code :: nat
  rs_Body :: reply_body

definition http_error :: "string \<Rightarrow> nat \<Rightarrow> response" where
  "http_error msg code = \<lparr>rs_Code = code, rs_Body = ErrorText msg\<rparr>"

definition json_ok :: "(string \<times> json) list \<Rightarrow> response" where
  "json_ok ms = \<lparr>rs_Code = 200, rs_Body = JsonBody (JObj ms)\<rparr>"

definition jint :: "int \<Rightarrow> json" where "jint i = JNum (Itoa i)"

text \<open>
  The engine may be nil; what the system answers to a handler, and the orders of two ranges.
  \<open>ae_files\<close>: is the path an embedded file, \<open>/\<close> being the index?
\<close>

record api_env =
  ae_save :: save_env
  ae_lookup :: "string \<Rightarrow> IP list option"
  ae_flows :: "Flow list"
  ae_keys :: "string list"
  ae_url :: "string \<Rightarrow> string option"
  ae_files :: "string \<Rightarrow> bool"

record api_state =
  as_engine :: "Engine option"
  as_disk :: disk

section \<open>The guard\<close>

text \<open>
  \<open>url.Parse(origin)\<close>, its \<open>Host\<close>: for a scheme of letters and a host of letters, digits, dots and
  hyphens with an optional port it is what follows \<open>://\<close>; for other texts it is the field \<open>ae_url\<close>.
\<close>

definition is_letter :: "char \<Rightarrow> bool" where
  "is_letter c \<longleftrightarrow> (let n = (of_char c :: nat) in (65 \<le> n \<and> n \<le> 90) \<or> (97 \<le> n \<and> n \<le> 122))"

definition plain_authority :: "string \<Rightarrow> bool" where
  "plain_authority a \<longleftrightarrow> (let h = takeWhile (\<lambda>c. c \<noteq> CHR '':'') a; p = dropWhile (\<lambda>c. c \<noteq> CHR '':'') a
     in h \<noteq> [] \<and> list_all (\<lambda>c. is_letter c \<or> is_digit c \<or> c = CHR ''.'' \<or> c = CHR ''-'') h
        \<and> list_all is_digit (tl p))"

definition origin_host :: "(string \<Rightarrow> string option) \<Rightarrow> string \<Rightarrow> string option" where
  "origin_host url origin = (let rest = dropWhile is_letter origin
     in if takeWhile is_letter origin \<noteq> [] \<and> HasPrefix rest ''://'' \<and> plain_authority (drop 3 rest)
        then Some (drop 3 rest) else url origin)"

definition allowedAPIHost :: "string \<Rightarrow> string \<Rightarrow> bool" where
  "allowedAPIHost listenHost hostHeader =
     (let hostname = (case SplitHostPort hostHeader of Some (h, p) \<Rightarrow> h | None \<Rightarrow> hostHeader);
          hostname = ToLower (Trim hostname ''[]'')
      in if hostname = [] then False
         else if hostname = ''localhost'' then True
         else if (case ParseIP hostname of Some ip \<Rightarrow> IsLoopback ip | None \<Rightarrow> False) then True
         else if listenHost \<noteq> [] \<and> listenHost \<noteq> ''0.0.0.0'' \<and> listenHost \<noteq> ''::'' then EqualFold hostname listenHost
         else ParseIP hostname \<noteq> None)"

definition listen_host :: "string \<Rightarrow> string" where
  "listen_host listenAddr = (case SplitHostPort listenAddr of Some (h, p) \<Rightarrow> ToLower h | None \<Rightarrow> [])"

definition guard :: "(string \<Rightarrow> string option) \<Rightarrow> string \<Rightarrow> (request \<Rightarrow> 's \<Rightarrow> response \<times> 's) \<Rightarrow>
    request \<Rightarrow> 's \<Rightarrow> response \<times> 's" where
  "guard url listenAddr handler rq s =
     (if \<not> HasPrefix (rq_Path rq) ''/api/'' then handler rq s
      else if rq_Origin rq \<noteq> [] \<and> (case origin_host url (rq_Origin rq) of None \<Rightarrow> True | Some h \<Rightarrow> \<not> EqualFold h (rq_Host rq))
        then (http_error ''forbidden: cross-origin request'' 403, s)
      else if \<not> allowedAPIHost (listen_host listenAddr) (rq_Host rq) then (http_error ''forbidden: host'' 403, s)
      else handler rq s)"

section \<open>Handlers\<close>

definition status_json :: "ProcessStatus \<Rightarrow> json" where
  "status_json p = JObj [(''process'', JStr (ps_Process p)), (''pid'', jint (uint (ps_PID p))),
     (''status'', JStr (ps_Status p)), (''connections'', jint (ps_Connections p)), (''targets'', JArr (map JStr (ps_Targets p)))]"

text \<open>The counting loop of \<open>handleStatus\<close>: programs and connections through the proxy and direct.\<close>

definition count_status :: "ProcessStatus \<Rightarrow> (int \<times> int) \<times> (int \<times> int) \<Rightarrow> (int \<times> int) \<times> (int \<times> int)" where
  "count_status p = (\<lambda>((pp, pc), (dp, dc)).
     if ps_Status p = ''proxy'' then ((pp + 1, pc + ps_Connections p), (dp, dc))
     else ((pp, pc), (dp + 1, dc + ps_Connections p)))"

definition count_all :: "ProcessStatus list \<Rightarrow> (int \<times> int) \<times> (int \<times> int)" where
  "count_all ps = foldl (\<lambda>c p. count_status p c) ((0, 0), (0, 0)) ps"

definition handleStatus :: "api_env \<Rightarrow> request \<Rightarrow> api_state \<Rightarrow> response \<times> api_state" where
  "handleStatus env rq s =
     (if rq_Method rq \<noteq> ''GET'' then (http_error ''method not allowed'' 405, s)
      else let (pid, conns) = (case as_engine s of None \<Rightarrow> (0, 0) | Some e \<Rightarrow> (st_PID (e_Stats e), st_Connections (e_Stats e)));
               statuses = (case as_engine s of None \<Rightarrow> [] | Some e \<Rightarrow> GetProcessStatuses (ae_flows env) (ae_keys env) e);
               ((pp, pc), (dp, dc)) = count_all statuses;
               (istate, imsg) = (case as_engine s of None \<Rightarrow> (''stopped'', not_started) | Some e \<Rightarrow> InterceptorState e)
           in (json_ok [(''connections'', jint conns), (''direct_connections'', jint dc), (''direct_programs'', jint dp),
                 (''interceptor'', JStr istate), (''interceptor_msg'', JStr imsg), (''pid'', jint pid),
                 (''processes'', JArr (map status_json statuses)), (''proxy_connections'', jint pc),
                 (''proxy_programs'', jint pp), (''status'', JStr ''running'')], s))"

record upstream_req =
  ur_Type :: string
  ur_Address :: string
  ur_Port :: int

definition upstream_field :: "string \<Rightarrow> json \<Rightarrow> upstream_req \<Rightarrow> upstream_req option" where
  "upstream_field k j r =
     (if EqualFold k ''type'' then map_option (\<lambda>x. r\<lparr>ur_Type := x\<rparr>) (into_string j (ur_Type r))
      else if EqualFold k ''address'' then map_option (\<lambda>x. r\<lparr>ur_Address := x\<rparr>) (into_string j (ur_Address r))
      else if EqualFold k ''port'' then map_option (\<lambda>x. r\<lparr>ur_Port := x\<rparr>) (into_int j (ur_Port r))
      else Some r)"

text \<open>\<open>json.NewDecoder(r.Body).Decode(&req)\<close>\<close>

definition decode_body :: "(string \<Rightarrow> json \<Rightarrow> 'r \<Rightarrow> 'r option) \<Rightarrow> 'r \<Rightarrow> string \<Rightarrow> 'r option" where
  "decode_body f zero body = (case json_first body of None \<Rightarrow> None | Some j \<Rightarrow> into_struct f j zero)"

definition valid_upstream :: "upstream_req \<Rightarrow> bool" where
  "valid_upstream r \<longleftrightarrow> (ur_Type r = ''socks5'' \<or> ur_Type r = ''http'') \<and> TrimSpace (ur_Address r) \<noteq> []
     \<and> \<not> ur_Port r < 1 \<and> \<not> 65535 < ur_Port r"

definition with_engine :: "(Engine \<Rightarrow> response \<times> Engine \<times> disk) \<Rightarrow> api_state \<Rightarrow> response \<times> api_state" where
  "with_engine f s = (case as_engine s of None \<Rightarrow> (http_error ''engine not ready'' 503, s)
     | Some e \<Rightarrow> (case f e of (r, e', d') \<Rightarrow> (r, \<lparr>as_engine = Some e', as_disk = d'\<rparr>)))"

definition handleUpstream :: "api_env \<Rightarrow> string \<Rightarrow> request \<Rightarrow> api_state \<Rightarrow> response \<times> api_state" where
  "handleUpstream env configPath rq s = with_engine (\<lambda>e.
     if rq_Method rq = ''GET'' then
       (case elems (Servers (cfg_Outbounds (GetConfig e))) of
          [] \<Rightarrow> (json_ok [(''address'', JStr []), (''port'', jint 0), (''type'', JStr [])], e, as_disk s)
        | x # _ \<Rightarrow> (json_ok [(''address'', JStr (srv_Address x)), (''port'', jint (srv_Port x)), (''type'', JStr (srv_Type x))],
            e, as_disk s))
     else if rq_Method rq = ''POST'' then
       (case decode_body upstream_field \<lparr>ur_Type = [], ur_Address = [], ur_Port = 0\<rparr> (rq_Body rq) of
          None \<Rightarrow> (http_error ''invalid upstream'' 400, e, as_disk s)
        | Some r \<Rightarrow> if \<not> valid_upstream r then (http_error ''invalid upstream'' 400, e, as_disk s)
            else (json_ok [(''status'', JStr ''ok'')],
              eng_UpdateUpstream (ae_lookup env) (ae_save env) (ur_Type r) (TrimSpace (ur_Address r)) (ur_Port r) configPath e (as_disk s)))
     else (http_error ''method not allowed'' 405, e, as_disk s)) s"

definition handlePerformance :: "api_env \<Rightarrow> string \<Rightarrow> request \<Rightarrow> api_state \<Rightarrow> response \<times> api_state" where
  "handlePerformance env configPath rq s = with_engine (\<lambda>e.
     if rq_Method rq = ''GET'' then
       (json_ok [(''buffer_size'', jint (ClampBufferSize (BufferSize (cfg_Performance (GetConfig e)))))], e, as_disk s)
     else if rq_Method rq = ''POST'' then
       (case decode_body PerformanceConfig_field \<lparr>BufferSize = 0\<rparr> (rq_Body rq) of
          None \<Rightarrow> (http_error ''invalid request'' 400, e, as_disk s)
        | Some r \<Rightarrow>
           (let n = ClampBufferSize (BufferSize r);
                e = eng_UpdatePerformance \<lparr>BufferSize = n\<rparr> e;
                (err, d) = SaveConfig (ae_save env) configPath e (as_disk s)
            in if err \<noteq> None then (http_error ''save failed'' 500, e, d)
               else (json_ok [(''buffer_size'', jint n), (''status'', JStr ''ok'')], e, d)))
     else (http_error ''method not allowed'' 405, e, as_disk s)) s"

definition process_field :: "string \<Rightarrow> json \<Rightarrow> string \<Rightarrow> string option" where
  "process_field k j r = (if EqualFold k ''process'' then into_string j r else Some r)"

definition handleProcessWhitelist :: "api_env \<Rightarrow> string \<Rightarrow> request \<Rightarrow> api_state \<Rightarrow> response \<times> api_state" where
  "handleProcessWhitelist env configPath rq s = with_engine (\<lambda>e.
     if rq_Method rq = ''GET'' then
       (json_ok [(''processes'', slice_json JStr (GetProcessWhitelist e))], e, as_disk s)
     else if rq_Method rq = ''POST'' \<or> rq_Method rq = ''DELETE'' then
       (case decode_body process_field [] (rq_Body rq) of
          None \<Rightarrow> (http_error ''process is required'' 400, e, as_disk s)
        | Some name \<Rightarrow>
           if TrimSpace name = [] then (http_error ''process is required'' 400, e, as_disk s)
           else let process = TrimSpace name;
                    (names, e, d) = AddProcess (ae_save env) process configPath e (as_disk s);
                    (names, e, d) = (if rq_Method rq = ''DELETE'' then RemoveProcess (ae_save env) process configPath e d
                                     else (names, e, d))
                in (json_ok [(''processes'', slice_json JStr names), (''status'', JStr ''ok'')], e, d))
     else (http_error ''method not allowed'' 405, e, as_disk s)) s"

section \<open>The server\<close>

text \<open>Durations; 0 is no limit.\<close>

record http_server =
  hs_Addr :: string
  hs_ReadHeaderTimeout :: int
  hs_ReadTimeout :: int
  hs_IdleTimeout :: int
  hs_WriteTimeout :: int

definition StartServer :: "(string \<Rightarrow> bool) \<Rightarrow> string \<Rightarrow> http_server option" where
  "StartServer listen_ok addr = (if \<not> listen_ok addr then None
     else Some \<lparr>hs_Addr = addr, hs_ReadHeaderTimeout = 5 * second, hs_ReadTimeout = 15 * second,
       hs_IdleTimeout = 60 * second, hs_WriteTimeout = 0\<rparr>)"

definition mux :: "api_env \<Rightarrow> string \<Rightarrow> request \<Rightarrow> api_state \<Rightarrow> response \<times> api_state" where
  "mux env configPath rq s =
     (if rq_Path rq = ''/api/status'' then handleStatus env rq s
      else if rq_Path rq = ''/api/upstream'' then handleUpstream env configPath rq s
      else if rq_Path rq = ''/api/performance'' then handlePerformance env configPath rq s
      else if rq_Path rq = ''/api/process-whitelist'' then handleProcessWhitelist env configPath rq s
      else if ae_files env (rq_Path rq) then (\<lparr>rs_Code = 200, rs_Body = FileBody (rq_Path rq)\<rparr>, s)
      else (http_error ''404 page not found'' 404, s))"

definition serve_api :: "api_env \<Rightarrow> string \<Rightarrow> string \<Rightarrow> request \<Rightarrow> api_state \<Rightarrow> response \<times> api_state" where
  "serve_api env listenAddr configPath = guard (ae_url env) listenAddr (mux env configPath)"

section \<open>Names are not addresses\<close>

text \<open>The characters of a DNS name.\<close>

definition dns_name :: "string \<Rightarrow> bool" where
  "dns_name s \<longleftrightarrow> list_all (\<lambda>c. is_letter c \<or> is_digit c \<or> c = CHR ''.'' \<or> c = CHR ''-'' \<or> c = CHR ''_'') s \<and> list_ex is_letter s"

lemma v4_loop_letter: "c \<in> set s \<Longrightarrow> \<not> is_digit c \<Longrightarrow> c \<noteq> CHR ''.'' \<Longrightarrow> v4_loop s v len fs dot = None"
proof (induction s v len fs dot rule: v4_loop.induct)
  case (2 x cs v len fs dot)
  show ?case
  proof (cases "x = c")
    case True
    with 2 show ?thesis by simp
  next
    case False
    with 2 show ?thesis by (auto simp: Let_def)
  qed
qed simp

lemma letter_not_mark:
  "is_letter c \<Longrightarrow> \<not> is_digit c" "is_letter c \<Longrightarrow> c \<noteq> CHR ''.''" "is_letter c \<Longrightarrow> c \<noteq> CHR '':''"
  "is_letter c \<Longrightarrow> c \<noteq> CHR ''[''" "is_letter c \<Longrightarrow> c \<noteq> CHR '']''" "is_letter c \<Longrightarrow> c \<noteq> CHR ''%''"
  by (auto simp: is_letter_def is_digit_def Let_def)

lemma is_letter_lower: "is_letter c \<Longrightarrow> is_letter (lower_char c)"
  by (auto simp: is_letter_def lower_char_def Let_def)

lemma lower_char_fix: "\<not> is_letter c \<Longrightarrow> lower_char c = c"
  by (auto simp: is_letter_def lower_char_def Let_def)

lemma dns_name_lower: "dns_name s \<Longrightarrow> dns_name (ToLower s)"
proof -
  assume d: "dns_name s"
  have "is_letter (lower_char c) \<or> is_digit (lower_char c) \<or> lower_char c = CHR ''.'' \<or> lower_char c = CHR ''-'' \<or> lower_char c = CHR ''_''"
    if "c \<in> set s" for c
    using d that is_letter_lower [of c] lower_char_fix [of c] by (cases "is_letter c") (auto simp: dns_name_def list_all_iff)
  with d show ?thesis
    by (auto simp: dns_name_def ToLower_def list_all_iff list_ex_iff intro: is_letter_lower)
qed

lemma dns_name_no_marks: "dns_name s \<Longrightarrow> c \<in> {CHR '':'', CHR ''['', CHR '']''} \<Longrightarrow> c \<notin> set s"
proof
  assume d: "dns_name s" and c: "c \<in> {CHR '':'', CHR ''['', CHR '']''}" "c \<in> set s"
  then have "is_letter c \<or> is_digit c \<or> c = CHR ''.'' \<or> c = CHR ''-'' \<or> c = CHR ''_''"
    by (auto simp: dns_name_def list_all_iff)
  moreover have "\<not> is_letter c \<and> \<not> is_digit c"
    using c(1) by (auto simp: is_letter_def is_digit_def)
  ultimately show False
    using c(1) by auto
qed

lemma ParseIP_dns_name:
  assumes "dns_name s"
  shows "ParseIP s = None"
proof -
  obtain c where c: "c \<in> set s" "is_letter c"
    using assms by (auto simp: dns_name_def list_ex_iff)
  then have v4: "v4_fields s = None"
    using v4_loop_letter [of c s] letter_not_mark [of c] by (simp add: v4_fields_def)
  have "CHR '':'' \<notin> set s"
    using dns_name_no_marks [OF assms] by blast
  then have "find (\<lambda>c. c \<in> set ''.:%'') s \<noteq> Some CHR '':''"
    by (auto simp: find_Some_iff)
  with v4 show ?thesis
    by (auto simp: ParseIP_def split: option.split)
qed

lemma Trim_id: "\<forall>c\<in>set s. c \<notin> set cutset \<Longrightarrow> Trim s cutset = s"
  by (simp add: Trim_def dropWhile_eq_self_iff hd_in_set) (metis dropWhile_eq_self_iff hd_in_set rev_rev_ident set_rev)

text \<open>A Host header that names a machine, with or without a port.\<close>

definition names_host :: "string \<Rightarrow> string \<Rightarrow> bool" where
  "names_host header name \<longleftrightarrow> header = name \<or> (\<exists>port. port_like port \<and> header = name @ CHR '':'' # port)"

lemma allowedAPIHost_name:
  assumes "dns_name name" "names_host header name"
  shows "allowedAPIHost listenHost header \<longleftrightarrow> ToLower name = ''localhost'' \<or>
    (listenHost \<noteq> [] \<and> listenHost \<noteq> ''0.0.0.0'' \<and> listenHost \<noteq> ''::'' \<and> EqualFold name listenHost)"
proof -
  have marks: "CHR '':'' \<notin> set name" "CHR ''['' \<notin> set name" "CHR '']'' \<notin> set name"
    using dns_name_no_marks [OF assms(1)] by blast+
  then have "index_of CHR '':'' (rev name) = None"
    by (simp add: index_of_eq_None)
  then have "SplitHostPort name = None"
    by (simp add: SplitHostPort_def last_index_of_def)
  moreover have "SplitHostPort (name @ CHR '':'' # port) = Some (name, port)" if "port_like port" for port
    using marks that by (simp add: Split_plain host_like_def)
  ultimately have split: "(case SplitHostPort header of Some (h, p) \<Rightarrow> h | None \<Rightarrow> header) = name"
    using assms(2) by (auto simp: names_host_def)
  have trim: "Trim name ''[]'' = name"
    using marks by (intro Trim_id) auto
  have ne: "ToLower name \<noteq> []"
    using assms(1) by (auto simp: dns_name_def)
  have ip: "ParseIP (ToLower name) = None"
    by (rule ParseIP_dns_name [OF dns_name_lower [OF assms(1)]])
  have "EqualFold (ToLower name) listenHost = EqualFold name listenHost"
    by (simp add: EqualFold_def)
  then show ?thesis
    unfolding allowedAPIHost_def Let_def split trim using ne ip by simp
qed

section \<open>Properties\<close>

text \<open>C17. DNS rebinding is blocked: a request to the API whose Host header is a domain name, with or
  without a port, other than \<open>localhost\<close> and the name the server was told to listen on, is refused
  with 403 and changes nothing, whatever its method, origin and body and whatever address the
  server listens on, the wildcard addresses included.\<close>

theorem dns_rebinding_refused:
  assumes "HasPrefix (rq_Path rq) ''/api/''" "dns_name name" "names_host (rq_Host rq) name"
    and "ToLower name \<noteq> ''localhost''" "\<not> EqualFold name (listen_host listenAddr)"
  shows "\<exists>resp. serve_api env listenAddr configPath rq s = (resp, s) \<and> rs_Code resp = 403"
  using assms(1,4,5) allowedAPIHost_name [OF assms(2,3)]
  by (simp add: serve_api_def guard_def http_error_def)

lemma dns_rebinding_refused_witness:
  "\<exists>resp. serve_api \<lparr>ae_save = good_env, ae_lookup = \<lambda>_. None, ae_flows = [], ae_keys = [], ae_url = \<lambda>_. None, ae_files = \<lambda>_. True\<rparr>
     ''0.0.0.0:8080'' ''config.json''
     \<lparr>rq_Method = ''POST'', rq_Path = ''/api/upstream'', rq_Host = ''evil.example:8080'', rq_Origin = [], rq_Body = []\<rparr>
     \<lparr>as_engine = Some running_engine, as_disk = Map.empty\<rparr> = (resp, \<lparr>as_engine = Some running_engine, as_disk = Map.empty\<rparr>)
   \<and> rs_Code resp = 403"
proof (rule dns_rebinding_refused [where name = "''evil.example''"])
  show "dns_name ''evil.example''" by code_simp
  show "names_host (rq_Host \<lparr>rq_Method = ''POST'', rq_Path = ''/api/upstream'', rq_Host = ''evil.example:8080'', rq_Origin = [], rq_Body = []\<rparr>) ''evil.example''"
    by (auto simp: names_host_def port_like_def host_like_def intro: exI [of _ "''8080''"])
  show "ToLower ''evil.example'' \<noteq> ''localhost''" by code_simp
  show "\<not> EqualFold ''evil.example'' (listen_host ''0.0.0.0:8080'')" by code_simp
qed (simp add: HasPrefix_def)

lemma with_engine_unchanged:
  assumes "\<And>e r e' d'. as_engine s = Some e \<Longrightarrow> f e = (r, e', d') \<Longrightarrow> P r \<or> (e' = e \<and> d' = as_disk s)"
    and "with_engine f s = (resp, s')"
  shows "P resp \<or> s' = s"
proof (cases "as_engine s")
  case None
  with assms(2) show ?thesis by (simp add: with_engine_def)
next
  case (Some e)
  obtain r e' d' where f: "f e = (r, e', d')" by (cases "f e") auto
  from assms(1) [OF Some f] show ?thesis
  proof
    assume "e' = e \<and> d' = as_disk s"
    then have "s' = s"
      using assms(2) Some f by (cases s) (simp add: with_engine_def)
    then show ?thesis ..
  qed (use assms(2) Some f in \<open>simp add: with_engine_def\<close>)
qed

text \<open>Answers that report a change: success, or a change that could not be saved.\<close>

definition may_change :: "request \<Rightarrow> response \<Rightarrow> bool" where
  "may_change rq r \<longleftrightarrow> (rq_Method rq = ''POST'' \<or> rq_Method rq = ''DELETE'') \<and> (rs_Code r = 200 \<or> rs_Code r = 500)"

lemma handlers_unchanged:
  "handleStatus env rq s = (resp, s') \<Longrightarrow> may_change rq resp \<or> s' = s"
  "handleUpstream env cfg rq s = (resp, s') \<Longrightarrow> may_change rq resp \<or> s' = s"
  "handlePerformance env cfg rq s = (resp, s') \<Longrightarrow> may_change rq resp \<or> s' = s"
  "handleProcessWhitelist env cfg rq s = (resp, s') \<Longrightarrow> may_change rq resp \<or> s' = s"
proof -
  show "handleStatus env rq s = (resp, s') \<Longrightarrow> may_change rq resp \<or> s' = s"
    by (auto simp: handleStatus_def Let_def split: prod.splits if_splits)
next
  assume h: "handleUpstream env cfg rq s = (resp, s')"
  show "may_change rq resp \<or> s' = s"
    by (rule with_engine_unchanged [OF _ h [unfolded handleUpstream_def]])
      (auto simp: may_change_def json_ok_def split: if_splits option.splits list.splits)
next
  assume h: "handlePerformance env cfg rq s = (resp, s')"
  show "may_change rq resp \<or> s' = s"
    by (rule with_engine_unchanged [OF _ h [unfolded handlePerformance_def]])
      (auto simp: may_change_def json_ok_def http_error_def Let_def split: if_splits option.splits prod.splits)
next
  assume h: "handleProcessWhitelist env cfg rq s = (resp, s')"
  show "may_change rq resp \<or> s' = s"
    by (rule with_engine_unchanged [OF _ h [unfolded handleProcessWhitelist_def]])
      (auto simp: may_change_def json_ok_def Let_def split: if_splits option.splits prod.splits)
qed

text \<open>C35. A refused request changes nothing: unless the answer to a POST or DELETE reports success (200)
  or that the save failed (500), neither the engine nor the disk is touched; in particular a GET,
  an invalid body, a wrong method and a request stopped by the guard change nothing.\<close>

theorem refused_request_changes_nothing:
  assumes "serve_api env listenAddr configPath rq s = (resp, s')" "\<not> may_change rq resp"
  shows "s' = s"
  using assms handlers_unchanged(1) [of env rq s resp s'] handlers_unchanged(2-4) [of env configPath rq s resp s']
  by (auto simp: serve_api_def guard_def mux_def split: if_splits)

lemma refused_request_changes_nothing_witness:
  "let rq = \<lparr>rq_Method = ''PUT'', rq_Path = ''/api/upstream'', rq_Host = ''localhost'', rq_Origin = [], rq_Body = []\<rparr>;
       s = \<lparr>as_engine = Some running_engine, as_disk = Map.empty\<rparr>;
       env = \<lparr>ae_save = good_env, ae_lookup = \<lambda>_. None, ae_flows = [], ae_keys = [], ae_url = \<lambda>_. None, ae_files = \<lambda>_. True\<rparr>
   in snd (serve_api env ''127.0.0.1:8080'' ''config.json'' rq s) = s"
proof -
  let ?rq = "\<lparr>rq_Method = ''PUT'', rq_Path = ''/api/upstream'', rq_Host = ''localhost'', rq_Origin = [], rq_Body = []\<rparr>"
  let ?s = "\<lparr>as_engine = Some running_engine, as_disk = Map.empty\<rparr>"
  let ?env = "\<lparr>ae_save = good_env, ae_lookup = \<lambda>_. None, ae_flows = [], ae_keys = [], ae_url = \<lambda>_. None, ae_files = \<lambda>_. True\<rparr>"
  obtain resp s' where r: "serve_api ?env ''127.0.0.1:8080'' ''config.json'' ?rq ?s = (resp, s')"
    by (cases "serve_api ?env ''127.0.0.1:8080'' ''config.json'' ?rq ?s")
  have "\<not> may_change ?rq resp"
    by (simp add: may_change_def)
  from refused_request_changes_nothing [OF r this] r show ?thesis
    by (simp add: Let_def)
qed

text \<open>The API takes an IPv6 address for the upstream, which the next start cannot parse.\<close>

lemma ipv6_upstream_breaks_start:
  "valid_upstream \<lparr>ur_Type = ''socks5'', ur_Address = ''fd00::1'', ur_Port = 1080\<rparr> \<and> parseAddr (addr_port ''fd00::1'' 1080) = None"
proof -
  have "parseAddr (addr_port ''fd00::1'' 1080) = None"
    by (subst parseAddr_addr_port) (simp_all add: host_like_def int64_def)
  moreover have "TrimSpace ''fd00::1'' = ''fd00::1''"
    by code_simp
  ultimately show ?thesis
    by (simp add: valid_upstream_def)
qed

end
