(* ===== verification/Startup.thy ===== *)
theory Startup
  imports Api
begin

text \<open>
  \<open>internal/singleton/singleton.go\<close> and \<open>cmd/gopass/main.go\<close>: the single-instance lock, and what the
  program does in which order when it starts and stops. \<open>main\<close> returns its steps, the disk they leave
  and the exit code, \<open>None\<close> when it runs until it is interrupted. Messages on the console are left out.
\<close>

section \<open>The single-instance lock\<close>

datatype win_error = ERROR_ALREADY_EXISTS | ERROR_ACCESS_DENIED | OtherWinError nat

datatype acquire_error = ErrAlreadyRunning | CreateMutexFailed win_error

definition classifyCreateMutexErr :: "win_error option \<Rightarrow> acquire_error option" where
  "classifyCreateMutexErr err = (case err of None \<Rightarrow> None
     | Some e \<Rightarrow> if e = ERROR_ALREADY_EXISTS \<or> e = ERROR_ACCESS_DENIED then Some ErrAlreadyRunning
         else Some (CreateMutexFailed e))"

text \<open>
  The handle the package keeps, 0 for none, and the handles that are open. \<open>CreateMutexW\<close> may return a
  handle together with an error. The mutex's name has no NUL, so its conversion does not fail.
\<close>

record lock_state =
  lk_handle :: nat
  lk_open :: "nat set"

definition acquire :: "nat \<times> win_error option \<Rightarrow> lock_state \<Rightarrow> (acquire_error + nat) \<times> lock_state" where
  "acquire created l =
     (let (h, err) = created;
          l = (if h \<noteq> 0 then l\<lparr>lk_open := insert h (lk_open l)\<rparr> else l)
      in case classifyCreateMutexErr err of
           Some c \<Rightarrow> (Inl c, if h \<noteq> 0 then l\<lparr>lk_open := lk_open l - {h}\<rparr> else l)
         | None \<Rightarrow> (Inr h, l))"

definition Acquire :: "nat \<times> win_error option \<Rightarrow> lock_state \<Rightarrow> acquire_error option \<times> lock_state" where
  "Acquire created l =
     (if lk_handle l \<noteq> 0 then (None, l)
      else (case acquire created l of
              (Inl e, l) \<Rightarrow> (Some e, l)
            | (Inr h, l) \<Rightarrow> (None, l\<lparr>lk_handle := h\<rparr>)))"

section \<open>Loading the configuration at startup\<close>

text \<open>\<open>me_rename_ok\<close>: whether the damaged file can be renamed to its backup.\<close>

record main_env =
  me_mutex :: "nat \<times> win_error option"
  me_config :: string
  me_read_ok :: bool
  me_save :: save_env
  me_rename_ok :: bool
  me_pid :: int
  me_start :: start_env
  me_listen_ok :: "string \<Rightarrow> bool"

text \<open>\<open>None\<close>: the path is a directory, and the program exits.\<close>

definition load_config :: "main_env \<Rightarrow> disk \<Rightarrow> Config option \<times> disk" where
  "load_config env d = (let path = me_config env in
     case Load (me_read_ok env) path d of
       Inr c \<Rightarrow> (Some c, d)
     | Inl NotExist \<Rightarrow> (Some DefaultConfig, final_disk (Save (me_save env) path DefaultConfig d))
     | Inl _ \<Rightarrow>
        if d path = Some Directory then (None, d)
        else if \<not> me_rename_ok env then (Some DefaultConfig, d)
        else (let d = d(path := None, path @ ''.corrupt'' := d path)
              in (Some DefaultConfig, final_disk (Save (me_save env) path DefaultConfig d))))"

section \<open>The program\<close>

datatype step = TakeLock | CleanUpDependencies | LoadConfig | NewEngine Engine | StartEngine "start_error option"
  | StartConsole bool | WaitForSignal | StopConsole | StopEngine Engine | CleanUpOnShutdown

definition run_engine :: "main_env \<Rightarrow> Config \<Rightarrow> step list \<times> nat option" where
  "run_engine env cfg =
     (let e = eng_New (me_pid env) cfg; (err, e') = eng_Start (me_start env) e in
      if err \<noteq> None then ([NewEngine e, StartEngine err], Some 1)
      else (let srv = StartServer (me_listen_ok env) (ListenAddr (cfg_API cfg))
            in ([NewEngine e, StartEngine None, StartConsole (srv \<noteq> None), WaitForSignal]
                @ (if srv \<noteq> None then [StopConsole] else []) @ [StopEngine (eng_Stop e'), CleanUpOnShutdown], None)))"

definition main :: "main_env \<Rightarrow> disk \<Rightarrow> step list \<times> disk \<times> nat option" where
  "main env d = (case Acquire (me_mutex env) \<lparr>lk_handle = 0, lk_open = {}\<rparr> of
       (Some _, _) \<Rightarrow> ([TakeLock], d, Some 1)
     | (None, _) \<Rightarrow>
        (case load_config env d of
           (None, d) \<Rightarrow> ([TakeLock, CleanUpDependencies, LoadConfig], d, Some 1)
         | (Some cfg, d) \<Rightarrow>
            (case run_engine env cfg of (steps, code) \<Rightarrow>
               ([TakeLock, CleanUpDependencies, LoadConfig] @ steps, d, code))))"

section \<open>Properties\<close>

text \<open>C27. The lock fails closed: \<open>Acquire\<close> reports success only when the mutex was created by this
  process without any error, now or before; every error, access denied and already existing alike,
  is reported, leaves the kept handle as it was and leaves no handle open that was not before. And a
  program that does not get the lock exits with code 1 having touched neither driver nor disk.\<close>

theorem lock_fails_closed:
  "(fst (Acquire (h, err) l) = None \<longleftrightarrow> lk_handle l \<noteq> 0 \<or> err = None) \<and>
   (fst (Acquire (h, Some e) l) = Some r \<longrightarrow> lk_handle (snd (Acquire (h, Some e) l)) = lk_handle l \<and>
      lk_open (snd (Acquire (h, Some e) l)) \<subseteq> lk_open l \<and>
      (r = ErrAlreadyRunning \<longleftrightarrow> e = ERROR_ALREADY_EXISTS \<or> e = ERROR_ACCESS_DENIED)) \<and>
   (me_mutex env = (h, Some e) \<longrightarrow> main env d = ([TakeLock], d, Some 1))"
  by (auto simp: Acquire_def acquire_def classifyCreateMutexErr_def main_def Let_def split: option.splits if_splits)

lemma lock_fails_closed_witness:
  "fst (Acquire (4, Some ERROR_ACCESS_DENIED) \<lparr>lk_handle = 0, lk_open = {1}\<rparr>) = Some ErrAlreadyRunning \<and>
   lk_open (snd (Acquire (4, Some ERROR_ACCESS_DENIED) \<lparr>lk_handle = 0, lk_open = {1}\<rparr>)) \<subseteq> {1}"
proof -
  have "fst (Acquire (4, Some ERROR_ACCESS_DENIED) \<lparr>lk_handle = 0, lk_open = {1}\<rparr>) = Some ErrAlreadyRunning"
    by (simp add: Acquire_def acquire_def classifyCreateMutexErr_def Let_def)
  then show ?thesis
    using lock_fails_closed [of 4 None "\<lparr>lk_handle = 0, lk_open = {1}\<rparr>" ERROR_ACCESS_DENIED ErrAlreadyRunning] by simp
qed

lemma Save_other:
  assumes "p \<noteq> path" "\<forall>r. p \<noteq> temp_name env path r"
  shows "final_disk (Save env path c d) p = d p"
proof -
  have "final_disk (Save env path c d) \<in> set (snd (Save env path c d))"
    by (simp add: final_disk_def snd_Save_not_Nil)
  then show ?thesis
    by (rule Save_states') (use assms in auto)
qed

lemma corrupt_not_temp: "path @ ''.corrupt'' \<noteq> temp_name env path r"
proof
  assume "path @ ''.corrupt'' = temp_name env path r"
  then have "last (path @ ''.corrupt'') = last (temp_name env path r)" by (rule arg_cong)
  moreover have "last (temp_name env path r) = CHR ''p''"
    by (simp add: temp_name_def join_path_def)
  ultimately show False by simp
qed

lemma DefaultConfig_ints: "config_ints DefaultConfig"
  by (simp add: config_ints_def DefaultConfig_def int64_def)

text \<open>C22. Starting never destroys a configuration and never runs with a broken one. The program
  gives up, with the disk as it was, exactly when the path is a directory. Otherwise it runs with a
  well-formed configuration: the one in the file when the file loads, and then the disk is not
  touched, and the default one when there is no file or it does not load. A file that is there is
  still there afterwards, under its name or under the name of the backup, whatever fails on the way;
  and when there is none and the default configuration is saved, the file loads as it.\<close>

theorem startup_keeps_config:
  "case load_config env d of
     (None, d') \<Rightarrow> d (me_config env) = Some Directory \<and> d' = d
   | (Some c, d') \<Rightarrow> d (me_config env) \<noteq> Some Directory \<and> wf_config c \<and>
       (\<forall>c0. Load (me_read_ok env) (me_config env) d = Inr c0 \<longrightarrow> c = c0 \<and> d' = d) \<and>
       (\<forall>err. Load (me_read_ok env) (me_config env) d = Inl err \<longrightarrow> c = DefaultConfig) \<and>
       (\<forall>s m. d (me_config env) = Some (File s m) \<longrightarrow>
          d' (me_config env) = Some (File s m) \<or> d' (me_config env @ ''.corrupt'') = Some (File s m)) \<and>
       (d (me_config env) = None \<and> fst (Save (me_save env) (me_config env) DefaultConfig d) = None \<longrightarrow>
          Load True (me_config env) d' = Inr DefaultConfig)"
proof (cases "Load (me_read_ok env) (me_config env) d")
  case (Inr c0)
  then have "wf_config c0" "d (me_config env) \<noteq> Some Directory" "d (me_config env) \<noteq> None"
    by (auto simp: Load_def UnmarshalJSON_wf split: option.splits node.splits if_splits)
  with Inr show ?thesis
    by (auto simp: load_config_def Let_def)
next
  case (Inl e)
  let ?p = "me_config env" and ?b = "me_config env @ ''.corrupt''"
  show ?thesis
  proof (cases "d ?p")
    case None
    then have "Load (me_read_ok env) ?p d = Inl NotExist"
      by (simp add: Load_def)
    then have "load_config env d = (Some DefaultConfig, final_disk (Save (me_save env) ?p DefaultConfig d))"
      by (simp add: load_config_def Let_def)
    then show ?thesis
      using None Inl Load_saved [OF DefaultConfig_wf DefaultConfig_ints] by (simp add: DefaultConfig_wf)
  next
    case (Some node)
    then have ne: "e \<noteq> NotExist"
      using Inl by (auto simp: Load_def split: option.splits node.splits if_splits)
    show ?thesis
    proof (cases "node = Directory \<or> \<not> me_rename_ok env")
      case True
      with Inl ne Some show ?thesis
        by (cases e) (auto simp: load_config_def Let_def DefaultConfig_wf)
    next
      case False
      let ?d = "d(?p := None, ?b := d ?p)"
      have "load_config env d = (Some DefaultConfig, final_disk (Save (me_save env) ?p DefaultConfig ?d))"
        using Inl ne Some False by (cases e) (auto simp: load_config_def Let_def)
      moreover have "final_disk (Save (me_save env) ?p DefaultConfig ?d) ?b = ?d ?b"
        using corrupt_not_temp by (intro Save_other) auto
      ultimately show ?thesis
        using Inl Some False by (auto simp: DefaultConfig_wf)
    qed
  qed
qed

definition example_start :: start_env where
  "example_start = \<lparr>se_listen_ok = \<lambda>_. True, se_preflight = \<lambda>_. None, se_lookup = \<lambda>_. None\<rparr>"

definition example_main :: main_env where
  "example_main = \<lparr>me_mutex = (4, None), me_config = ''config.json'', me_read_ok = True, me_save = good_env, me_rename_ok = True,
     me_pid = 1, me_start = example_start, me_listen_ok = \<lambda>_. True\<rparr>"

lemma startup_keeps_config_witness:
  "(\<exists>d'. load_config example_main [''config.json'' \<mapsto> File ''{'' 420] = (Some DefaultConfig, d') \<and>
      (d' ''config.json'' = Some (File ''{'' 420) \<or> d' ''config.json.corrupt'' = Some (File ''{'' 420))) \<and>
   (\<exists>d'. load_config example_main Map.empty = (Some DefaultConfig, d') \<and> Load True ''config.json'' d' = Inr DefaultConfig)"
proof
  let ?d = "[''config.json'' \<mapsto> File ''{'' 420]"
  have "json_parse ''{'' = None"
    by code_simp
  then have "Load True ''config.json'' ?d = Inl BadJson"
    by (simp add: Load_def)
  then obtain d' where d': "load_config example_main ?d = (Some DefaultConfig, d')"
    by (simp add: load_config_def Let_def example_main_def)
  have "?d (me_config example_main) = Some (File ''{'' 420)"
    by (simp add: example_main_def)
  with startup_keeps_config [of ?d example_main]
  have "d' (me_config example_main) = Some (File ''{'' 420) \<or> d' (me_config example_main @ ''.corrupt'') = Some (File ''{'' 420)"
    unfolding d' by simp
  then show "\<exists>d'. load_config example_main ?d = (Some DefaultConfig, d') \<and>
      (d' ''config.json'' = Some (File ''{'' 420) \<or> d' ''config.json.corrupt'' = Some (File ''{'' 420))"
    using d' by (simp add: example_main_def)
next
  obtain d' where d': "load_config example_main Map.empty = (Some DefaultConfig, d')"
    by (simp add: load_config_def Let_def Load_def)
  have "fst (Save good_env ''config.json'' DefaultConfig Map.empty) = None"
    by (rule Save_good [OF CreateTemp_good]) simp_all
  then have "fst (Save (me_save example_main) (me_config example_main) DefaultConfig Map.empty) = None"
    by (simp add: example_main_def)
  with startup_keeps_config [of Map.empty example_main] have "Load True (me_config example_main) d' = Inr DefaultConfig"
    unfolding d' by simp
  then have "Load True ''config.json'' d' = Inr DefaultConfig"
    by (simp add: example_main_def)
  with d' show "\<exists>d'. load_config example_main Map.empty = (Some DefaultConfig, d') \<and> Load True ''config.json'' d' = Inr DefaultConfig"
    by blast
qed

end
