(* ===== verification/ReceiveLoop.thy ===== *)
theory ReceiveLoop
  imports PacketPath
begin

text \<open>
  The receive loop of \<open>Start\<close> over its turns: it never panics while the driver keeps to the buffers it is
  given, every batch ends with an empty queue, and the state it reports is \<open>error\<close> exactly after
  twenty failed receives in a row.
\<close>

text \<open>What the documentation of WinDivert promises of one turn: buffers of the loop's sizes, and a single
  receive that stays within the buffer (a batched one is checked by the code).\<close>

definition turn_ok :: "turn \<Rightarrow> bool" where
  "turn_ok t \<longleftrightarrow> (\<forall>i. env_ok (tn_env t i)) \<and> length (tn_bytes t) = recvBufSize \<and> length (tn_addrs t) = batchPackets \<and>
     (\<forall>n. drv_recv (tn_driver t) recvBufSize = Some n \<longrightarrow> n \<le> recvBufSize)"

definition failing :: "turn \<Rightarrow> bool" where
  "failing t = (case RecvBatch (tn_driver t) recvBufSize batchPackets of Inl _ \<Rightarrow> True | Inr _ \<Rightarrow> False)"

definition running :: "turn \<Rightarrow> bool" where
  "running t \<longleftrightarrow> \<not> tn_stop t \<and> \<not> tn_stop_late t"

text \<open>The loop after \<open>k\<close> failed receives in a row.\<close>

definition loop_inv :: "nat \<Rightarrow> receiver \<Rightarrow> bool" where
  "loop_inv k s \<longleftrightarrow> ic_handle (w_ic (rc_world s)) \<and> w_q (rc_world s) = Some newSendQueue \<and> rc_fails s = int k \<and>
     rc_errored s = (20 \<le> k) \<and> ic_state (w_ic (rc_world s)) = (if 20 \<le> k then stateError else stateRunning)"

lemma RecvBatch_fits:
  assumes "RecvBatch d recvBufSize batchPackets = Inr (n, p)"
    and "\<forall>n. drv_recv d recvBufSize = Some n \<longrightarrow> n \<le> recvBufSize"
  shows "n \<le> recvBufSize" "p \<le> batchPackets"
proof -
  show "p \<le> batchPackets" using RecvBatch_bounds [OF assms(1)] by simp
  show "n \<le> recvBufSize"
  proof (cases "drv_recvEx d")
    case None
    then show ?thesis
      using assms by (auto simp: RecvBatch_def Recv_def split: if_splits option.splits)
  next
    case (Some f)
    then show ?thesis
      using RecvBatch_bounds [OF assms(1)] by (simp add: batchPackets_def)
  qed
qed

lemma flush_empties:
  assumes "within b p w0 w"
  shows "\<exists>w'. flushQueue e w = Some w' \<and> w_q w' = Some newSendQueue \<and> w_ic w' = w_ic w"
proof -
  obtain q where q: "w_q w = Some q" "sq_inv q" "sq_cap q = recvBufSize" using assms by (auto simp: within_def)
  have reset: "sq_reset q = newSendQueue"
    using q(3) by (simp add: sq_reset_def newSendQueue_def)
  show ?thesis
  proof (cases "sq_count q = 0")
    case True
    then have "sq_lens q = []" by (simp add: sq_count_def)
    then have "q = newSendQueue"
      using q(2,3) by (simp add: sq_inv_def newSendQueue_def)
    with q True show ?thesis by (simp add: flushQueue_def)
  next
    case False
    with q(1) reset show ?thesis
      by (auto simp: flushQueue_def SendBatch_list [OF q(2)] split: prod.split)
  qed
qed

lemma within_new: "w_q w = Some newSendQueue \<Longrightarrow> within 0 0 w w"
  by (simp add: within_def sq_count_def)

lemma processBatch_within:
  assumes "\<And>i. env_ok (e i)" "length buf \<le> recvBufSize" "w_q w = Some newSendQueue"
  shows "\<exists>r w'. processBatch e buf addrs w = Some (r, w') \<and> within (length buf) (length addrs) w w'"
  using batch_loop_within [OF within_new [OF assms(3)] _ assms(2), of e addrs] assms(1)
  by (auto simp: processBatch_def runs_def split: sum.split)

text \<open>One turn takes the count to its successor or to zero.\<close>

lemma start_turn_inv:
  assumes "loop_inv k s" "turn_ok t" "running t"
  shows "\<exists>s'. start_turn t s = Some (True, s') \<and> loop_inv (if failing t then Suc k else 0) s'"
proof (cases "RecvBatch (tn_driver t) recvBufSize batchPackets")
  case (Inl err)
  have "20 \<le> int (Suc k) \<and> \<not> rc_errored s \<longleftrightarrow> k = 19"
    using assms(1) by (auto simp: loop_inv_def)
  then show ?thesis
    using assms(1,3) Inl
    by (auto simp: start_turn_def Let_def failing_def running_def loop_inv_def setState_def on_ic_def)
next
  case (Inr np)
  obtain n p where np: "np = (n, p)" by (cases np)
  note fits = RecvBatch_fits [OF Inr [unfolded np]]
  have n: "n \<le> recvBufSize" "p \<le> batchPackets" using fits assms(2) by (auto simp: turn_ok_def)
  obtain w1 where w1: "w1 = (if rc_errored s then on_ic (setState stateRunning '''') (rc_world s) else rc_world s)" by simp
  have ok1: "w_q w1 = Some newSendQueue" "ic_handle (w_ic w1)" "ic_state (w_ic w1) = stateRunning"
    using assms(1) by (auto simp: w1 loop_inv_def setState_def on_ic_def)
  let ?buf = "take n (tn_bytes t)" and ?addrs = "take p (tn_addrs t)"
  obtain r w2 where w2: "processBatch (tn_env t) ?buf ?addrs w1 = Some (r, w2)" "within (length ?buf) (length ?addrs) w1 w2"
    using processBatch_within [of "tn_env t" ?buf w1 ?addrs] ok1 assms(2) n by (auto simp: turn_ok_def)
  obtain w3 where w3: "flushQueue (tn_env t 0) w2 = Some w3" "w_q w3 = Some newSendQueue" "w_ic w3 = w_ic w2"
    using flush_empties [OF w2(2)] by blast
  have st: "ic_handle (w_ic w2)" "ic_state (w_ic w2) = stateRunning"
    using w2(2) ok1 by (auto simp: within_def status_def)
  have cut: "subslice (tn_bytes t) 0 n = Some ?buf" "subslice (tn_addrs t) 0 p = Some ?addrs"
    using n assms(2) by (simp_all add: turn_ok_def slice_Some)
  have eq: "start_turn t s = (if 0 < n \<and> 0 < p
      then Some (True, s\<lparr>rc_fails := 0, rc_errored := False, rc_world := w3\<rparr>)
      else Some (True, s\<lparr>rc_fails := 0, rc_errored := False, rc_world := w1\<rparr>))"
    using assms(1,3) cut w2(1) w3(1) unfolding w1
    by (cases "rc_errored s") (auto simp: start_turn_def Let_def Inr np running_def loop_inv_def)
  then show ?thesis
    using w3 st ok1 by (auto simp: loop_inv_def failing_def Inr np)
qed

lemma trailing_Suc:
  "length (takeWhile P (rev (xs @ [x]))) = (if P x then Suc (length (takeWhile P (rev xs))) else 0)"
  by simp

lemma start_loop_append:
  "start_loop xs s = Some s1 \<Longrightarrow> (\<forall>x \<in> set xs. running x \<and> turn_ok x) \<Longrightarrow> loop_inv k s \<Longrightarrow>
   start_loop (xs @ ys) s = start_loop ys s1"
proof (induction xs arbitrary: s k)
  case (Cons x xs)
  obtain s2 where s2: "start_turn x s = Some (True, s2)" "loop_inv (if failing x then Suc k else 0) s2"
    using start_turn_inv [OF Cons.prems(3), of x] Cons.prems(2) by auto
  then show ?case using Cons.IH [of s2] Cons.prems by simp
qed simp

lemma start_loop_inv:
  assumes "\<forall>t \<in> set ts. turn_ok t \<and> running t" "loop_inv 0 s"
  shows "\<exists>s'. start_loop ts s = Some s' \<and> loop_inv (length (takeWhile failing (rev ts))) s'"
  using assms(1)
proof (induction ts rule: rev_induct)
  case Nil
  then show ?case using assms(2) by simp
next
  case (snoc t ts)
  obtain s1 where s1: "start_loop ts s = Some s1" "loop_inv (length (takeWhile failing (rev ts))) s1"
    using snoc by auto
  obtain s2 where "start_turn t s1 = Some (True, s2)"
    "loop_inv (if failing t then Suc (length (takeWhile failing (rev ts))) else 0) s2"
    using start_turn_inv [OF s1(2), of t] snoc.prems by auto
  moreover have "start_loop (ts @ [t]) s = start_loop [t] s1"
    using snoc.prems by (intro start_loop_append [OF s1(1) _ assms(2)]) auto
  ultimately show ?case by (simp only: trailing_Suc) simp
qed

text \<open>C18. The receive loop survives any sequence of failed receives and of batches of any bytes: it always
  comes to its next turn, with an empty reinjection queue, and the state it reports is \<open>error\<close> exactly
  while the last twenty or more receives failed, and \<open>running\<close> otherwise, so one good receive ends the
  error.\<close>

theorem receive_loop_reports:
  assumes "\<forall>t \<in> set ts. turn_ok t \<and> \<not> tn_stop t \<and> \<not> tn_stop_late t"
    and "w_q w = Some newSendQueue" "ic_handle (w_ic w)" "ic_state (w_ic w) = stateRunning"
  shows "\<exists>s. start_loop ts \<lparr>rc_world = w, rc_fails = 0, rc_errored = False\<rparr> = Some s \<and>
    w_q (rc_world s) = Some newSendQueue \<and>
    ic_state (w_ic (rc_world s)) = (if 20 \<le> length (takeWhile failing (rev ts)) then stateError else stateRunning)"
proof -
  have "loop_inv 0 \<lparr>rc_world = w, rc_fails = 0, rc_errored = False\<rparr>"
    using assms(2-) by (simp add: loop_inv_def)
  from start_loop_inv [OF _ this, of ts] show ?thesis
    using assms(1) by (auto simp: running_def loop_inv_def)
qed

theorem receive_loop_reports_witness:
  "let t = \<lparr>tn_stop = False, tn_stop_late = False, tn_driver = plain_driver, tn_bytes = replicate recvBufSize 0,
            tn_addrs = replicate batchPackets some_address, tn_env = \<lambda>_. quiet_env, tn_message = ''lost''\<rparr>
   in \<exists>s. start_loop (replicate 20 t) \<lparr>rc_world = on_ic (setState stateRunning '''') idle_world, rc_fails = 0, rc_errored = False\<rparr> = Some s \<and>
      ic_state (w_ic (rc_world s)) = stateError"
proof -
  obtain t where t: "t = \<lparr>tn_stop = False, tn_stop_late = False, tn_driver = plain_driver, tn_bytes = replicate recvBufSize 0,
            tn_addrs = replicate batchPackets some_address, tn_env = \<lambda>_. quiet_env, tn_message = ''lost''\<rparr>" by simp
  have ok: "turn_ok t" "\<not> tn_stop t" "\<not> tn_stop_late t" by (simp_all add: t turn_ok_def plain_driver_def)
  have bad: "failing t"
    by (simp add: t failing_def RecvBatch_def Recv_def plain_driver_def batchPackets_def recvBufSize_def maxPacketSize_def)
  then have all: "takeWhile failing (replicate 20 t) = replicate 20 t"
    by (intro takeWhile_eq_all_conv [THEN iffD2]) simp
  let ?w = "on_ic (setState stateRunning '''') idle_world"
  have w: "w_q ?w = Some newSendQueue" "ic_handle (w_ic ?w)" "ic_state (w_ic ?w) = stateRunning"
    by (simp_all add: on_ic_def setState_def)
  have "\<forall>x \<in> set (replicate 20 t). turn_ok x \<and> \<not> tn_stop x \<and> \<not> tn_stop_late x" using ok by simp
  from receive_loop_reports [OF this w] show ?thesis
    unfolding Let_def t [symmetric] rev_replicate all length_replicate by auto
qed

section \<open>The background refresh\<close>

lemma refresh_tick_runs:
  assumes "os_ok (ev_os e)"
  shows "runs (keeps i) (refresh_tick e i)"
proof -
  have "runs (\<lambda>_. True) (Refresh (ev_os e) (ev_clock e) (ic_resolver i))"
    using assms by (intro runs_weaken [OF Refresh_runs]) (simp_all add: os_ok_def)
  then show ?thesis
    unfolding refresh_tick_def
    by (auto simp: keeps_def status_def intro!: runs_bind runs_weaken [OF refresh_udp6_runs [OF assms]]
        intro: runs_weaken [OF refresh_tcp6_runs [OF assms]])
qed

text \<open>It never panics, whatever the other goroutines do to the state, as long as the tables can be read.\<close>

lemma refreshLoop_runs:
  assumes "\<And>e. Ticked e \<in> set es \<Longrightarrow> os_ok (ev_os e)" "\<And>f i. Meanwhile f \<in> set es \<Longrightarrow> f (Some i) \<noteq> None"
  shows "fst (refreshLoop es i) \<noteq> None"
  unfolding refreshLoop_def
proof (rule ticker_loop_invariant [of "\<lambda>s. s \<noteq> None"])
  fix e and s :: "Interceptor option" assume "Ticked e \<in> set es" "s \<noteq> None"
  then show "Option.bind s (refresh_tick e) \<noteq> None"
    using refresh_tick_runs [OF assms(1)] by (fastforce simp: runs_def)
qed (use assms(2) in auto)

section \<open>Errors in the log\<close>

text \<open>\<open>logRateLimited\<close>: whether the error is printed, and the time of the last one that was.\<close>

definition logRateLimited :: "time \<Rightarrow> time \<Rightarrow> bool \<times> time" where
  "logRateLimited now logErr = (if time_sub now logErr < second then (False, logErr) else (True, now))"

primrec log_times :: "time list \<Rightarrow> time \<Rightarrow> time list" where
  "log_times [] logErr = []"
| "log_times (now # ts) logErr = (case logRateLimited now logErr of
     (printed, logErr) \<Rightarrow> (if printed then [now] else []) @ log_times ts logErr)"

text \<open>At most one line a second, however many errors come.\<close>

lemma log_times_spaced: "successively (\<lambda>t u. second \<le> u - t) (logErr # log_times ts logErr)"
  by (induction ts arbitrary: logErr) (auto simp: logRateLimited_def time_sub_less not_less successively_Cons split: if_splits)

end
