(* ===== verification/Lifecycle.thy ===== *)
theory Lifecycle
  imports Startup ReceiveLoop
begin

text \<open>
  The whole process and the driver: what \<open>main\<close>, the engine and the interceptor do to the driver's
  service, files, DLL and handles from the lock to the exit. \<open>run_process\<close> composes the models of
  \<open>main.go\<close>, \<open>engine.go\<close> and \<open>windivert.go\<close> in the order of the calls.
\<close>

section \<open>Starting the engine with the real preflight check\<close>

text \<open>
  What the driver calls meet: the process token, the environment of the clean-up, of the start and of
  the shutdown, and the answers of \<open>WinDivertOpen\<close> to the preflight check and to the receive loop.
\<close>

record driver_env =
  de_token :: "bool option"
  de_clean :: load_env
  de_load :: load_env
  de_stop :: load_env
  de_check :: "string \<Rightarrow> nat option"
  de_receive :: "string \<Rightarrow> nat option"

text \<open>The engine's result, the handles closed by the preflight check, and the driver afterwards.\<close>

definition start_engine :: "driver_env \<Rightarrow> start_env \<Rightarrow> Engine \<Rightarrow> divert \<Rightarrow> ((start_error option \<times> Engine) \<times> nat list \<times> divert) option" where
  "start_engine de se e dv = (case prepare_start se e of
       Inl err \<Rightarrow> Some ((Some err, e), [], dv)
     | Inr (tp, i) \<Rightarrow> do {
         (err, closed, dv) \<leftarrow> preflight (isProcessElevated (de_token de)) (de_load de) (de_check de) i dv;
         Some (eng_Start (se\<lparr>se_preflight := \<lambda>_. err\<rparr>) e, closed, dv) })"

text \<open>
  The goroutine of \<open>Start\<close>, which opens its handle and stores it for the receive loop, races with \<open>Stop\<close>,
  which closes the stored handle (\<open>Interceptor.Close\<close>) and then releases the DLL (\<open>CleanUpOnShutdown\<close>). Either it
  stores first; or it has opened but stores too late, and nobody closes the handle (\<open>late_handle_stays_open\<close>); or
  it gets to \<open>wdOpen\<close> only after the DLL is gone; or the process ends before it gets there.
\<close>

datatype start_race = StoresFirst | StoresLate | OpensLate | NeverOpens

definition receive_and_stop :: "start_race \<Rightarrow> driver_env \<Rightarrow> Interceptor \<Rightarrow> divert \<Rightarrow> (nat list \<times> divert) option" where
  "receive_and_stop race de i dv = (case race of
       NeverOpens \<Rightarrow> Some ([], CleanUp_OnShutdown (de_stop de) dv)
     | OpensLate \<Rightarrow> do {
         (_, dv) \<leftarrow> wdOpen (de_load de) (de_receive de) (buildFilter i) (CleanUp_OnShutdown (de_stop de) dv);
         Some ([], dv) }
     | StoresLate \<Rightarrow> do {
         (_, dv) \<leftarrow> wdOpen (de_load de) (de_receive de) (buildFilter i) dv;
         Some ([], CleanUp_OnShutdown (de_stop de) dv) }
     | StoresFirst \<Rightarrow> do {
         (r, dv) \<leftarrow> wdOpen (de_load de) (de_receive de) (buildFilter i) dv;
         closed \<leftarrow> (case r of Inl _ \<Rightarrow> Some [] | Inr h \<Rightarrow> map_option fst (wd_Close h));
         Some (closed, CleanUp_OnShutdown (de_stop de) dv) })"

text \<open>
  The process: its exit code (\<open>None\<close> after a signal), the handles it closed, and the driver at the
  end. The result is \<open>None\<close> when it panics.
\<close>

definition run_process :: "start_race \<Rightarrow> driver_env \<Rightarrow> main_env \<Rightarrow> disk \<Rightarrow> divert \<Rightarrow> (nat option \<times> nat list \<times> divert) option" where
  "run_process race de me d dv = (case Acquire (me_mutex me) \<lparr>lk_handle = 0, lk_open = {}\<rparr> of
       (Some _, _) \<Rightarrow> Some (Some 1, [], dv)
     | (None, _) \<Rightarrow>
         (let dv = CleanUp_Dependencies (de_clean de) dv in
          case load_config me d of
            (None, _) \<Rightarrow> Some (Some 1, [], dv)
          | (Some cfg, _) \<Rightarrow> do {
              ((err, e), checked, dv) \<leftarrow> start_engine de (me_start me) (eng_New (me_pid me) cfg) dv;
              case (err, e_interceptor e) of
                (None, Some i) \<Rightarrow> do {
                  (closed, dv) \<leftarrow> receive_and_stop race de i dv;
                  Some (None, checked @ closed, dv) }
              | _ \<Rightarrow> Some (Some 1, checked, dv) }))"

section \<open>What is left behind\<close>

lemma CleanUp_OnShutdown_opened [simp]: "dv_opened (CleanUp_OnShutdown env s) = dv_opened s"
  by (simp add: CleanUp_OnShutdown_def)

text \<open>What each outcome of the race leaves open.\<close>

definition left_open :: "start_race \<Rightarrow> nat list \<Rightarrow> bool" where
  "left_open race hs \<longleftrightarrow> hs = [] \<or> race = StoresLate \<and> length hs = 1"

lemma receive_and_stop_result:
  assumes "ready (de_load de) dv dll"
  shows "case receive_and_stop race de i dv of
     None \<Rightarrow> race = OpensLate
   | Some (closed, dv') \<Rightarrow> race \<noteq> OpensLate \<and>
       (\<exists>hs dv1. left_open race hs \<and> dv_opened dv' = dv_opened dv @ closed @ hs \<and> dv' = CleanUp_OnShutdown (de_stop de) dv1)"
proof -
  note open_ready = wdOpen_ready [OF assms filter_no_nul [of i], of "de_receive de"]
  have close: "procClose dll" using assms by (simp add: ready_def loaded_def)
  have late: "wdOpen (de_load de) (de_receive de) (buildFilter i) (CleanUp_OnShutdown (de_stop de) dv) = None"
    using assms by (intro open_after_shutdown_panics) (simp_all add: ready_def)
  show ?thesis
  proof (cases "de_receive de (buildFilter i)")
    case None
    then show ?thesis
      using open_ready late by (cases race) (auto simp: receive_and_stop_def left_open_def)
  next
    case (Some h)
    then show ?thesis
      using open_ready late close
      by (cases race) (auto simp: receive_and_stop_def left_open_def wd_Close_def)
  qed
qed

lemma start_env_preflight:
  "se_listen_ok (se\<lparr>se_preflight := f\<rparr>) = se_listen_ok se" "se_lookup (se\<lparr>se_preflight := f\<rparr>) = se_lookup se"
  by simp_all

lemma prepare_start_preflight: "prepare_start (se\<lparr>se_preflight := f\<rparr>) e = prepare_start se e"
  unfolding prepare_start_def start_env_preflight ..

lemma start_engine_result:
  assumes "unloaded dv"
  obtains (failed) err e dv' where "start_engine de se e0 dv = Some ((Some err, e), [], dv')" "dv_opened dv' = dv_opened dv"
  | (running) e i h dll dv' where "start_engine de se e0 dv = Some ((None, e), [h], dv')" "e_interceptor e = Some i"
      "ready (de_load de) dv' dll" "dv_opened dv' = dv_opened dv @ [h]"
proof (cases "prepare_start se e0")
  case (Inl err)
  then show ?thesis by (intro failed) (simp_all add: start_engine_def)
next
  case (Inr ti)
  obtain tp i where ti: "ti = (tp, i)" by force
  obtain err closed dv' where p: "preflight (isProcessElevated (de_token de)) (de_load de) (de_check de) i dv = Some (err, closed, dv')"
    and opened: "dv_opened dv' = dv_opened dv @ closed"
    and r: "case err of
       None \<Rightarrow> isProcessElevated (de_token de) \<and> (\<exists>h. de_check de (buildFilter i) = Some h \<and> closed = [h]) \<and>
         (\<exists>dll. ready (de_load de) dv' dll)
     | Some e \<Rightarrow> closed = []"
    using preflight_result [OF assms, of "isProcessElevated (de_token de)" "de_load de" "de_check de" i] by blast
  have prep: "prepare_start (se\<lparr>se_preflight := f\<rparr>) e0 = Inr (tp, i)" for f
    using Inr ti by (simp add: prepare_start_preflight)
  have s: "start_engine de se e0 dv = Some (eng_Start (se\<lparr>se_preflight := \<lambda>_. err\<rparr>) e0, closed, dv')"
    by (simp add: start_engine_def Inr ti p)
  show ?thesis
  proof (cases err)
    case None
    obtain h dll where h: "closed = [h]" "ready (de_load de) dv' dll" "dv_opened dv' = dv_opened dv @ [h]"
      using r None opened by auto
    have "start_engine de se e0 dv = Some ((None, e0\<lparr>e_tproxy := Some tp, e_interceptor := Some i, e_listening := True\<rparr>), [h], dv')"
      using s None prep h(1) by (simp add: eng_Start_def)
    then show ?thesis
      by (rule running [OF _ _ h(2,3)]) simp
  next
    case (Some e)
    with s r prep have "start_engine de se e0 dv = Some ((Some (PreflightFailed e), e0\<lparr>e_listening := False\<rparr>), [], dv')"
      by (simp add: eng_Start_def)
    then show ?thesis by (rule failed) (use opened r Some in simp)
  qed
qed

lemma CleanUp_OnShutdown_files:
  assumes "fs_cwd (le_fs env) \<noteq> None" "n \<in> set divert_files" "fs_remove_ok (le_fs env) (in_cwd (le_fs env) n)"
  shows "dv_files (CleanUp_OnShutdown env dv) (in_cwd (le_fs env) n) = None"
  using assms by (auto simp: CleanUp_OnShutdown_def divert_files_def remove_file_def)

lemma unloaded_CleanUp [simp]: "unloaded (CleanUp_Dependencies env dv) = unloaded dv"
  by (simp add: unloaded_def CleanUp_Dependencies_def)

text \<open>The process is the one of \<open>Startup\<close>, with the answer that the preflight check gives.\<close>

lemma start_engine_eng_Start:
  "start_engine de se e dv = Some (r, closed, dv') \<Longrightarrow> \<exists>err. r = eng_Start (se\<lparr>se_preflight := \<lambda>_. err\<rparr>) e"
  by (auto simp: start_engine_def eng_Start_def prepare_start_preflight bind_eq_Some_conv split: sum.splits)

lemma main_env_start:
  "me_mutex (me\<lparr>me_start := x\<rparr>) = me_mutex me" "me_config (me\<lparr>me_start := x\<rparr>) = me_config me"
  "me_read_ok (me\<lparr>me_start := x\<rparr>) = me_read_ok me" "me_save (me\<lparr>me_start := x\<rparr>) = me_save me"
  "me_rename_ok (me\<lparr>me_start := x\<rparr>) = me_rename_ok me" "me_pid (me\<lparr>me_start := x\<rparr>) = me_pid me"
  "me_start (me\<lparr>me_start := x\<rparr>) = x" "me_listen_ok (me\<lparr>me_start := x\<rparr>) = me_listen_ok me"
  by simp_all

lemma load_config_start: "load_config (me\<lparr>me_start := x\<rparr>) d = load_config me d"
  unfolding load_config_def main_env_start ..

lemma eng_Start_interceptor: "eng_Start se e = (None, e') \<Longrightarrow> \<exists>i. e_interceptor e' = Some i"
  by (auto simp: eng_Start_def split: sum.splits option.splits)

lemma run_process_main:
  assumes "run_process race de me d dv = Some (code, closed, dv')"
  shows "\<exists>err. snd (snd (main (me\<lparr>me_start := (me_start me)\<lparr>se_preflight := \<lambda>_. err\<rparr>\<rparr>) d)) = code"
proof -
  let ?me = "\<lambda>err. me\<lparr>me_start := (me_start me)\<lparr>se_preflight := \<lambda>_. err\<rparr>\<rparr>"
  obtain lerr l where lock: "Acquire (me_mutex me) \<lparr>lk_handle = 0, lk_open = {}\<rparr> = (lerr, l)" by fastforce
  obtain c d' where c: "load_config me d = (c, d')" by fastforce
  have main: "main (?me err) d = (case lerr of Some _ \<Rightarrow> ([TakeLock], d, Some 1)
      | None \<Rightarrow> (case c of None \<Rightarrow> ([TakeLock, CleanUpDependencies, LoadConfig], d', Some 1)
         | Some cfg \<Rightarrow> (case run_engine (?me err) cfg of (steps, code) \<Rightarrow>
             ([TakeLock, CleanUpDependencies, LoadConfig] @ steps, d', code))))" for err
    unfolding main_def main_env_start load_config_start lock c by (simp split: option.split)
  show ?thesis
  proof (cases "lerr \<noteq> None \<or> c = None")
    case True
    then show ?thesis
      using assms lock c unfolding main by (auto simp: run_process_def Let_def split: option.splits)
  next
    case False
    then obtain cfg where n: "lerr = None" "c = Some cfg" by auto
    let ?e0 = "eng_New (me_pid me) cfg"
    obtain serr e checked dv1 where s: "start_engine de (me_start me) ?e0 (CleanUp_Dependencies (de_clean de) dv) = Some ((serr, e), checked, dv1)"
      using assms lock c n by (auto simp: run_process_def Let_def bind_eq_Some_conv)
    then obtain err where err: "eng_Start ((me_start me)\<lparr>se_preflight := \<lambda>_. err\<rparr>) ?e0 = (serr, e)"
      using start_engine_eng_Start [OF s] by auto
    have "code = (if serr = None then None else Some 1)"
      using assms lock c n s eng_Start_interceptor [of "(me_start me)\<lparr>se_preflight := \<lambda>_. err\<rparr>" ?e0 e] err
      by (cases serr) (auto simp: run_process_def Let_def bind_eq_Some_conv)
    then have "snd (snd (main (?me err) d)) = code"
      unfolding main using n err by (simp add: run_engine_def main_env_start Let_def del: main_env.simps)
    then show ?thesis by blast
  qed
qed

section \<open>A handle that comes too late\<close>

text \<open>
  \<open>Close\<close> closes the handle it finds. When it runs while \<open>Start\<close> is still opening one, the receive loop returns
  at its first look at the stop channel and nobody closes the handle.
\<close>

lemma late_handle_stays_open:
  assumes "Start e None (Close i) = Some (None, Some r, i')" "tn_stop t" "start_loop (t # ts) r = Some r'"
  shows "ic_handle (w_ic (rc_world r'))"
proof -
  have "keeps x y \<Longrightarrow> ic_handle x \<Longrightarrow> ic_handle y" for x y
    by (simp add: keeps_def status_def)
  then have h: "ic_handle (w_ic (rc_world r))" "w_q (rc_world r) = Some newSendQueue"
    using assms(1)
    by (auto simp: Start_def bind_eq_Some_conv refresh_tcp6_def refresh_udp6_def setState_def)
  then have "flushQueue (tn_env t 0) (rc_world r) = Some (rc_world r)"
    by (simp add: flushQueue_def newSendQueue_def sq_count_def)
  with assms(2,3) h show ?thesis
    by (auto simp: start_turn_def setState_def on_ic_def)
qed

section \<open>Properties\<close>

text \<open>C12. What the process does with the driver, whatever Windows answers. A process that does not get the lock leaves
  driver, service and files alone; one that fails to start has closed every handle it opened. One that was
  stopped has released the DLL and removed from its working directory each of the three files that it may remove, and has
  closed every handle it opened if the receive loop had stored its handle, or not opened it yet, when the stop came; if
  it stored the handle later, exactly that one may stay open, and only if it reaches \<open>wdOpen\<close> after the DLL was
  released the process panics.\<close>

theorem process_releases_driver:
  assumes "unloaded dv"
  shows "case run_process race de me d dv of
     None \<Rightarrow> race = OpensLate
   | Some (Some _, closed, dv') \<Rightarrow> dv_opened dv' = dv_opened dv @ closed \<and> (snd (me_mutex me) = None \<or> dv' = dv)
   | Some (None, closed, dv') \<Rightarrow> race \<noteq> OpensLate \<and> wdDLL dv' = None \<and>
       (\<exists>hs. dv_opened dv' = dv_opened dv @ closed @ hs \<and> (hs = [] \<or> race = StoresLate \<and> length hs = 1)) \<and>
       (fs_cwd (le_fs (de_stop de)) = None \<or> (\<forall>n\<in>set divert_files. fs_remove_ok (le_fs (de_stop de)) (in_cwd (le_fs (de_stop de)) n) \<longrightarrow>
          dv_files dv' (in_cwd (le_fs (de_stop de)) n) = None))"
proof (cases "Acquire (me_mutex me) \<lparr>lk_handle = 0, lk_open = {}\<rparr>")
  case lock: (Pair lerr l)
  show ?thesis
  proof (cases lerr)
    case (Some x)
    with lock show ?thesis by (simp add: run_process_def)
  next
    case None
    have mutex: "snd (me_mutex me) = None"
      using lock None by (auto simp: Acquire_def acquire_def classifyCreateMutexErr_def Let_def split: option.splits if_splits prod.splits)
    let ?dv = "CleanUp_Dependencies (de_clean de) dv"
    have clean: "dv_opened ?dv = dv_opened dv" by (simp add: CleanUp_Dependencies_def)
    obtain c d' where c: "load_config me d = (c, d')" by fastforce
    show ?thesis
    proof (cases c)
      case None
      with lock \<open>lerr = None\<close> c mutex clean show ?thesis by (simp add: run_process_def Let_def)
    next
      case (Some cfg)
      have u: "unloaded ?dv" using assms by simp
      show ?thesis
        using u
      proof (cases rule: start_engine_result [of ?dv de "me_start me" "eng_New (me_pid me) cfg"])
        case (failed err e dv')
        with lock \<open>lerr = None\<close> c Some mutex clean show ?thesis by (simp add: run_process_def Let_def)
      next
        case (running e i h dll dv')
        have run: "run_process race de me d dv = map_option (\<lambda>(closed, dv). (None, h # closed, dv)) (receive_and_stop race de i dv')"
          using running lock \<open>lerr = None\<close> c Some
          by (cases "receive_and_stop race de i dv'") (auto simp: run_process_def Let_def)
        have stopped: "wdDLL (CleanUp_OnShutdown (de_stop de) x) = None" for x
          by (simp add: CleanUp_OnShutdown_def)
        show ?thesis
          using receive_and_stop_result [OF running(3), of race i] running(4) clean CleanUp_OnShutdown_files [of "de_stop de"]
          unfolding run by (auto simp: left_open_def stopped split: option.splits)
      qed
    qed
  qed
qed

definition example_driver :: driver_env where
  "example_driver = \<lparr>de_token = Some True, de_clean = willing_env, de_load = willing_env, de_stop = willing_env,
     de_check = \<lambda>_. Some 5, de_receive = \<lambda>_. Some 6\<rparr>"

lemma example_prepare: "\<exists>ti. prepare_start example_start (eng_New 1 DefaultConfig) = Inr ti"
proof -
  let ?srv = "hd (elems (Servers (cfg_Outbounds DefaultConfig)))"
  have "find usable (elems (Servers (cfg_Outbounds (e_cfg (eng_New 1 DefaultConfig))))) = Some ?srv"
    by (simp add: eng_New_def DefaultConfig_def usable_def)
  moreover have "parseAddr (addr_port (srv_Address ?srv) (srv_Port ?srv)) = Some (''127.0.0.1'', 9192)"
    using parseAddr_addr_port [of "''127.0.0.1''" 9192] by (simp add: DefaultConfig_def host_like_def int64_def)
  ultimately show ?thesis
    by (simp add: prepare_start_def Let_def NewTProxy_def example_start_def)
qed

lemma example_load:
  assumes "unloaded dv" "dv_files dv = Map.empty"
  shows "wdErr (load_once willing_env dv) = None"
  using assms(2) by (simp add: load_once_def prepare_files_def place_dll_def place_sys_def willing_env_def
      fileContentMatch_def write_file_def extractSysFile_def load_procs_def required_procs_def Let_def)

theorem process_releases_driver_witness:
  "\<exists>dv'. run_process StoresFirst example_driver example_main Map.empty blank_divert = Some (None, [5, 6], dv') \<and>
     dv_opened dv' = [5, 6] \<and> wdDLL dv' = None \<and> dv_files dv' (in_cwd (le_fs willing_env) ''WinDivert.dll'') = None"
proof -
  let ?dv = "CleanUp_Dependencies willing_env blank_divert"
  have "unloaded blank_divert"
    by (simp add: unloaded_def blank_divert_def)
  then have blank: "unloaded blank_divert" "unloaded ?dv"
    by simp_all
  have files: "dv_files ?dv = Map.empty"
    by (simp add: blank_divert_def CleanUp_Dependencies_def divert_files_def remove_file_def willing_env_def)
  have c: "load_config example_main Map.empty = (Some DefaultConfig, final_disk (Save good_env ''config.json'' DefaultConfig Map.empty))"
    by (simp add: load_config_def example_main_def Load_def)
  obtain tp i where p: "prepare_start example_start (eng_New 1 DefaultConfig) = Inr (tp, i)"
    using example_prepare by force
  obtain dv1 where f: "preflight True willing_env (\<lambda>_. Some 5) i ?dv = Some (None, [5], dv1)"
    by (rule preflight_succeeds [OF blank(2) example_load [OF blank(2) files], of "\<lambda>_. Some 5" i 5]) simp_all
  then obtain dll where "ready willing_env dv1 dll"
    using preflight_result [OF blank(2), of True willing_env "\<lambda>_. Some 5" i] by auto
  then obtain dv2 where rcv: "receive_and_stop StoresFirst example_driver i dv1 = Some ([6], dv2)"
    using wdOpen_ready [OF _ filter_no_nul [of i], of willing_env dv1 dll "\<lambda>_. Some 6"]
    by (simp add: receive_and_stop_def example_driver_def wd_Close_def ready_def loaded_def)
  have s: "start_engine example_driver example_start (eng_New 1 DefaultConfig) ?dv =
      Some (eng_Start (example_start\<lparr>se_preflight := \<lambda>_. None\<rparr>) (eng_New 1 DefaultConfig), [5], dv1)"
    by (simp add: start_engine_def p f example_driver_def isProcessElevated_def)
  have e: "eng_Start (example_start\<lparr>se_preflight := \<lambda>_. None\<rparr>) (eng_New 1 DefaultConfig) =
      (None, eng_New 1 DefaultConfig\<lparr>e_tproxy := Some tp, e_interceptor := Some i, e_listening := True\<rparr>)"
    by (simp add: eng_Start_def prepare_start_preflight p)
  have env: "de_clean example_driver = willing_env" "de_stop example_driver = willing_env" "me_start example_main = example_start"
    "me_pid example_main = 1" "Acquire (me_mutex example_main) \<lparr>lk_handle = 0, lk_open = {}\<rparr> = (None, \<lparr>lk_handle = 4, lk_open = {4}\<rparr>)"
    by (simp_all add: example_driver_def example_main_def Acquire_def acquire_def classifyCreateMutexErr_def)
  have run: "run_process StoresFirst example_driver example_main Map.empty blank_divert = Some (None, [5, 6], dv2)"
    by (simp add: run_process_def env c s e rcv Let_def)
  have "fs_cwd (le_fs willing_env) \<noteq> None" "fs_remove_ok (le_fs willing_env) = (\<lambda>_. True)" "dv_opened blank_divert = []"
    by (simp_all add: willing_env_def blank_divert_def)
  with run show ?thesis
    using process_releases_driver [OF blank(1), of StoresFirst example_driver example_main Map.empty]
    by (auto simp: env divert_files_def)
qed

end
