(* ===== verification/Spec2Isabelle.thy ===== *)
theory Spec2Isabelle
  imports SystemSpec Blocking Lifecycle
begin

text \<open>
  goPass (\<open>src/\<close>) is a transparent TCP proxy for Windows. WinDivert hands it the outgoing packets of the
  machine; the packets of whitelisted processes are redirected to a listener of its own, which opens a
  connection through a SOCKS5 or HTTP upstream and relays; all other packets are put back as they were. A
  console served over HTTP shows and edits whitelist, upstream and buffer size. This development models all of
  the program's own Go code under \<open>internal/\<close> and \<open>cmd/\<close>.

  \<^bold>\<open>Parts and how they interact.\<close> \<open>cmd/gopass/main.go\<close> takes the single-instance lock (\<open>internal/singleton\<close>),
  loads the configuration (\<open>internal/config\<close>), starts the engine (\<open>internal/engine/engine.go\<close>) and the console
  (\<open>internal/api\<close>). The engine owns a connection tracker (\<open>conntrack.go\<close>), shared by the interceptor
  (\<open>windivert.go\<close>) and the proxy (\<open>tproxy.go\<close>). The interceptor receives batches of packets (\<open>batch.go\<close>), finds
  the process of a new flow (\<open>internal/process\<close>), remembers its decision (\<open>flowpolicy.go\<close>) and, to hijack,
  leases a port from the tracker and rewrites the packet; replies are looked up in the tracker by that port and
  rewritten back. The proxy looks up the same lease when it accepts the connection, reads the host name from the
  ClientHello (\<open>sni.go\<close>), dials through the upstream dialer (\<open>upstream.go\<close>, \<open>httpproxy.go\<close>) and gives the lease
  back at the end.

  \<^bold>\<open>Theories, in the order of their imports.\<close>
  \<^item> \<open>Prelude\<close>: words, Go's time, checked slices (\<open>None\<close> is a run-time panic), loops over maps that delete, the
    collections \<open>go_mem\<close> and \<open>go_time\<close>, the predicate \<open>runs\<close> (no panic, and the result satisfies). \<open>Interfaces\<close>:
    the contracts between components as locales. \<open>GoStd\<close>, \<open>GoNet\<close>, \<open>Json\<close>: what the sources use of \<open>strings\<close>,
    \<open>strconv\<close>, \<open>net\<close> and \<open>encoding/json\<close>.
  \<^item> \<open>ConnTrack\<close> (\<open>ct_*\<close>, state \<open>ConnTracker\<close>), \<open>FlowPolicy\<close> (\<open>fp_*\<close>), \<open>Batch\<close> (\<open>sendQueue\<close>, \<open>sq_*\<close>, \<open>RecvBatch\<close>,
    \<open>SendBatch\<close>), \<open>Sni\<close> (\<open>ExtractSNI\<close>): one file of \<open>internal/engine\<close> each, with the names of the sources under
    a prefix.
  \<^item> \<open>ProcTables\<close>, \<open>Resolver\<close>, \<open>Ipv6Tables\<close>: \<open>internal/process\<close>; table queries and the row parsers, the IPv4
    resolver with its name cache, the IPv6 tables with the refresh gate.
  \<^item> \<open>Rewrite\<close>, \<open>Interceptor\<close>: \<open>windivert.go\<close>, the rewriting of headers and then state, filter, packet handlers,
    batch splitting, receive loop and refresh. A packet handler maps a \<open>world\<close> (interceptor, reinjection queue,
    what was sent) to \<open>Some\<close> world, or \<open>None\<close> for a panic. \<open>PacketPath\<close>, \<open>Routing\<close> and \<open>ReceiveLoop\<close> hold what
    is proved of them: no panic and at most one packet out per packet in; routing and NAT; the loop and its
    failure state. \<open>Blocking\<close>: IPv6 and QUIC of listed processes, which the proxy cannot carry, are dropped.
    \<open>Statuses\<close>: \<open>ProcessStatuses\<close>. \<open>Divert\<close>: the driver's service, the files and the DLL, handles, preflight and
    clean-up.
  \<^item> \<open>Config\<close>: \<open>config.go\<close>, with \<open>Save\<close> as the list of the states of the disk that a crash can expose. The record
    \<open>save_env\<close> holds what the file system answers.
  \<^item> \<open>Upstream\<close>, \<open>HttpProxy\<close>, \<open>TProxy\<close>: the shared dialer as a step relation \<open>up_step\<close> in which calls of
    \<open>Dialer()\<close> interleave, the CONNECT dial, and the handling of one connection as the list of its actions,
    whose effect on tracker, statistics and sockets is \<open>run_actions\<close>.
  \<^item> \<open>System\<close>: interceptor and proxy connected. The step relation \<open>sys_step\<close>, labelled with \<open>sys_event\<close>,
    interleaves packets, flushes, the steps of the proxy's connections (\<open>Look\<close> is \<open>Get\<close>, \<open>Serve\<close> is \<open>Activate\<close>,
    \<open>Hangup\<close> the closing of the client's socket after a relay error, \<open>Finish\<close> the deferred \<open>Delete\<close>), collector,
    sweep, refresh, settings and the two closings of the stop over one shared tracker; \<open>sys_reach\<close> are its
    reachable states, \<open>sys_inv\<close> its invariant. A packet may be refused by the driver, its checksums or its
    closed handle (\<open>refuses\<close>): then \<open>hijackTCP\<close> deletes the lease. The locale \<open>shared_lease\<close> of \<open>Interfaces\<close>,
    interpreted in \<open>ConnTrack\<close>, is what it rests on.
  \<^item> \<open>NatTable\<close>, \<open>SystemSpec\<close>: the abstract specification of the whole: a NAT as a table from ports to flows and
    the set of ports in use (\<open>nat_table\<close>), which leases, expires, accepts and closes (\<open>nat_step\<close>), and the proof
    that \<open>sys_step\<close> refines it, with the view \<open>nat_view\<close>: an interpretation of the locale \<open>refinement\<close>.
    \<open>takes_back\<close> names the steps that end the use of a port.
  \<^item> \<open>Engine\<close>, \<open>Api\<close>, \<open>Startup\<close>: the facade and its settings, the console's guard and handlers (\<open>serve_api\<close>), and
    the steps of \<open>main\<close>. The goroutines that \<open>eng_Start\<close> launches are \<open>accept_loop\<close> with \<open>handleConn\<close>, and
    \<open>start_loop\<close>.
  \<^item> \<open>Lifecycle\<close>: the process and the driver from the lock to the exit (\<open>run_process\<close>), with the preflight check
    that \<open>Engine\<close> takes as a parameter (\<open>se_preflight\<close>) replaced by the one of \<open>Divert\<close>; it agrees with
    \<open>Startup\<close> on the exit code (\<open>run_process_main\<close>). How the receive goroutine, which opens a handle and stores
    it, and the stop race is an argument (\<open>start_race\<close>).

  \<^bold>\<open>What is proved.\<close> Data structures keep their invariants in every reachable state whatever the interleaving
  (tracker, dialer, statistics, queue); parsers of packets, tables, TLS and JSON never panic and read back what
  the layout says; hijack and reverse NAT undo each other; decided flows keep their route; the configuration
  survives a crash at any moment of a save; the whitelist refines a set of names; a settings call that no other
  overlaps leaves all parts in agreement; a connection gives back all it took; the console refuses foreign hosts
  and refused requests change nothing; startup fails closed and destroys no configuration; the preflight check
  closes every handle it opened and the driver's services are removed in bounded time. \<open>System\<close> follows a
  connection from its first packet to the dial of its server, and shows that an active connection keeps its
  lease until its own \<open>Delete\<close>, the late one of another connection from its port or a refused packet of its
  flow, and that as long as it has it what the proxy sends back on it is put back as if the server had sent it;
  \<open>SystemSpec\<close>, that seen from outside it is a NAT whose leases never collide. \<open>Lifecycle\<close> shows, for every
  outcome of the race of start and stop and whatever Windows answers, which handles the process closes, that it
  releases the DLL and removes its files. Some lemmas show behaviour that is probably not meant:
  \<open>Routing.closing_packet_leaves_route\<close>, \<open>Engine.whitelist_edits_race\<close>, \<open>Engine.upstream_edits_race\<close>,
  \<open>Api.ipv6_upstream_breaks_start\<close>, \<open>Config.bare_name_saved_through_TempDir\<close>,
  \<open>ConnTrack.huge_gc_interval_panics\<close>, \<open>Divert.open_after_shutdown_panics\<close>,
  \<open>System.lease_may_expire_before_use\<close>, \<open>System.late_delete_takes_lease\<close>, \<open>System.refused_hijack_takes_lease\<close>,
  \<open>Lifecycle.late_handle_stays_open\<close>.

  \<^bold>\<open>Locks, goroutines, order.\<close> A method that holds its component's mutex throughout is one step; one that takes
  it twice, or calls other parts after it has released it, is several definitions (\<open>Dialer_read\<close> and
  \<open>Dialer_write\<close>, \<open>mutate_locked\<close> and \<open>apply_whitelist\<close>, \<open>upstream_locked\<close>, \<open>push_tproxy\<close> and
  \<open>push_interceptor\<close>, \<open>performance_locked\<close> and \<open>push_performance\<close>); the theorems on whitelist and upstream are
  about calls that do not overlap. The tracker's \<open>Get\<close> and \<open>Activate\<close> are separate steps of the system. A packet
  is one step, although \<open>hijackTCP\<close> of a refused packet takes the tracker's lock for \<open>Set\<close> and again for
  \<open>Delete\<close>: one goroutine handles all packets, and nothing of this one has reached the TProxy between the two.
  The ticks of the background goroutines are steps (\<open>gc_tick\<close>, \<open>fp_sweep\<close>, \<open>refresh_tick\<close>); the goroutines
  themselves are \<open>ticker_loop\<close> over ticks, the stop signal and what others do meanwhile. Where Go ranges over a
  map the order is an argument, and the results are shown for every order.

  \<^bold>\<open>Fuel and bounds.\<close> The port search has the 28232 attempts of the sources (\<open>alloc_attempts\<close>, the whole pool),
  the table query its four; the waits for a service have fifty and thirty rounds. The JSON parser has fuel \<open>2 *
  length + 2\<close>; each of its calls consumes a byte or is followed by one that does, so this is enough
  (\<open>Json.json_parse_fuel\<close>); its nesting limit 10000 is Go's. All other recursion is structural or over a
  decreasing rest of the input.

  \<^bold>\<open>Parameters.\<close> The driver (\<open>driver\<close>), the system's tables and process names, the file system (\<open>save_env\<close>),
  name resolution, the network of a connection (\<open>conn_env\<close>, \<open>connect_env\<close>), the service manager, files and DLL
  (\<open>load_env\<close>), and what \<open>net/url\<close> makes of unusual texts (\<open>ce_url\<close>, \<open>ae_url\<close>). In \<open>System\<close> the TCP stack
  accepts no second connection from a port while the socket of the first is open. In \<open>Config\<close> a rename is one
  step, as for a process that is killed; what a loss of power leaves, which would need the \<open>Sync\<close> that \<open>Save\<close>
  does not call, is not said. In \<open>Divert\<close> nobody else writes the files between placing and loading them, and the
  working directory is a clean path.

  \<^bold>\<open>Not modelled.\<close> The text of log messages and console output; the SOCKS dialer (vendored) and the parsing of
  the HTTP response (\<open>net/http\<close>); the redirects of \<open>http.ServeMux\<close> and \<open>http.FileServer\<close> and the contents of the
  embedded console files (which paths exist is \<open>ae_files\<close>); case folding and white space beyond ASCII and
  invalid UTF-8; repeated keys in a JSON object that shrink and regrow a slice; the spelling of paths (two
  different strings are two files); copying between sockets, which is an outcome.
\<close>

end
